(* ===== verification/Mqtt_Prelude.thy ===== *)
theory Mqtt_Prelude
  imports Main "HOL-Library.Word"
begin

text \<open>
  Shared vocabulary of the development: the Go types the code uses, the error values its
  functions return, the sequencing of fallible calls, and generic facts on lists and words.

  A Go \<^verbatim>\<open>byte\<close>, \<^verbatim>\<open>uint16\<close>, \<^verbatim>\<open>uint32\<close>, \<^verbatim>\<open>uint64\<close> is a word of that width; a Go string or byte slice
  is a list of bytes, so \<^verbatim>\<open>len\<close> is \<^term>\<open>length\<close>. A pointer that may be \<^verbatim>\<open>nil\<close> is an option.
\<close>

unbundle bit_operations_syntax

type_synonym byte = "8 word"
type_synonym uint16 = "16 word"
type_synonym uint32 = "32 word"
type_synonym uint64 = "64 word"
type_synonym gostring = "byte list"

named_theorems cursor_simps "how the cursor's reads act on the unread bytes"

section \<open>Errors\<close>

text \<open>
  The sentinel at the bottom of an error chain, which is what \<^verbatim>\<open>errors.Is\<close> sees
  (\<^verbatim>\<open>protocol/errors.go\<close>); the message text around it is not modelled. \<open>IoEOF\<close>,
  \<open>IoErrUnexpectedEOF\<close> and \<open>IoErr\<close> are the errors of an \<^verbatim>\<open>io.Reader\<close>. \<open>GoPanic\<close> stands for
  a run-time panic: every index and slice expression of the code is modelled by an operation
  that yields it when out of range, so that the absence of panics is a theorem.
\<close>

datatype gerror =
    ErrMalformedPacket
  | ErrProtocolViolation
  | ErrStringTooLong
  | ErrFrameTooLarge
  | IoEOF
  | IoErrUnexpectedEOF
  | IoErr
  | GoPanic

text \<open>Sequencing of fallible calls: \<^verbatim>\<open>v, err := m; if err != nil { return err }; ...\<close>\<close>

definition andthen :: "'e + 'a \<Rightarrow> ('a \<Rightarrow> 'e + 'b) \<Rightarrow> 'e + 'b" where
  "andthen m f = (case m of Inl e \<Rightarrow> Inl e | Inr a \<Rightarrow> f a)"

lemma andthen_simps [simp]:
  "andthen (Inl e) f = Inl e"
  "andthen (Inr a) f = f a"
  by (simp_all add: andthen_def)

lemma andthen_cong [fundef_cong]:
  "m = m' \<Longrightarrow> (\<And>a. m' = Inr a \<Longrightarrow> f a = f' a) \<Longrightarrow> andthen m f = andthen m' f'"
  by (cases m') auto

lemma andthen_Inr_iff:
  "andthen m f = Inr b \<longleftrightarrow> (\<exists>a. m = Inr a \<and> f a = Inr b)"
  by (cases m) auto

lemma andthen_Inl_iff:
  "andthen m f = Inl e \<longleftrightarrow> m = Inl e \<or> (\<exists>a. m = Inr a \<and> f a = Inl e)"
  by (cases m) auto

lemma andthen_if [simp]:
  "andthen (if b then m else n) f = (if b then andthen m f else andthen n f)"
  by simp

lemma andthen_assoc [simp]:
  "andthen (andthen m f) g = andthen m (\<lambda>a. andthen (f a) g)"
  by (cases m) auto

section \<open>Go index and slice expressions\<close>

definition go_index :: "'a list \<Rightarrow> nat \<Rightarrow> gerror + 'a" where
  "go_index xs i = (if i < length xs then Inr (xs ! i) else Inl GoPanic)"

definition go_slice :: "'a list \<Rightarrow> nat \<Rightarrow> nat \<Rightarrow> gerror + 'a list" where
  "go_slice xs i j =
     (if i \<le> j \<and> j \<le> length xs then Inr (take (j - i) (drop i xs)) else Inl GoPanic)"

section \<open>Big-endian integers (\<^verbatim>\<open>encoding/binary\<close>)\<close>

definition be16 :: "uint16 \<Rightarrow> byte list" where
  "be16 v = [ucast (drop_bit 8 v), ucast v]"

definition be32 :: "uint32 \<Rightarrow> byte list" where
  "be32 v = [ucast (drop_bit 24 v), ucast (drop_bit 16 v), ucast (drop_bit 8 v), ucast v]"

definition of_be16 :: "byte \<Rightarrow> byte \<Rightarrow> uint16" where
  "of_be16 a b = push_bit 8 (ucast a) OR ucast b"

definition of_be32 :: "byte \<Rightarrow> byte \<Rightarrow> byte \<Rightarrow> byte \<Rightarrow> uint32" where
  "of_be32 a b c d =
     push_bit 24 (ucast a) OR push_bit 16 (ucast b) OR push_bit 8 (ucast c) OR ucast d"

lemma length_be16 [simp]: "length (be16 v) = 2"
  by (simp add: be16_def)

lemma length_be32 [simp]: "length (be32 v) = 4"
  by (simp add: be32_def)

lemma of_be16_split: "of_be16 (ucast (drop_bit 8 v)) (ucast v) = v"
proof (rule bit_word_eqI)
  fix n assume "n < LENGTH(16)"
  then show "bit (of_be16 (ucast (drop_bit 8 v)) (ucast v)) n = bit v n"
    by (cases "n < 8") (auto simp: of_be16_def bit_simps)
qed

lemma be16_join: "be16 (of_be16 a b) = [a, b]"
proof -
  have "ucast (drop_bit 8 (of_be16 a b)) = a"
    by (rule bit_word_eqI) (auto simp: of_be16_def bit_simps dest: bit_imp_le_length)
  moreover have "ucast (of_be16 a b) = b"
    by (rule bit_word_eqI) (auto simp: of_be16_def bit_simps)
  ultimately show ?thesis by (simp add: be16_def)
qed

lemma of_be32_split:
  "of_be32 (ucast (drop_bit 24 v)) (ucast (drop_bit 16 v)) (ucast (drop_bit 8 v)) (ucast v) = v"
proof (rule bit_word_eqI)
  fix n assume n: "n < LENGTH(32)"
  consider "n < 8" | "8 \<le> n" "n < 16" | "16 \<le> n" "n < 24" | "24 \<le> n" by linarith
  then show "bit (of_be32 (ucast (drop_bit 24 v)) (ucast (drop_bit 16 v)) (ucast (drop_bit 8 v)) (ucast v)) n
    = bit v n"
    using n by cases (auto simp: of_be32_def bit_simps)
qed

lemma be32_join: "be32 (of_be32 a b c d) = [a, b, c, d]"
proof -
  have "ucast (drop_bit 24 (of_be32 a b c d)) = a"
    by (rule bit_word_eqI) (auto simp: of_be32_def bit_simps dest: bit_imp_le_length)
  moreover have "ucast (drop_bit 16 (of_be32 a b c d)) = b"
    by (rule bit_word_eqI) (auto simp: of_be32_def bit_simps dest: bit_imp_le_length)
  moreover have "ucast (drop_bit 8 (of_be32 a b c d)) = c"
    by (rule bit_word_eqI) (auto simp: of_be32_def bit_simps dest: bit_imp_le_length)
  moreover have "ucast (of_be32 a b c d) = d"
    by (rule bit_word_eqI) (auto simp: of_be32_def bit_simps)
  ultimately show ?thesis by (simp add: be32_def)
qed

lemma int_less_uint [simp]: "int m < uint (w :: 'a::len word) \<longleftrightarrow> m < unat w"
  by (simp add: zless_nat_eq_int_zless[symmetric])

lemma uint_less_int [simp]: "uint (w :: 'a::len word) < int m \<longleftrightarrow> unat w < m"
  by (metis nat_int nat_less_iff uint_nonnegative unat_eq_nat_uint)

section \<open>Strings (\<^verbatim>\<open>unicode/utf8\<close>, \<^verbatim>\<open>strings\<close>)\<close>

lemma byte_le_2: "q \<le> (2 :: byte) \<Longrightarrow> q = 0 \<or> q = 1 \<or> q = 2"
proof -
  assume "q \<le> 2"
  then have "unat q \<le> 2" by (simp add: word_le_nat_alt)
  then have "unat q = unat (0::byte) \<or> unat q = unat (1::byte) \<or> unat q = unat (2::byte)" by auto
  then show ?thesis by (simp only: word_unat_eq_iff)
qed

text \<open>A string literal of the source as its bytes.\<close>

definition str :: "string \<Rightarrow> gostring" where
  "str s = map (\<lambda>c. of_nat (of_char c)) s"

definition utf8Cont :: "byte \<Rightarrow> bool" where
  "utf8Cont b \<longleftrightarrow> 0x80 \<le> b \<and> b \<le> 0xBF"

text \<open>
  \<^verbatim>\<open>utf8.ValidString\<close>: one case per accept range of the first byte. Overlong forms, the
  surrogates and code points above U+10FFFF are rejected.
\<close>

fun utf8Valid :: "gostring \<Rightarrow> bool" where
  "utf8Valid [] = True"
| "utf8Valid (b # bs) =
     (if b \<le> 0x7F then utf8Valid bs
      else if 0xC2 \<le> b \<and> b \<le> 0xDF then
        (case bs of b1 # r \<Rightarrow> utf8Cont b1 \<and> utf8Valid r | _ \<Rightarrow> False)
      else if 0xE0 \<le> b \<and> b \<le> 0xEF then
        (case bs of b1 # b2 # r \<Rightarrow>
           utf8Cont b1 \<and> (b = 0xE0 \<longrightarrow> 0xA0 \<le> b1) \<and> (b = 0xED \<longrightarrow> b1 \<le> 0x9F) \<and>
           utf8Cont b2 \<and> utf8Valid r
         | _ \<Rightarrow> False)
      else if 0xF0 \<le> b \<and> b \<le> 0xF4 then
        (case bs of b1 # b2 # b3 # r \<Rightarrow>
           utf8Cont b1 \<and> (b = 0xF0 \<longrightarrow> 0x90 \<le> b1) \<and> (b = 0xF4 \<longrightarrow> b1 \<le> 0x8F) \<and>
           utf8Cont b2 \<and> utf8Cont b3 \<and> utf8Valid r
         | _ \<Rightarrow> False)
      else False)"

text \<open>\<^verbatim>\<open>strings.IndexByte(s, b) >= 0\<close>, also \<^verbatim>\<open>strings.Contains\<close> of a one-byte string.\<close>

definition containsByte :: "gostring \<Rightarrow> byte \<Rightarrow> bool" where
  "containsByte s b \<longleftrightarrow> b \<in> set s"

text \<open>\<^verbatim>\<open>strings.ContainsAny(s, "+#")\<close>.\<close>

definition containsWildcard :: "gostring \<Rightarrow> bool" where
  "containsWildcard s \<longleftrightarrow> containsByte s 0x2B \<or> containsByte s 0x23"

text \<open>\<^verbatim>\<open>fmt.Sprintf("%d", n)\<close> of a non-negative number.\<close>

fun decimal :: "nat \<Rightarrow> string" where
  "decimal n =
     (if n < 10 then [''0123456789'' ! n] else decimal (n div 10) @ [''0123456789'' ! (n mod 10)])"

declare decimal.simps [simp del]

end
