(* ===== verification/Mqtt_Wire.thy ===== *)
theory Mqtt_Wire
  imports Mqtt_Prelude
begin

text \<open>
  The wire primitives of \<^verbatim>\<open>protocol/wire.go\<close> and \<^verbatim>\<open>protocol/version.go\<close>: packet types, the fixed
  header, the variable byte integer in its stream and its cursor reader, strings and binary
  fields, and the bounds-checked cursor. Encoders take the buffer they append to and return it
  extended; an \<^verbatim>\<open>io.Writer\<close> is the buffer of bytes written so far. The locale \<open>field_codec\<close>
  is the contract between a field's encoder and its reader; every field of the codec
  interprets it.
\<close>

section \<open>Versions and packet types\<close>

type_synonym Version = byte
type_synonym PacketType = byte

abbreviation V311 :: Version where "V311 \<equiv> 4"
abbreviation V50 :: Version where "V50 \<equiv> 5"

definition Valid :: "Version \<Rightarrow> bool" where
  "Valid v \<longleftrightarrow> v = V311 \<or> v = V50"

abbreviation Connect :: PacketType where "Connect \<equiv> 1"
abbreviation Connack :: PacketType where "Connack \<equiv> 2"
abbreviation Publish :: PacketType where "Publish \<equiv> 3"
abbreviation Puback :: PacketType where "Puback \<equiv> 4"
abbreviation Pubrec :: PacketType where "Pubrec \<equiv> 5"
abbreviation Pubrel :: PacketType where "Pubrel \<equiv> 6"
abbreviation Pubcomp :: PacketType where "Pubcomp \<equiv> 7"
abbreviation Subscribe :: PacketType where "Subscribe \<equiv> 8"
abbreviation Suback :: PacketType where "Suback \<equiv> 9"
abbreviation Unsubscribe :: PacketType where "Unsubscribe \<equiv> 10"
abbreviation Unsuback :: PacketType where "Unsuback \<equiv> 11"
abbreviation Pingreq :: PacketType where "Pingreq \<equiv> 12"
abbreviation Pingresp :: PacketType where "Pingresp \<equiv> 13"
abbreviation Disconnect :: PacketType where "Disconnect \<equiv> 14"
abbreviation Auth :: PacketType where "Auth \<equiv> 15"

definition PacketType_String :: "PacketType \<Rightarrow> string" where
  "PacketType_String t =
     (if t = Connect then ''CONNECT''
      else if t = Connack then ''CONNACK''
      else if t = Publish then ''PUBLISH''
      else if t = Puback then ''PUBACK''
      else if t = Pubrec then ''PUBREC''
      else if t = Pubrel then ''PUBREL''
      else if t = Pubcomp then ''PUBCOMP''
      else if t = Subscribe then ''SUBSCRIBE''
      else if t = Suback then ''SUBACK''
      else if t = Unsubscribe then ''UNSUBSCRIBE''
      else if t = Unsuback then ''UNSUBACK''
      else if t = Pingreq then ''PINGREQ''
      else if t = Pingresp then ''PINGRESP''
      else if t = Disconnect then ''DISCONNECT''
      else if t = Auth then ''AUTH''
      else ''PacketType('' @ decimal (unat t) @ '')'')"

definition Version_String :: "Version \<Rightarrow> string" where
  "Version_String v =
     (if v = V311 then ''MQTT 3.1.1''
      else if v = V50 then ''MQTT 5.0''
      else ''MQTT(level '' @ decimal (unat v) @ '')'')"

definition maxVarint :: uint32 where "maxVarint = 0x0FFFFFFF"
definition maxStringLen :: int where "maxStringLen = 0xFFFF"

section \<open>Frames\<close>

record Frame =
  Header :: byte
  Body :: "byte list"

definition packetType :: "byte \<Rightarrow> PacketType" where
  "packetType header = drop_bit 4 header"

definition ValidateFlags :: "Frame \<Rightarrow> gerror + unit" where
  "ValidateFlags f =
     (let flags = Header f AND 0x0F; t = packetType (Header f) in
      if t = Publish then
        (let qos = drop_bit 1 flags AND 0x03 in
         if qos = 0x03 then Inl ErrMalformedPacket
         else if qos = 0 \<and> flags AND 0x08 \<noteq> 0 then Inl ErrMalformedPacket
         else Inr ())
      else if t \<in> {Pubrel, Subscribe, Unsubscribe} then
        (if flags \<noteq> 0x02 then Inl ErrMalformedPacket else Inr ())
      else if t \<in> {Connect, Connack, Puback, Pubrec, Pubcomp, Suback, Unsuback,
                   Pingreq, Pingresp, Disconnect, Auth} then
        (if flags \<noteq> 0x00 then Inl ErrMalformedPacket else Inr ())
      else Inl ErrMalformedPacket)"

section \<open>Variable byte integers and length-prefixed fields: encoders\<close>

function appendVarint :: "byte list \<Rightarrow> uint32 \<Rightarrow> byte list" where
  "appendVarint buf v =
     (let digit = ucast (v AND 0x7F) :: byte;
          v' = drop_bit 7 v;
          digit = (if v' > 0 then digit OR 0x80 else digit)
      in if v' = 0 then buf @ [digit] else appendVarint (buf @ [digit]) v')"
  by pat_completeness auto

lemma drop_bit_7_less:
  assumes "drop_bit 7 v \<noteq> (0 :: uint32)" shows "unat (drop_bit 7 v) < unat v"
proof -
  have eq: "unat (drop_bit 7 v) = unat v div 128"
    unfolding unat_drop_bit_eq by (simp add: drop_bit_eq_div)
  have "unat v \<noteq> 0" using assms by (auto simp: unat_eq_0)
  with eq show ?thesis by simp
qed

termination appendVarint
  by (relation "measure (\<lambda>(buf, v). unat v)") (auto simp: drop_bit_7_less)

declare appendVarint.simps [simp del]

definition varintLen :: "uint32 \<Rightarrow> nat" where
  "varintLen v =
     (if v < push_bit 7 1 then 1
      else if v < push_bit 14 1 then 2
      else if v < push_bit 21 1 then 3
      else 4)"

definition nonMinimalVarint :: "nat \<Rightarrow> byte \<Rightarrow> bool" where
  "nonMinimalVarint i b \<longleftrightarrow> 0 < i \<and> b = 0x00"

definition appendString :: "byte list \<Rightarrow> gostring \<Rightarrow> gerror + byte list" where
  "appendString buf s =
     (if maxStringLen < int (length s) then Inl ErrStringTooLong
      else if \<not> utf8Valid s then Inl ErrProtocolViolation
      else if containsByte s 0 then Inl ErrProtocolViolation
      else Inr (buf @ be16 (of_nat (length s)) @ s))"

definition appendBinary :: "byte list \<Rightarrow> byte list \<Rightarrow> gerror + byte list" where
  "appendBinary buf b =
     (if maxStringLen < int (length b) then Inl ErrStringTooLong
      else Inr (buf @ be16 (of_nat (length b)) @ b))"

definition writePacket :: "byte list \<Rightarrow> byte \<Rightarrow> byte list \<Rightarrow> gerror + byte list" where
  "writePacket w header body =
     (if uint maxVarint < int (length body) then Inl ErrFrameTooLarge
      else
        let hdr = appendVarint [header] (of_nat (length body)) in
        if length body = 0 then Inr (w @ hdr) else Inr ((w @ hdr) @ body))"

section \<open>Reading a frame from a stream\<close>

text \<open>
  An \<^verbatim>\<open>io.Reader\<close> is the bytes it will still deliver and the error it reports after them.
  \<open>ReadFull\<close> is \<^verbatim>\<open>io.ReadFull\<close>: an end of input after some of the bytes is
  \<open>IoErrUnexpectedEOF\<close>.
\<close>

record reader =
  r_bytes :: "byte list"
  r_err :: gerror

definition ReadFull :: "reader \<Rightarrow> nat \<Rightarrow> gerror + (byte list \<times> reader)" where
  "ReadFull r n =
     (if n \<le> length (r_bytes r)
      then Inr (take n (r_bytes r), r\<lparr>r_bytes := drop n (r_bytes r)\<rparr>)
      else if r_bytes r \<noteq> [] \<and> r_err r = IoEOF then Inl IoErrUnexpectedEOF
      else Inl (r_err r))"

function readVarintFrom_loop :: "nat \<Rightarrow> uint32 \<Rightarrow> reader \<Rightarrow> gerror + (uint32 \<times> reader)" where
  "readVarintFrom_loop i value r =
     (if i < 4 then
        andthen (ReadFull r 1) (\<lambda>(bs, r').
          andthen (go_index bs 0) (\<lambda>b.
            let value' = value OR push_bit (7 * i) (ucast (b AND 0x7F)) in
            if b AND 0x80 = 0 then
              (if nonMinimalVarint i b then Inl ErrMalformedPacket else Inr (value', r'))
            else readVarintFrom_loop (Suc i) value' r'))
      else Inl ErrMalformedPacket)"
  by pat_completeness auto
termination readVarintFrom_loop
  by (relation "measure (\<lambda>(i, _, _). 4 - i)") auto

declare readVarintFrom_loop.simps [simp del]

definition readVarintFrom :: "reader \<Rightarrow> gerror + (uint32 \<times> reader)" where
  "readVarintFrom r = readVarintFrom_loop 0 0 r"

definition ReadFrame :: "reader \<Rightarrow> uint32 \<Rightarrow> gerror + (Frame \<times> reader)" where
  "ReadFrame r maxPacketSize =
     andthen (ReadFull r 1) (\<lambda>(head, r1).
     andthen (readVarintFrom r1) (\<lambda>(len, r2).
     let overhead = of_nat (1 + varintLen len) :: uint32 in
     if maxPacketSize < overhead \<or> len > maxPacketSize - overhead then Inl ErrFrameTooLarge
     else
       andthen (if len > 0 then ReadFull r2 (unat len) else Inr ([], r2)) (\<lambda>(body, r3).
       andthen (go_index head 0) (\<lambda>h.
       Inr (\<lparr>Header = h, Body = body\<rparr>, r3)))))"

section \<open>The cursor\<close>

record cursor =
  buf :: "byte list"
  pos :: nat

definition newCursor :: "byte list \<Rightarrow> cursor" where
  "newCursor b = \<lparr>buf = b, pos = 0\<rparr>"

definition remaining :: "cursor \<Rightarrow> int" where
  "remaining c = int (length (buf c)) - int (pos c)"

definition readByte :: "cursor \<Rightarrow> gerror + (byte \<times> cursor)" where
  "readByte c =
     (if remaining c < 1 then Inl ErrMalformedPacket
      else andthen (go_index (buf c) (pos c)) (\<lambda>b. Inr (b, c\<lparr>pos := pos c + 1\<rparr>)))"

text \<open>\<^verbatim>\<open>binary.BigEndian.Uint16\<close> and \<^verbatim>\<open>Uint32\<close> of a slice; a shorter slice panics.\<close>

definition BigEndianUint16 :: "byte list \<Rightarrow> gerror + uint16" where
  "BigEndianUint16 bs = (case bs of a # b # _ \<Rightarrow> Inr (of_be16 a b) | _ \<Rightarrow> Inl GoPanic)"

definition BigEndianUint32 :: "byte list \<Rightarrow> gerror + uint32" where
  "BigEndianUint32 bs = (case bs of a # b # c # d # _ \<Rightarrow> Inr (of_be32 a b c d) | _ \<Rightarrow> Inl GoPanic)"

definition readUint16 :: "cursor \<Rightarrow> gerror + (uint16 \<times> cursor)" where
  "readUint16 c =
     (if remaining c < 2 then Inl ErrMalformedPacket
      else andthen (go_slice (buf c) (pos c) (pos c + 2)) (\<lambda>bs.
           andthen (BigEndianUint16 bs) (\<lambda>v. Inr (v, c\<lparr>pos := pos c + 2\<rparr>))))"

definition readUint32 :: "cursor \<Rightarrow> gerror + (uint32 \<times> cursor)" where
  "readUint32 c =
     (if remaining c < 4 then Inl ErrMalformedPacket
      else andthen (go_slice (buf c) (pos c) (pos c + 4)) (\<lambda>bs.
           andthen (BigEndianUint32 bs) (\<lambda>v. Inr (v, c\<lparr>pos := pos c + 4\<rparr>))))"

function readVarint_loop :: "nat \<Rightarrow> uint32 \<Rightarrow> cursor \<Rightarrow> gerror + (uint32 \<times> cursor)" where
  "readVarint_loop i value c =
     (if i < 4 then
        andthen (readByte c) (\<lambda>(b, c').
          let value' = value OR push_bit (7 * i) (ucast (b AND 0x7F)) in
          if b AND 0x80 = 0 then
            (if nonMinimalVarint i b then Inl ErrMalformedPacket else Inr (value', c'))
          else readVarint_loop (Suc i) value' c')
      else Inl ErrMalformedPacket)"
  by pat_completeness auto
termination readVarint_loop
  by (relation "measure (\<lambda>(i, _, _). 4 - i)") auto

declare readVarint_loop.simps [simp del]

definition readVarint :: "cursor \<Rightarrow> gerror + (uint32 \<times> cursor)" where
  "readVarint c = readVarint_loop 0 0 c"

definition readString :: "cursor \<Rightarrow> gerror + (gostring \<times> cursor)" where
  "readString c =
     andthen (readUint16 c) (\<lambda>(n, c1).
     if remaining c1 < int (unat n) then Inl ErrMalformedPacket
     else
       andthen (go_slice (buf c1) (pos c1) (pos c1 + unat n)) (\<lambda>s.
       let c2 = c1\<lparr>pos := pos c1 + unat n\<rparr> in
       if \<not> utf8Valid s then Inl ErrMalformedPacket
       else if containsByte s 0 then Inl ErrMalformedPacket
       else Inr (s, c2)))"

definition readBinary :: "cursor \<Rightarrow> gerror + (byte list \<times> cursor)" where
  "readBinary c =
     andthen (readUint16 c) (\<lambda>(n, c1).
     if remaining c1 < int (unat n) then Inl ErrMalformedPacket
     else
       andthen (go_slice (buf c1) (pos c1) (pos c1 + unat n)) (\<lambda>out.
       Inr (out, c1\<lparr>pos := pos c1 + unat n\<rparr>)))"

section \<open>The unread bytes\<close>

text \<open>
  A cursor is abstracted to the bytes it has not read yet; on a cursor inside its buffer every
  read is a function of those bytes alone.
\<close>

definition rest :: "cursor \<Rightarrow> byte list" where
  "rest c = drop (pos c) (buf c)"

definition cursor_ok :: "cursor \<Rightarrow> bool" where
  "cursor_ok c \<longleftrightarrow> pos c \<le> length (buf c)"

definition advance :: "cursor \<Rightarrow> nat \<Rightarrow> cursor" where
  "advance c n = c\<lparr>pos := pos c + n\<rparr>"

lemma rest_newCursor [simp]: "rest (newCursor b) = b"
  and cursor_ok_newCursor [simp]: "cursor_ok (newCursor b)"
  by (simp_all add: rest_def newCursor_def cursor_ok_def)

lemma rest_advance [simp]: "rest (advance c n) = drop n (rest c)"
  by (simp add: rest_def advance_def add.commute)

lemma advance_advance [simp]: "advance (advance c m) n = advance c (m + n)"
  by (simp add: advance_def add.assoc)

lemma cursor_ok_advance: "cursor_ok c \<Longrightarrow> n \<le> length (rest c) \<Longrightarrow> cursor_ok (advance c n)"
  by (simp add: cursor_ok_def rest_def advance_def)

lemma remaining_rest: "cursor_ok c \<Longrightarrow> remaining c = int (length (rest c))"
  by (simp add: cursor_ok_def rest_def remaining_def of_nat_diff)

lemma go_index_rest:
  "cursor_ok c \<Longrightarrow> rest c \<noteq> [] \<Longrightarrow> go_index (buf c) (pos c) = Inr (hd (rest c))"
  by (auto simp: go_index_def cursor_ok_def rest_def hd_drop_conv_nth)

lemma go_slice_rest:
  "cursor_ok c \<Longrightarrow> n \<le> length (rest c) \<Longrightarrow>
   go_slice (buf c) (pos c) (pos c + n) = Inr (take n (rest c))"
  by (auto simp: go_slice_def cursor_ok_def rest_def)

lemma readByte_rest [cursor_simps]:
  "cursor_ok c \<Longrightarrow> readByte c =
     (case rest c of [] \<Rightarrow> Inl ErrMalformedPacket | b # _ \<Rightarrow> Inr (b, advance c 1))"
  by (cases "rest c") (auto simp: readByte_def remaining_rest go_index_rest advance_def)

lemma readUint16_rest [cursor_simps]:
  "cursor_ok c \<Longrightarrow> readUint16 c =
     (case rest c of a # b # _ \<Rightarrow> Inr (of_be16 a b, advance c 2) | _ \<Rightarrow> Inl ErrMalformedPacket)"
  unfolding readUint16_def advance_def[symmetric]
  using go_slice_rest[of c 2]
  by (auto simp: remaining_rest BigEndianUint16_def split: list.splits)

lemma readUint32_rest [cursor_simps]:
  "cursor_ok c \<Longrightarrow> readUint32 c =
     (case rest c of a # b # d # e # _ \<Rightarrow> Inr (of_be32 a b d e, advance c 4)
      | _ \<Rightarrow> Inl ErrMalformedPacket)"
  unfolding readUint32_def advance_def[symmetric]
  using go_slice_rest[of c 4]
  by (auto simp: remaining_rest BigEndianUint32_def split: list.splits)

lemma readBinary_rest [cursor_simps]:
  "cursor_ok c \<Longrightarrow> readBinary c =
     (case rest c of
        a # b # bs \<Rightarrow>
          (let n = unat (of_be16 a b) in
           if n \<le> length bs then Inr (take n bs, advance c (2 + n)) else Inl ErrMalformedPacket)
      | _ \<Rightarrow> Inl ErrMalformedPacket)"
  unfolding readBinary_def advance_def[symmetric]
  by (auto simp: readUint16_rest remaining_rest go_slice_rest cursor_ok_advance Let_def
        split: list.splits)

lemma readString_rest [cursor_simps]:
  "cursor_ok c \<Longrightarrow> readString c =
     (case rest c of
        a # b # bs \<Rightarrow>
          (let n = unat (of_be16 a b) in
           if n \<le> length bs \<and> utf8Valid (take n bs) \<and> \<not> containsByte (take n bs) 0
           then Inr (take n bs, advance c (2 + n)) else Inl ErrMalformedPacket)
      | _ \<Rightarrow> Inl ErrMalformedPacket)"
  unfolding readString_def advance_def[symmetric]
  by (auto simp: readUint16_rest remaining_rest go_slice_rest cursor_ok_advance Let_def not_less
        split: list.splits)

section \<open>The contract between an encoder and its reader\<close>

locale field_codec =
  fixes enc :: "'a \<Rightarrow> gerror + byte list"
    and rd :: "cursor \<Rightarrow> gerror + ('a \<times> cursor)"
  assumes rd_enc: "\<lbrakk>enc x = Inr bs; cursor_ok c; rest c = bs @ ys\<rbrakk>
      \<Longrightarrow> rd c = Inr (x, advance c (length bs))"
    and enc_rd: "\<lbrakk>rd c = Inr (x, c'); cursor_ok c\<rbrakk>
      \<Longrightarrow> \<exists>bs. enc x = Inr bs \<and> c' = advance c (length bs) \<and> rest c = bs @ rest c'"
    and rd_err: "\<lbrakk>rd c = Inl e; cursor_ok c\<rbrakk> \<Longrightarrow> e = ErrMalformedPacket"
begin

lemma rd_ok: "\<lbrakk>rd c = Inr (x, c'); cursor_ok c\<rbrakk> \<Longrightarrow> cursor_ok c'"
  using enc_rd cursor_ok_advance by (metis append.right_neutral length_append le_add1)

lemma rd_frame: "\<lbrakk>rd c = Inr (x, c'); cursor_ok c\<rbrakk> \<Longrightarrow> buf c' = buf c \<and> pos c \<le> pos c'"
  using enc_rd by (fastforce simp: advance_def)

lemma enc_prefix:
  assumes "enc x = Inr bs" "enc y = Inr cs" "bs @ r = cs @ s"
  shows "x = y \<and> r = s"
proof -
  have "rd (newCursor (bs @ r)) = Inr (x, advance (newCursor (bs @ r)) (length bs))"
    using assms(1) by (rule rd_enc) simp_all
  moreover have "rd (newCursor (bs @ r)) = Inr (y, advance (newCursor (bs @ r)) (length cs))"
    using assms(2) by (rule rd_enc) (simp_all add: assms(3))
  ultimately have "x = y" by simp
  with assms show ?thesis by simp
qed

lemma enc_inj: "enc x = Inr bs \<Longrightarrow> enc y = Inr bs \<Longrightarrow> x = y"
  using enc_prefix[of x bs y bs "[]" "[]"] by simp

end

section \<open>The fields keep the contract\<close>

definition encByte :: "byte \<Rightarrow> gerror + byte list" where
  "encByte b = Inr [b]"

definition encUint16 :: "uint16 \<Rightarrow> gerror + byte list" where
  "encUint16 v = Inr (be16 v)"

definition encUint32 :: "uint32 \<Rightarrow> gerror + byte list" where
  "encUint32 v = Inr (be32 v)"

lemma of_nat_length_16:
  "int (length s) \<le> maxStringLen \<Longrightarrow> unat (of_nat (length s) :: uint16) = length s"
  by (simp add: maxStringLen_def unat_of_nat)

lemma be16_length_split:
  "\<exists>a b. be16 v = [a, b] \<and> of_be16 a b = v"
  by (rule exI[of _ "ucast (drop_bit 8 v)"], rule exI[of _ "ucast v"])
     (simp add: be16_def of_be16_split)

lemma be32_split:
  "\<exists>a b c d. be32 v = [a, b, c, d] \<and> of_be32 a b c d = v"
  unfolding be32_def by (metis of_be32_split)

lemma unat_of_be16_le: "uint (of_be16 a b) \<le> maxStringLen"
  using unsigned_less[of "of_be16 a b", where 'a=int] by (simp add: maxStringLen_def)

interpretation byte_field: field_codec encByte readByte
  by unfold_locales (auto simp: encByte_def readByte_rest split: list.splits)

interpretation u16_field: field_codec encUint16 readUint16
proof unfold_locales
  fix x bs c ys
  assume "encUint16 x = Inr bs" "cursor_ok c" "rest c = bs @ ys"
  then show "readUint16 c = Inr (x, advance c (length bs))"
    by (auto simp: encUint16_def readUint16_rest be16_def of_be16_split numeral_2_eq_2)
next
  fix c x c'
  assume "readUint16 c = Inr (x, c')" "cursor_ok c"
  then show "\<exists>bs. encUint16 x = Inr bs \<and> c' = advance c (length bs) \<and> rest c = bs @ rest c'"
    by (auto simp: encUint16_def readUint16_rest be16_join split: list.splits)
qed (auto simp: readUint16_rest split: list.splits)

interpretation u32_field: field_codec encUint32 readUint32
proof unfold_locales
  fix x bs c ys
  assume a: "encUint32 x = Inr bs" "cursor_ok c" "rest c = bs @ ys"
  then have "length bs = 4" by (auto simp: encUint32_def)
  obtain p q r s where "be32 x = [p, q, r, s]" and x: "of_be32 p q r s = x"
    using be32_split by metis
  with a have "rest c = p # q # r # s # ys" by (simp add: encUint32_def)
  then show "readUint32 c = Inr (x, advance c (length bs))"
    using a(2) x \<open>length bs = 4\<close> by (simp add: readUint32_rest)
next
  fix c x c'
  assume "readUint32 c = Inr (x, c')" "cursor_ok c"
  then show "\<exists>bs. encUint32 x = Inr bs \<and> c' = advance c (length bs) \<and> rest c = bs @ rest c'"
    by (auto simp: encUint32_def readUint32_rest be32_join split: list.splits)
qed (auto simp: readUint32_rest split: list.splits)

interpretation binary_field: field_codec "appendBinary []" readBinary
proof unfold_locales
  fix x bs c ys
  assume "appendBinary [] x = Inr bs" "cursor_ok c" "rest c = bs @ ys"
  moreover obtain a b where "be16 (of_nat (length x)) = [a, b]" "of_be16 a b = of_nat (length x)"
    using be16_length_split by metis
  ultimately show "readBinary c = Inr (x, advance c (length bs))"
    by (auto simp: appendBinary_def readBinary_rest of_nat_length_16 split: if_splits)
next
  fix c x c'
  assume "readBinary c = Inr (x, c')" "cursor_ok c"
  then show "\<exists>bs. appendBinary [] x = Inr bs \<and> c' = advance c (length bs) \<and> rest c = bs @ rest c'"
    using unat_of_be16_le
    by (auto simp: appendBinary_def readBinary_rest be16_join not_less min_absorb2 Let_def
      split: list.splits if_splits)
qed (auto simp: readBinary_rest Let_def split: list.splits if_splits)

interpretation string_field: field_codec "appendString []" readString
proof unfold_locales
  fix x bs c ys
  assume "appendString [] x = Inr bs" "cursor_ok c" "rest c = bs @ ys"
  moreover obtain a b where "be16 (of_nat (length x)) = [a, b]" "of_be16 a b = of_nat (length x)"
    using be16_length_split by metis
  ultimately show "readString c = Inr (x, advance c (length bs))"
    by (auto simp: appendString_def readString_rest of_nat_length_16 split: if_splits)
next
  fix c x c'
  assume "readString c = Inr (x, c')" "cursor_ok c"
  then show "\<exists>bs. appendString [] x = Inr bs \<and> c' = advance c (length bs) \<and> rest c = bs @ rest c'"
    using unat_of_be16_le
    by (auto simp: appendString_def readString_rest be16_join not_less min_absorb2 Let_def
      split: list.splits if_splits)
qed (auto simp: readString_rest Let_def split: list.splits if_splits)

section \<open>Variable byte integers\<close>

abbreviation varint :: "uint32 \<Rightarrow> byte list" where
  "varint v \<equiv> appendVarint [] v"

lemma appendVarint_append: "appendVarint (xs @ ys) v = xs @ appendVarint ys v"
proof (induction ys v arbitrary: xs rule: appendVarint.induct)
  case (1 ys v)
  show ?case
    using 1 by (subst (1 2) appendVarint.simps) (simp add: Let_def)
qed

lemma appendVarint_eq: "appendVarint xs v = xs @ varint v"
  using appendVarint_append[of xs "[]"] by simp

lemma varint_rec:
  "varint v =
     (if drop_bit 7 v = 0 then [ucast (v AND 0x7F)]
      else (ucast (v AND 0x7F) OR 0x80) # varint (drop_bit 7 v))"
  by (subst appendVarint.simps) (simp add: Let_def appendVarint_eq[of "[_]"] word_neq_0_conv)

lemma varint_induct [case_names step]:
  assumes "\<And>v. (drop_bit 7 v \<noteq> 0 \<Longrightarrow> P (drop_bit 7 v)) \<Longrightarrow> P v"
  shows "P (v :: uint32)"
proof (induction "unat v" arbitrary: v rule: less_induct)
  case less
  then show ?case using assms drop_bit_7_less by blast
qed

lemma and_7F_mask: "v AND 0x7F = take_bit 7 (v :: 'a::len word)"
  by (simp add: take_bit_eq_mask mask_eq_exp_minus_1)

lemma bit_push_bit_1: "bit (push_bit k (1 :: 'a::len word)) n \<longleftrightarrow> n = k \<and> k < LENGTH('a)"
  by (auto simp: bit_simps)

lemma bit_80: "bit (0x80 :: byte) n \<longleftrightarrow> n = 7"
  using bit_push_bit_1[of 7 n, where 'a=8] by simp

lemma and_80_bit: "b AND 0x80 = (0 :: byte) \<longleftrightarrow> \<not> bit b 7"
proof -
  have h: "bit (b AND 0x80) n \<longleftrightarrow> n = 7 \<and> bit b 7" for n
    by (auto simp only: bit_and_iff bit_80)
  show ?thesis
  proof
    assume "b AND 0x80 = 0"
    with h[of 7] show "\<not> bit b 7" by simp
  next
    assume "\<not> bit b 7"
    then have "bit (b AND 0x80) n = bit 0 n" for n by (simp only: h) simp
    then show "b AND 0x80 = 0" by (intro bit_word_eqI)
  qed
qed

definition below :: "nat \<Rightarrow> 'a::len word \<Rightarrow> bool" where
  "below n v \<longleftrightarrow> (\<forall>m. bit v m \<longrightarrow> m < n)"

lemma below_drop_bit: "below (n + 7) v \<Longrightarrow> below n (drop_bit 7 v)"
  by (auto simp: below_def bit_drop_bit_eq)

lemma below_take_bit: "below n v \<longleftrightarrow> take_bit n v = v"
proof
  assume "below n v"
  then show "take_bit n v = v"
    by (intro bit_word_eqI) (auto simp: below_def bit_take_bit_iff)
next
  assume "take_bit n v = v"
  then show "below n v"
    unfolding below_def by (metis bit_take_bit_iff)
qed

lemma drop_bit_0_below: "drop_bit n v = 0 \<longleftrightarrow> below n v"
  by (simp add: below_take_bit take_bit_eq_self_iff_drop_bit_eq_0)

lemma below_unat: "n < LENGTH('a) \<Longrightarrow> below n (v :: 'a::len word) \<longleftrightarrow> unat v < 2 ^ n"
  unfolding below_take_bit word_unat_eq_iff
  by (simp add: unsigned_take_bit_eq take_bit_nat_eq_self_iff)

lemma below_28: "below 28 v \<longleftrightarrow> v \<le> maxVarint"
  using below_unat[of 28 v] unfolding maxVarint_def word_le_nat_alt by (simp, linarith)

text \<open>The digit of a value and what the reader sees of it.\<close>

lemma digit_last:
  fixes v :: uint32
  assumes "below 7 v" defines "d \<equiv> ucast (v AND 0x7F) :: byte"
  shows "d AND 0x80 = 0" and "ucast (d AND 0x7F) = v" and "d = 0 \<longleftrightarrow> v = 0"
proof -
  show "d AND 0x80 = 0"
    by (simp add: d_def and_80_bit and_7F_mask bit_simps)
  show "ucast (d AND 0x7F) = v"
    using assms(1) by (intro bit_word_eqI) (auto simp: d_def and_7F_mask bit_simps below_def)
  then show "d = 0 \<longleftrightarrow> v = 0"
    by (auto simp: d_def)
qed

lemma digit_more:
  fixes v :: uint32
  defines "d \<equiv> ucast (v AND 0x7F) OR 0x80 :: byte"
  shows "d AND 0x80 \<noteq> 0" and "ucast (d AND 0x7F) = v AND 0x7F"
proof -
  show "d AND 0x80 \<noteq> 0"
    by (simp add: d_def and_80_bit bit_simps bit_80)
  show "ucast (d AND 0x7F) = v AND 0x7F"
    by (intro bit_word_eqI) (auto simp: d_def and_7F_mask bit_simps bit_80)
qed

lemma push_split:
  "push_bit n (v AND 0x7F) OR push_bit (7 + n) (drop_bit 7 v) = push_bit n (v :: uint32)"
proof (rule bit_word_eqI)
  fix k
  show "bit (push_bit n (v AND 0x7F) OR push_bit (7 + n) (drop_bit 7 v)) k = bit (push_bit n v) k"
    by (cases "k < n + 7") (auto simp: and_7F_mask bit_simps not_less le_diff_conv2)
qed

lemma readVarint_loop_enc:
  assumes "i < 4" "below (28 - 7 * i) v" "0 < i \<longrightarrow> v \<noteq> 0" "cursor_ok c" "rest c = varint v @ ys"
  shows "readVarint_loop i acc c = Inr (acc OR push_bit (7 * i) v, advance c (length (varint v)))"
  using assms
proof (induction v arbitrary: i acc c rule: varint_induct)
  case (step v)
  show ?case
  proof (cases "drop_bit 7 v = 0")
    case True
    then have "below 7 v" by (simp add: drop_bit_0_below)
    moreover have "varint v = [ucast (v AND 0x7F)]" using True by (subst varint_rec) simp
    ultimately show ?thesis
      using step.prems digit_last[of v]
      by (subst readVarint_loop.simps) (auto simp: readByte_rest nonMinimalVarint_def Let_def)
  next
    case False
    have "i < 3"
    proof (rule ccontr)
      assume "\<not> i < 3"
      with step.prems(1) have "i = 3" by simp
      with step.prems(2) have "below 7 v" by simp
      with False show False by (simp add: drop_bit_0_below)
    qed
    have v: "varint v = (ucast (v AND 0x7F) OR 0x80) # varint (drop_bit 7 v)"
      using False by (subst varint_rec) simp
    define acc' where "acc' = acc OR push_bit (7 * i) (v AND 0x7F)"
    have acc': "acc' OR push_bit (7 * Suc i) (drop_bit 7 v) = acc OR push_bit (7 * i) v"
      using push_split[of "7 * i" v] by (simp only: acc'_def or.assoc mult_Suc_right)
    have "readVarint_loop (Suc i) acc' (advance c 1) =
        Inr (acc' OR push_bit (7 * Suc i) (drop_bit 7 v),
             advance (advance c 1) (length (varint (drop_bit 7 v))))"
    proof (rule step.IH[OF False])
      show "below (28 - 7 * Suc i) (drop_bit 7 v)"
        using step.prems(2) \<open>i < 3\<close> by (intro below_drop_bit) (simp add: algebra_simps)
    qed (use \<open>i < 3\<close> False step.prems v in \<open>auto simp: cursor_ok_advance\<close>)
    then have "readVarint_loop (Suc i) acc' (advance c 1) =
        Inr (acc OR push_bit (7 * i) v, advance c (length (varint v)))"
      by (simp only: acc' v) simp
    moreover have "readByte c = Inr (ucast (v AND 0x7F) OR 0x80, advance c 1)"
      using step.prems v by (simp add: readByte_rest)
    ultimately show ?thesis
      using step.prems(1) digit_more[of v]
      by (subst readVarint_loop.simps) (simp add: Let_def acc'_def)
  qed
qed

text \<open>Conversely, whatever the reader accepts is the one encoding of the value it returns.\<close>

lemma byte_last:
  fixes b :: byte
  assumes "b AND 0x80 = 0" defines "v \<equiv> ucast (b AND 0x7F) :: uint32"
  shows "varint v = [b]" and "below 7 v" and "v = 0 \<longleftrightarrow> b = 0"
proof -
  have b: "below 7 b"
    using assms(1) bit_imp_le_length[of b]
    by (auto simp: and_80_bit below_def less_Suc_eq eval_nat_numeral)
  have bv: "b AND 0x7F = b"
    using b by (simp add: and_7F_mask below_take_bit)
  show v: "below 7 v"
    using b by (auto simp: v_def bv below_def bit_simps)
  have "v AND 0x7F = v"
    using v by (simp add: and_7F_mask below_take_bit)
  moreover have "ucast (ucast b :: uint32) = b"
    by (rule bit_word_eqI) (auto simp: bit_simps)
  ultimately have "ucast (v AND 0x7F) = b"
    by (simp add: v_def bv)
  then show "varint v = [b]"
    using v by (subst varint_rec) (simp add: drop_bit_0_below)
  show "v = 0 \<longleftrightarrow> b = 0"
    using \<open>ucast (v AND 0x7F) = b\<close> by (auto simp: v_def)
qed

lemma byte_more:
  fixes b :: byte and w :: uint32
  assumes "b AND 0x80 \<noteq> 0" "below 25 w" "w \<noteq> 0"
  defines "v \<equiv> ucast (b AND 0x7F) OR push_bit 7 w :: uint32"
  shows "varint v = b # varint w" and "v \<noteq> 0" and "below n w \<Longrightarrow> below (n + 7) v"
proof -
  have low: "v AND 0x7F = ucast (b AND 0x7F)"
    by (rule bit_word_eqI) (auto simp: v_def and_7F_mask bit_simps)
  have high: "drop_bit 7 v = w"
    using assms(2)
    by (intro bit_word_eqI) (auto simp: v_def and_7F_mask bit_simps below_def dest: bit_imp_le_length)
  have "ucast (v AND 0x7F) OR 0x80 = b"
    unfolding low
  proof (rule bit_word_eqI)
    fix m assume "m < LENGTH(8)"
    then consider "m < 7" | "m = 7" by fastforce
    then show "bit (ucast (ucast (b AND 0x7F) :: uint32) OR 0x80 :: byte) m = bit b m"
    proof cases
      case 1
      then have "\<not> bit (0x80 :: byte) m" using bit_80[of m] by linarith
      with 1 show ?thesis by (simp add: bit_or_iff and_7F_mask bit_simps)
    next
      case 2
      with assms(1) show ?thesis by (simp only: bit_or_iff bit_80 and_80_bit) simp
    qed
  qed
  then show "varint v = b # varint w"
    using assms(3) high by (subst varint_rec) simp
  show "v \<noteq> 0" using high assms(3) by auto
  show "below n w \<Longrightarrow> below (n + 7) v"
    by (auto simp: v_def and_7F_mask below_def bit_simps) 
qed

lemma readVarint_loop_dec:
  assumes "readVarint_loop i acc c = Inr (x, c')" "cursor_ok c"
  shows "\<exists>v. x = acc OR push_bit (7 * i) v \<and> i < 4 \<and> below (28 - 7 * i) v \<and> (0 < i \<longrightarrow> v \<noteq> 0) \<and>
             c' = advance c (length (varint v)) \<and> rest c = varint v @ rest c'"
  using assms
proof (induction "4 - i" arbitrary: i acc c x c' rule: less_induct)
  case less
  obtain b bs where i: "i < 4" and rest: "rest c = b # bs" and rb: "readByte c = Inr (b, advance c 1)"
    using less.prems by (subst (asm) readVarint_loop.simps)
      (auto simp: readByte_rest split: if_splits list.splits)
  show ?case
  proof (cases "b AND 0x80 = 0")
    case True
    with less.prems i rb have "x = acc OR push_bit (7 * i) (ucast (b AND 0x7F))"
      "c' = advance c 1" "\<not> nonMinimalVarint i b"
      by (subst (asm) readVarint_loop.simps, auto simp: Let_def split: if_splits)+
    moreover have "below (28 - 7 * i) (ucast (b AND 0x7F) :: uint32)"
      using byte_last(2)[OF True] i by (auto simp: below_def)
    ultimately show ?thesis
      using byte_last[OF True] i rest
      by (intro exI[of _ "ucast (b AND 0x7F)"]) (auto simp: nonMinimalVarint_def)
  next
    case False
    define acc' where "acc' = acc OR push_bit (7 * i) (ucast (b AND 0x7F))"
    have loop: "readVarint_loop (Suc i) acc' (advance c 1) = Inr (x, c')"
      using less.prems(1) i rb False by (subst (asm) readVarint_loop.simps) (simp add: Let_def acc'_def)
    have ok: "cursor_ok (advance c 1)"
      using less.prems(2) rest by (simp add: cursor_ok_advance)
    have "4 - Suc i < 4 - i" using i by simp
    from less.hyps[OF this loop ok] obtain w where w: "x = acc' OR push_bit (7 * Suc i) w" "Suc i < 4" "below (28 - 7 * Suc i) w"
        "w \<noteq> 0" "c' = advance (advance c 1) (length (varint w))"
        "rest (advance c 1) = varint w @ rest c'"
      by auto
    have acc': "acc' OR push_bit (7 * Suc i) w =
        acc OR push_bit (7 * i) (ucast (b AND 0x7F) OR push_bit 7 w)"
      by (simp only: acc'_def or.assoc push_bit_or push_bit_push_bit mult_Suc_right add.commute)
    have "below 25 w" using w(3) by (auto simp: below_def)
    note more = byte_more[OF False this w(4)]
    have "below (28 - 7 * i) (ucast (b AND 0x7F) OR push_bit 7 w)"
      using more(3)[OF w(3)] w(2) by (simp add: algebra_simps)
    with more(1,2) w rest i acc' show ?thesis
      by (intro exI[of _ "ucast (b AND 0x7F) OR push_bit 7 w"]) auto
  qed
qed

lemma readVarint_loop_err:
  "readVarint_loop i acc c = Inl e \<Longrightarrow> cursor_ok c \<Longrightarrow> e = ErrMalformedPacket"
proof (induction "4 - i" arbitrary: i acc c rule: less_induct)
  case less
  show ?case
  proof (cases "i < 4 \<and> rest c \<noteq> []")
    case False
    with less.prems show ?thesis
      by (subst (asm) readVarint_loop.simps) (auto simp: readByte_rest split: if_splits)
  next
    case True
    then obtain b bs where i: "i < 4" and c: "rest c = b # bs" by (auto simp: neq_Nil_conv)
    then have rb: "readByte c = Inr (b, advance c 1)" and ok: "cursor_ok (advance c 1)"
      using less.prems(2) by (simp_all add: readByte_rest cursor_ok_advance)
    have "readVarint_loop (Suc i) a (advance c 1) = Inl e \<Longrightarrow> e = ErrMalformedPacket" for a
      using i by (intro less.hyps[OF _ _ ok, of "Suc i"]) auto
    with less.prems(1) rb i show ?thesis
      by (subst (asm) readVarint_loop.simps) (auto simp: Let_def split: if_splits)
  qed
qed

definition encVarint :: "uint32 \<Rightarrow> gerror + byte list" where
  "encVarint v = (if maxVarint < v then Inl ErrProtocolViolation else Inr (varint v))"

interpretation varint_field: field_codec encVarint readVarint
proof unfold_locales
  fix x bs c ys
  assume a: "encVarint x = Inr bs" "cursor_ok c" "rest c = bs @ ys"
  then have x: "x \<le> maxVarint" and bs: "bs = varint x"
    by (simp_all add: encVarint_def not_less split: if_splits)
  have "below (28 - 7 * 0) x" using x by (simp add: below_28)
  from readVarint_loop_enc[OF _ this _ a(2), of ys 0] a(3) bs
  show "readVarint c = Inr (x, advance c (length bs))"
    by (simp add: readVarint_def)
next
  fix c x c'
  assume a: "readVarint c = Inr (x, c')" "cursor_ok c"
  from readVarint_loop_dec[OF a[unfolded readVarint_def]] obtain v where
    "x = 0 OR push_bit (7 * 0) v" "below (28 - 7 * 0) v" "c' = advance c (length (varint v))"
    "rest c = varint v @ rest c'" by blast
  then show "\<exists>bs. encVarint x = Inr bs \<and> c' = advance c (length bs) \<and> rest c = bs @ rest c'"
    by (intro exI[of _ "varint v"]) (simp add: encVarint_def below_28 not_less)
qed (simp add: readVarint_def readVarint_loop_err)

lemma length_varint:
  assumes "v \<le> maxVarint" shows "length (varint v) = varintLen v"
proof -
  have iff: "drop_bit 7 v = 0 \<longleftrightarrow> unat v < 128" "drop_bit 14 v = 0 \<longleftrightarrow> unat v < 16384"
    "drop_bit 21 v = 0 \<longleftrightarrow> unat v < 2097152" "drop_bit 28 v = 0 \<longleftrightarrow> unat v < 268435456"
    using below_unat[of 7 v] below_unat[of 14 v] below_unat[of 21 v] below_unat[of 28 v]
    by (simp_all add: drop_bit_0_below)
  have "unat v < 268435456"
    using assms by (simp add: word_le_nat_alt maxVarint_def)
  then show ?thesis
    by (simp add: varint_rec[of v] varint_rec[of "drop_bit 7 v"] varint_rec[of "drop_bit 14 v"]
        varint_rec[of "drop_bit 21 v"] iff varintLen_def word_less_nat_alt)
qed

section \<open>The stream reader and the cursor reader agree\<close>

lemma ReadFull_1:
  "ReadFull r (Suc 0) =
     (case r_bytes r of [] \<Rightarrow> Inl (r_err r) | b # bs \<Rightarrow> Inr ([b], r\<lparr>r_bytes := bs\<rparr>))"
  by (cases "r_bytes r") (auto simp: ReadFull_def)

lemma readVarintFrom_loop_iff:
  assumes "cursor_ok c" "r_bytes r = rest c"
  shows "readVarintFrom_loop i acc r = Inr (v, r') \<longleftrightarrow>
    (\<exists>c'. readVarint_loop i acc c = Inr (v, c') \<and> r' = r\<lparr>r_bytes := rest c'\<rparr>)"
  using assms
proof (induction "4 - i" arbitrary: i acc c r rule: less_induct)
  case less
  show ?case
  proof (cases "i < 4 \<and> rest c \<noteq> []")
    case False
    with less.prems show ?thesis
      by (subst readVarint_loop.simps, subst readVarintFrom_loop.simps)
         (auto simp: readByte_rest ReadFull_1)
  next
    case True
    then obtain b bs where i: "i < 4" and c: "rest c = b # bs" by (auto simp: neq_Nil_conv)
    define acc' where "acc' = acc OR push_bit (7 * i) (ucast (b AND 0x7F))"
    define r2 where "r2 = r\<lparr>r_bytes := bs\<rparr>"
    have rb: "readByte c = Inr (b, advance c 1)" and ok: "cursor_ok (advance c 1)"
      and rf: "ReadFull r (Suc 0) = Inr ([b], r2)"
      using less.prems c by (simp_all add: readByte_rest cursor_ok_advance ReadFull_1 r2_def)
    have IH: "readVarintFrom_loop (Suc i) acc' r2 = Inr (v, r') \<longleftrightarrow>
        (\<exists>c'. readVarint_loop (Suc i) acc' (advance c 1) = Inr (v, c') \<and> r' = r2\<lparr>r_bytes := rest c'\<rparr>)"
      using i c by (intro less.hyps[OF _ ok]) (auto simp: r2_def)
    show ?thesis
      using i rb rf IH c less.prems(2)
      by (subst readVarint_loop.simps, subst readVarintFrom_loop.simps)
         (auto simp: Let_def go_index_def acc'_def[symmetric] r2_def)
  qed
qed

lemma readVarintFrom_loop_err:
  "readVarintFrom_loop i acc r = Inl e \<Longrightarrow> e = ErrMalformedPacket \<or> e = r_err r"
proof (induction "4 - i" arbitrary: i acc r rule: less_induct)
  case less
  have IH: "readVarintFrom_loop (Suc i) a (r\<lparr>r_bytes := bs\<rparr>) = Inl e \<Longrightarrow>
      e = ErrMalformedPacket \<or> e = r_err r" if "i < 4" for a bs
    using less.hyps[of "Suc i" a "r\<lparr>r_bytes := bs\<rparr>"] that by auto
  from less.prems show ?case
    by (subst (asm) readVarintFrom_loop.simps)
       (auto simp: Let_def ReadFull_1 go_index_def IH split: if_splits list.splits)
qed

lemma readVarintFrom_varint:
  assumes "v \<le> maxVarint"
  shows "readVarintFrom \<lparr>r_bytes = varint v @ ys, r_err = e\<rparr> = Inr (v, \<lparr>r_bytes = ys, r_err = e\<rparr>)"
proof -
  let ?c = "newCursor (varint v @ ys)"
  have "readVarint ?c = Inr (v, advance ?c (length (varint v)))"
    using assms by (intro varint_field.rd_enc[where ys = ys]) (simp_all add: encVarint_def not_less)
  then show ?thesis
    unfolding readVarintFrom_def readVarint_def
    by (subst readVarintFrom_loop_iff[where c = ?c]) auto
qed

section \<open>Frames written and read\<close>

lemma writePacket_eq:
  "writePacket w header body =
     (if length body \<le> unat maxVarint
      then Inr (w @ header # varint (of_nat (length body)) @ body) else Inl ErrFrameTooLarge)"
  by (auto simp: writePacket_def Let_def appendVarint_eq[of "[header]"])

lemma unat_of_nat_le_maxVarint:
  "n \<le> unat maxVarint \<Longrightarrow> unat (of_nat n :: uint32) = n"
  by (simp add: unat_of_nat maxVarint_def)

lemma ReadFull_append:
  "ReadFull \<lparr>r_bytes = xs @ ys, r_err = e\<rparr> (length xs) = Inr (xs, \<lparr>r_bytes = ys, r_err = e\<rparr>)"
  by (simp add: ReadFull_def)

lemma ReadFrame_packet:
  fixes header :: byte
  assumes "length body \<le> unat maxVarint"
  defines "pkt \<equiv> header # varint (of_nat (length body)) @ body"
  shows "ReadFrame \<lparr>r_bytes = pkt @ ys, r_err = e\<rparr> maxsize =
    (if length pkt \<le> unat maxsize then Inr (\<lparr>Header = header, Body = body\<rparr>, \<lparr>r_bytes = ys, r_err = e\<rparr>)
     else Inl ErrFrameTooLarge)"
proof -
  define v :: uint32 where "v = of_nat (length body)"
  have uv: "unat v = length body" using assms(1) by (simp add: v_def unat_of_nat_le_maxVarint)
  then have v: "v \<le> maxVarint" using assms(1) by (simp add: word_le_nat_alt)
  have len: "length (varint v) = varintLen v" "varintLen v \<le> 4"
    using length_varint[OF v] by (auto simp: varintLen_def)
  have ovh: "unat (of_nat (1 + varintLen v) :: uint32) = 1 + varintLen v"
    using len(2) by (subst unat_of_nat) simp
  have big: "maxsize < of_nat (1 + varintLen v) \<or> maxsize - of_nat (1 + varintLen v) < v
      \<longleftrightarrow> \<not> length pkt \<le> unat maxsize"
  proof (cases "maxsize < of_nat (1 + varintLen v)")
    case True
    then show ?thesis
      using ovh by (auto simp: pkt_def v_def[symmetric] len word_less_nat_alt)
  next
    case False
    then have "unat (maxsize - of_nat (1 + varintLen v)) = unat maxsize - (1 + varintLen v)"
      using ovh by (subst unat_sub) (auto simp: word_le_nat_alt word_less_nat_alt)
    with False ovh show ?thesis
      by (auto simp: pkt_def v_def[symmetric] len uv word_less_nat_alt)
  qed
  have body: "(if 0 < v then ReadFull \<lparr>r_bytes = body @ ys, r_err = e\<rparr> (unat v)
      else Inr ([], \<lparr>r_bytes = body @ ys, r_err = e\<rparr>)) = Inr (body, \<lparr>r_bytes = ys, r_err = e\<rparr>)"
    using uv ReadFull_append[of body ys e] by (auto simp: word_neq_0_conv[symmetric] unat_eq_0[symmetric])
  show ?thesis
    unfolding ReadFrame_def
    using readVarintFrom_varint[OF v, of "body @ ys" e] big body
    by (simp add: pkt_def v_def[symmetric] ReadFull_1 go_index_def Let_def)
qed

lemma ReadFrame_written:
  assumes "writePacket [] header body = Inr pkt" "length pkt \<le> unat maxPacketSize"
  shows "ReadFrame \<lparr>r_bytes = pkt @ ys, r_err = e\<rparr> maxPacketSize =
    Inr (\<lparr>Header = header, Body = body\<rparr>, \<lparr>r_bytes = ys, r_err = e\<rparr>)"
  using assms ReadFrame_packet[of body header ys e maxPacketSize]
  by (auto simp: writePacket_eq split: if_splits)

section \<open>The wire codec is exact\<close>

lemma advance_newCursor: "advance (newCursor bs) n = \<lparr>buf = bs, pos = n\<rparr>"
  by (simp add: newCursor_def advance_def)

lemma readVarint_iff:
  "readVarint (newCursor bs) = Inr (v, c') \<longleftrightarrow>
     v \<le> maxVarint \<and> (\<exists>ys. bs = varint v @ ys \<and> c' = advance (newCursor bs) (length (varint v)))"
proof
  assume "readVarint (newCursor bs) = Inr (v, c')"
  from varint_field.enc_rd[OF this] obtain xs where xs: "encVarint v = Inr xs"
    "c' = advance (newCursor bs) (length xs)" "bs = xs @ rest c'" by auto
  then have "v \<le> maxVarint" "xs = varint v" by (auto simp: encVarint_def split: if_splits)
  with xs(2,3) show "v \<le> maxVarint \<and> (\<exists>ys. bs = varint v @ ys \<and> c' = advance (newCursor bs) (length (varint v)))"
    by blast
next
  assume "v \<le> maxVarint \<and> (\<exists>ys. bs = varint v @ ys \<and> c' = advance (newCursor bs) (length (varint v)))"
  then obtain ys where "v \<le> maxVarint" "bs = varint v @ ys" "c' = advance (newCursor bs) (length (varint v))"
    by blast
  then show "readVarint (newCursor bs) = Inr (v, c')"
    using varint_field.rd_enc[of v "varint v" "newCursor bs" ys] by (simp add: encVarint_def not_less)
qed

lemma readVarintFrom_iff:
  "readVarintFrom \<lparr>r_bytes = bs, r_err = e\<rparr> = Inr (v, r') \<longleftrightarrow>
     v \<le> maxVarint \<and> (\<exists>ys. bs = varint v @ ys \<and> r' = \<lparr>r_bytes = ys, r_err = e\<rparr>)"
  unfolding readVarintFrom_def
  by (subst readVarintFrom_loop_iff[where c = "newCursor bs"])
     (auto simp: readVarint_iff readVarint_def[symmetric])

lemma ReadFull_iff:
  "ReadFull \<lparr>r_bytes = bs, r_err = e\<rparr> n = Inr (xs, r') \<longleftrightarrow>
     length xs = n \<and> (\<exists>ys. bs = xs @ ys \<and> r' = \<lparr>r_bytes = ys, r_err = e\<rparr>)"
  by (auto simp: ReadFull_def)

lemma ReadFrame_dec:
  assumes "ReadFrame \<lparr>r_bytes = bs, r_err = e\<rparr> maxsize = Inr (f, r')"
  obtains ys where "length (Body f) \<le> unat maxVarint"
    "bs = (Header f # varint (of_nat (length (Body f))) @ Body f) @ ys"
    "r' = \<lparr>r_bytes = ys, r_err = e\<rparr>"
proof -
  from assms obtain b bs1 v bs2 body where
    v: "v \<le> maxVarint" and bs: "bs = b # bs1" "bs1 = varint v @ bs2"
    and body: "(if v > 0 then ReadFull \<lparr>r_bytes = bs2, r_err = e\<rparr> (unat v)
        else Inr ([], \<lparr>r_bytes = bs2, r_err = e\<rparr>)) = Inr (body, r')"
    and f: "f = \<lparr>Header = b, Body = body\<rparr>"
    by (auto simp: ReadFrame_def Let_def andthen_Inr_iff ReadFull_1 readVarintFrom_iff go_index_def
        split: if_splits list.splits)
  from body obtain ys where "length body = unat v" "bs2 = body @ ys" "r' = \<lparr>r_bytes = ys, r_err = e\<rparr>"
    by (auto simp: ReadFull_iff word_gt_0 split: if_splits)
  moreover from this(1) have "of_nat (length body) = v" by simp
  ultimately show ?thesis
    using that v bs f by (simp add: word_le_nat_alt)
qed

text \<open>
  C6: The framing is exact in both directions. \<^verbatim>\<open>ReadFrame\<close> returns a frame precisely when
  the stream starts with the bytes \<^verbatim>\<open>writePacket\<close> writes for that header and body and the
  whole packet, fixed header included, is within the size cap; it then has consumed those bytes
  and nothing of what follows.
\<close>

theorem ReadFrame_exact:
  "ReadFrame \<lparr>r_bytes = bs, r_err = e\<rparr> maxPacketSize = Inr (f, r') \<longleftrightarrow>
     (\<exists>pkt ys. writePacket [] (Header f) (Body f) = Inr pkt \<and> length pkt \<le> unat maxPacketSize \<and>
        bs = pkt @ ys \<and> r' = \<lparr>r_bytes = ys, r_err = e\<rparr>)" (is "?L \<longleftrightarrow> ?R")
proof
  assume L: ?L
  then obtain ys where f: "length (Body f) \<le> unat maxVarint"
    "bs = (Header f # varint (of_nat (length (Body f))) @ Body f) @ ys"
    "r' = \<lparr>r_bytes = ys, r_err = e\<rparr>" by (rule ReadFrame_dec)
  with L show ?R
    using ReadFrame_packet[OF f(1), of "Header f" ys e maxPacketSize]
    by (auto simp: writePacket_eq split: if_splits)
next
  assume ?R
  then show ?L
    using ReadFrame_packet[of "Body f" "Header f" _ e maxPacketSize]
    by (auto simp: writePacket_eq split: if_splits)
qed

text \<open>
  A frame read that fails does so with a malformed length, the size cap or the error of
  the stream itself: no index of it is out of range. A body is never read past the cap.
\<close>

theorem ReadFrame_errors:
  assumes "ReadFrame r maxPacketSize = Inl err"
  shows "err \<in> {ErrMalformedPacket, ErrFrameTooLarge, IoErrUnexpectedEOF, r_err r}"
proof -
  have "readVarintFrom r1 = Inl e \<Longrightarrow> e = ErrMalformedPacket \<or> e = r_err r1" for r1 e
    unfolding readVarintFrom_def by (rule readVarintFrom_loop_err)
  moreover have "readVarintFrom r1 = Inr (v, r2) \<Longrightarrow> r_err r2 = r_err r1" for r1 v r2
    using readVarintFrom_iff[of "r_bytes r1" "r_err r1" v r2] by (cases r1) auto
  ultimately show ?thesis
    using assms
    by (cases "r_bytes r")
       (auto simp: ReadFrame_def ReadFull_1 ReadFull_def Let_def andthen_Inl_iff go_index_def
         split: if_splits, fastforce+)
qed

theorem ReadFrame_errors_witness:
  "ReadFrame \<lparr>r_bytes = [0x30, 0x05, 0x00], r_err = IoErr\<rparr> 6 = Inl ErrFrameTooLarge \<and>
   ErrFrameTooLarge \<in> {ErrMalformedPacket, ErrFrameTooLarge, IoErrUnexpectedEOF, IoErr}"
proof -
  have *: "ReadFrame \<lparr>r_bytes = [0x30, 0x05, 0x00], r_err = IoErr\<rparr> 6 = Inl ErrFrameTooLarge"
    by code_simp
  from ReadFrame_errors[OF this] * show ?thesis by simp
qed

text \<open>
  The variable byte integer codec is canonical: the reader accepts exactly the minimal
  encodings of the values up to 268,435,455 that \<^verbatim>\<open>appendVarint\<close> emits, and leaves the cursor
  right behind the encoding.
\<close>

theorem readVarint_canonical:
  "readVarint (newCursor bs) = Inr (v, c') \<longleftrightarrow>
     v \<le> maxVarint \<and>
     (\<exists>ys. bs = appendVarint [] v @ ys \<and> c' = \<lparr>buf = bs, pos = varintLen v\<rparr>)"
  unfolding readVarint_iff using length_varint[of v] by (auto simp: newCursor_def advance_def)

text \<open>
  C40: The reader over a stream and the reader over a buffer are the same function: on the same
  bytes they accept the same values and consume the same number of bytes.
\<close>

theorem readVarintFrom_agrees:
  "readVarintFrom \<lparr>r_bytes = bs, r_err = e\<rparr> = Inr (v, r') \<longleftrightarrow>
     (\<exists>c'. readVarint \<lparr>buf = bs, pos = 0\<rparr> = Inr (v, c') \<and>
        r' = \<lparr>r_bytes = drop (pos c') bs, r_err = e\<rparr>)"
  unfolding readVarintFrom_iff
  using readVarint_iff[of bs v] by (auto simp: newCursor_def advance_def)

text \<open>
  Strings are symmetric: \<^verbatim>\<open>readString\<close> accepts a byte sequence exactly when it starts with
  what \<^verbatim>\<open>appendString\<close> writes for the returned string, so ill-formed UTF-8, NUL bytes and
  over-long strings are refused on both sides.
\<close>

theorem readString_appendString:
  "readString (newCursor bs) = Inr (s, c') \<longleftrightarrow>
     (\<exists>enc ys. appendString [] s = Inr enc \<and> bs = enc @ ys \<and> c' = \<lparr>buf = bs, pos = length enc\<rparr>)"
proof
  assume "readString (newCursor bs) = Inr (s, c')"
  from string_field.enc_rd[OF this] obtain enc where enc: "appendString [] s = Inr enc"
    "c' = advance (newCursor bs) (length enc)" "bs = enc @ rest c'" by auto
  with advance_newCursor[of bs "length enc"] show "\<exists>enc ys. appendString [] s = Inr enc \<and> bs = enc @ ys \<and> c' = \<lparr>buf = bs, pos = length enc\<rparr>"
    by metis
next
  assume "\<exists>enc ys. appendString [] s = Inr enc \<and> bs = enc @ ys \<and> c' = \<lparr>buf = bs, pos = length enc\<rparr>"
  then obtain enc ys where "appendString [] s = Inr enc" "bs = enc @ ys" "c' = \<lparr>buf = bs, pos = length enc\<rparr>"
    by blast
  then show "readString (newCursor bs) = Inr (s, c')"
    using string_field.rd_enc[of s enc "newCursor bs" ys] by (simp add: advance_newCursor)
qed

end
