(* ===== verification/Mqtt_Properties.thy ===== *)
theory Mqtt_Properties
  imports Mqtt_Wire
begin

text \<open>
  The MQTT 5.0 property block, \<^verbatim>\<open>protocol/properties.go\<close>: the record of all properties, the
  table of which property is legal where, the value ranges, the encoder and the decoder.
  A numeric property is an option (\<^verbatim>\<open>nil\<close> is \<open>None\<close>); a string, binary or list property is
  absent when empty, as in the code. The encoder's run of
  \<^verbatim>\<open>if err := writeXProp(...); err != nil { return err }\<close> statements is the list
  \<open>propWriters\<close>, run in order by \<open>runWriters\<close>.
\<close>

section \<open>The property record\<close>

record UserProperty =
  Key :: gostring
  Value :: gostring

record Properties =
  PayloadFormat :: "byte option"
  MessageExpiryInterval :: "uint32 option"
  ContentType :: "gostring"
  ResponseTopic :: "gostring"
  CorrelationData :: "byte list"
  SubscriptionIdentifiers :: "uint32 list"
  SessionExpiryInterval :: "uint32 option"
  AssignedClientID :: "gostring"
  ServerKeepAlive :: "uint16 option"
  AuthMethod :: "gostring"
  AuthData :: "byte list"
  RequestProblemInfo :: "byte option"
  WillDelayInterval :: "uint32 option"
  RequestResponseInfo :: "byte option"
  ResponseInfo :: "gostring"
  ServerReference :: "gostring"
  ReasonString :: "gostring"
  ReceiveMaximum :: "uint16 option"
  TopicAliasMaximum :: "uint16 option"
  TopicAlias :: "uint16 option"
  MaximumQoS :: "byte option"
  RetainAvailable :: "byte option"
  UserProperties :: "UserProperty list"
  MaximumPacketSize :: "uint32 option"
  WildcardSubAvailable :: "byte option"
  SubIDAvailable :: "byte option"
  SharedSubAvailable :: "byte option"

text \<open>The zero value \<^verbatim>\<open>&Properties{}\<close>.\<close>

definition emptyProperties :: Properties where
  "emptyProperties = \<lparr>PayloadFormat = None,
     MessageExpiryInterval = None,
     ContentType = [],
     ResponseTopic = [],
     CorrelationData = [],
     SubscriptionIdentifiers = [],
     SessionExpiryInterval = None,
     AssignedClientID = [],
     ServerKeepAlive = None,
     AuthMethod = [],
     AuthData = [],
     RequestProblemInfo = None,
     WillDelayInterval = None,
     RequestResponseInfo = None,
     ResponseInfo = [],
     ServerReference = [],
     ReasonString = [],
     ReceiveMaximum = None,
     TopicAliasMaximum = None,
     TopicAlias = None,
     MaximumQoS = None,
     RetainAvailable = None,
     UserProperties = [],
     MaximumPacketSize = None,
     WildcardSubAvailable = None,
     SubIDAvailable = None,
     SharedSubAvailable = None\<rparr>"

section \<open>Where a property may appear\<close>

type_synonym propTarget = uint32

definition tgConnect :: propTarget where "tgConnect = push_bit 1 1"
definition tgConnack :: propTarget where "tgConnack = push_bit 2 1"
definition tgPublish :: propTarget where "tgPublish = push_bit 3 1"
definition tgPuback :: propTarget where "tgPuback = push_bit 4 1"
definition tgPubrec :: propTarget where "tgPubrec = push_bit 5 1"
definition tgPubrel :: propTarget where "tgPubrel = push_bit 6 1"
definition tgPubcomp :: propTarget where "tgPubcomp = push_bit 7 1"
definition tgSubscribe :: propTarget where "tgSubscribe = push_bit 8 1"
definition tgSuback :: propTarget where "tgSuback = push_bit 9 1"
definition tgUnsubscribe :: propTarget where "tgUnsubscribe = push_bit 10 1"
definition tgUnsuback :: propTarget where "tgUnsuback = push_bit 11 1"
definition tgDisconnect :: propTarget where "tgDisconnect = push_bit 14 1"
definition tgAuth :: propTarget where "tgAuth = push_bit 15 1"
definition willBit :: propTarget where "willBit = push_bit 16 1"

lemmas target_defs = tgConnect_def tgConnack_def tgPublish_def tgPuback_def tgPubrec_def
  tgPubrel_def tgPubcomp_def tgSubscribe_def tgSuback_def tgUnsubscribe_def tgUnsuback_def
  tgDisconnect_def tgAuth_def willBit_def

definition userPropTargets :: propTarget where
  "userPropTargets =
     tgConnect OR tgConnack OR tgPublish OR willBit OR
     tgPuback OR tgPubrec OR tgPubrel OR tgPubcomp OR
     tgSubscribe OR tgSuback OR tgUnsubscribe OR tgUnsuback OR
     tgDisconnect OR tgAuth"

definition propertySpec :: "byte \<Rightarrow> propTarget option" where
  "propertySpec ident =
     (if ident = 0x01 then Some (tgPublish OR willBit)
      else if ident = 0x02 then Some (tgPublish OR willBit)
      else if ident = 0x03 then Some (tgPublish OR willBit)
      else if ident = 0x08 then Some (tgPublish OR willBit)
      else if ident = 0x09 then Some (tgPublish OR willBit)
      else if ident = 0x0B then Some (tgPublish OR tgSubscribe)
      else if ident = 0x11 then Some (tgConnect OR tgConnack OR tgDisconnect)
      else if ident = 0x12 then Some (tgConnack)
      else if ident = 0x13 then Some (tgConnack)
      else if ident = 0x15 then Some (tgConnect OR tgConnack OR tgAuth)
      else if ident = 0x16 then Some (tgConnect OR tgConnack OR tgAuth)
      else if ident = 0x17 then Some (tgConnect)
      else if ident = 0x18 then Some (willBit)
      else if ident = 0x19 then Some (tgConnect)
      else if ident = 0x1A then Some (tgConnack)
      else if ident = 0x1C then Some (tgConnack OR tgDisconnect)
      else if ident = 0x1F then Some (tgConnack OR tgPuback OR tgPubrec OR tgPubrel OR tgPubcomp OR tgSuback OR tgUnsuback OR
       tgDisconnect OR tgAuth)
      else if ident = 0x21 then Some (tgConnect OR tgConnack)
      else if ident = 0x22 then Some (tgConnect OR tgConnack)
      else if ident = 0x23 then Some (tgPublish)
      else if ident = 0x24 then Some (tgConnack)
      else if ident = 0x25 then Some (tgConnack)
      else if ident = 0x26 then Some (userPropTargets)
      else if ident = 0x27 then Some (tgConnect OR tgConnack)
      else if ident = 0x28 then Some (tgConnack)
      else if ident = 0x29 then Some (tgConnack)
      else if ident = 0x2A then Some (tgConnack)
      else None)"

text \<open>Indexing the Go map with an absent key yields 0.\<close>

definition checkEncodeAllowed :: "byte \<Rightarrow> propTarget \<Rightarrow> gerror + unit" where
  "checkEncodeAllowed ident target =
     (if (case propertySpec ident of None \<Rightarrow> 0 | Some a \<Rightarrow> a) AND target = 0
      then Inl ErrProtocolViolation else Inr ())"

definition propertyValueViolation :: "byte \<Rightarrow> uint32 \<Rightarrow> string" where
  "propertyValueViolation ident v =
     (if ident \<in> {0x01, 0x17, 0x19, 0x24, 0x25, 0x28, 0x29, 0x2A} then
        (if v > 1 then ''value must be 0 or 1'' else '''')
      else if ident \<in> {0x21, 0x23, 0x27} then
        (if v = 0 then ''value must not be 0'' else '''')
      else '''')"

definition checkEncodeValue :: "byte \<Rightarrow> uint32 \<Rightarrow> gerror + unit" where
  "checkEncodeValue ident v =
     (if propertyValueViolation ident v \<noteq> '''' then Inl ErrProtocolViolation else Inr ())"

definition repeatableProperty :: "byte \<Rightarrow> propTarget \<Rightarrow> bool" where
  "repeatableProperty ident target =
     (if ident = 0x26 then True
      else if ident = 0x0B then target AND tgPublish \<noteq> 0
      else False)"

section \<open>Encoding\<close>

definition writeByteProp :: "propTarget \<Rightarrow> byte \<Rightarrow> byte option \<Rightarrow> byte list \<Rightarrow> gerror + byte list" where
  "writeByteProp target ident v body =
     (case v of None \<Rightarrow> Inr body
      | Some x \<Rightarrow>
          andthen (checkEncodeAllowed ident target) (\<lambda>_.
          andthen (checkEncodeValue ident (ucast x)) (\<lambda>_.
          Inr (body @ [ident] @ [x]))))"

definition writeU16Prop :: "propTarget \<Rightarrow> byte \<Rightarrow> uint16 option \<Rightarrow> byte list \<Rightarrow> gerror + byte list" where
  "writeU16Prop target ident v body =
     (case v of None \<Rightarrow> Inr body
      | Some x \<Rightarrow>
          andthen (checkEncodeAllowed ident target) (\<lambda>_.
          andthen (checkEncodeValue ident (ucast x)) (\<lambda>_.
          Inr (body @ [ident] @ be16 x))))"

definition writeU32Prop :: "propTarget \<Rightarrow> byte \<Rightarrow> uint32 option \<Rightarrow> byte list \<Rightarrow> gerror + byte list" where
  "writeU32Prop target ident v body =
     (case v of None \<Rightarrow> Inr body
      | Some x \<Rightarrow>
          andthen (checkEncodeAllowed ident target) (\<lambda>_.
          andthen (checkEncodeValue ident x) (\<lambda>_.
          Inr (body @ [ident] @ be32 x))))"

definition writeStrProp :: "propTarget \<Rightarrow> byte \<Rightarrow> gostring \<Rightarrow> byte list \<Rightarrow> gerror + byte list" where
  "writeStrProp target ident s body =
     (if s = [] then Inr body
      else andthen (checkEncodeAllowed ident target) (\<lambda>_. appendString (body @ [ident]) s))"

definition writeBinProp :: "propTarget \<Rightarrow> byte \<Rightarrow> byte list \<Rightarrow> byte list \<Rightarrow> gerror + byte list" where
  "writeBinProp target ident v body =
     (if length v = 0 then Inr body
      else andthen (checkEncodeAllowed ident target) (\<lambda>_. appendBinary (body @ [ident]) v))"

fun writeSubIDs_loop :: "uint32 list \<Rightarrow> byte list \<Rightarrow> gerror + byte list" where
  "writeSubIDs_loop [] body = Inr body"
| "writeSubIDs_loop (i # ids) body =
     (if i = 0 \<or> i > maxVarint then Inl ErrProtocolViolation
      else writeSubIDs_loop ids (appendVarint (body @ [0x0B]) i))"

definition writeSubIDs :: "propTarget \<Rightarrow> uint32 list \<Rightarrow> byte list \<Rightarrow> gerror + byte list" where
  "writeSubIDs target ids body =
     (if length ids > 0 then
        andthen (checkEncodeAllowed 0x0B target) (\<lambda>_.
        if target AND tgSubscribe \<noteq> 0 \<and> length ids > 1 then Inl ErrProtocolViolation
        else writeSubIDs_loop ids body)
      else Inr body)"

fun writeUserProps_loop :: "UserProperty list \<Rightarrow> byte list \<Rightarrow> gerror + byte list" where
  "writeUserProps_loop [] body = Inr body"
| "writeUserProps_loop (up # ups) body =
     andthen (appendString (body @ [0x26]) (Key up)) (\<lambda>body'.
     andthen (appendString body' (Value up)) (\<lambda>body''.
     writeUserProps_loop ups body''))"

definition writeUserProps :: "propTarget \<Rightarrow> UserProperty list \<Rightarrow> byte list \<Rightarrow> gerror + byte list" where
  "writeUserProps target ups body =
     (if length ups > 0 then
        andthen (checkEncodeAllowed 0x26 target) (\<lambda>_. writeUserProps_loop ups body)
      else Inr body)"

fun runWriters :: "(byte list \<Rightarrow> gerror + byte list) list \<Rightarrow> byte list \<Rightarrow> gerror + byte list" where
  "runWriters [] body = Inr body"
| "runWriters (w # ws) body = andthen (w body) (runWriters ws)"

definition propWriters :: "propTarget \<Rightarrow> Properties \<Rightarrow> (byte list \<Rightarrow> gerror + byte list) list" where
  "propWriters target p =
     [writeByteProp target 0x01 (PayloadFormat p),
      writeU32Prop target 0x02 (MessageExpiryInterval p),
      writeStrProp target 0x03 (ContentType p),
      writeStrProp target 0x08 (ResponseTopic p),
      writeBinProp target 0x09 (CorrelationData p),
      writeSubIDs target (SubscriptionIdentifiers p),
      writeU32Prop target 0x11 (SessionExpiryInterval p),
      writeStrProp target 0x12 (AssignedClientID p),
      writeU16Prop target 0x13 (ServerKeepAlive p),
      writeStrProp target 0x15 (AuthMethod p),
      writeBinProp target 0x16 (AuthData p),
      writeByteProp target 0x17 (RequestProblemInfo p),
      writeU32Prop target 0x18 (WillDelayInterval p),
      writeByteProp target 0x19 (RequestResponseInfo p),
      writeStrProp target 0x1A (ResponseInfo p),
      writeStrProp target 0x1C (ServerReference p),
      writeStrProp target 0x1F (ReasonString p),
      writeU16Prop target 0x21 (ReceiveMaximum p),
      writeU16Prop target 0x22 (TopicAliasMaximum p),
      writeU16Prop target 0x23 (TopicAlias p),
      writeByteProp target 0x24 (MaximumQoS p),
      writeByteProp target 0x25 (RetainAvailable p),
      writeUserProps target (UserProperties p),
      writeU32Prop target 0x27 (MaximumPacketSize p),
      writeByteProp target 0x28 (WildcardSubAvailable p),
      writeByteProp target 0x29 (SubIDAvailable p),
      writeByteProp target 0x2A (SharedSubAvailable p)]"

definition encode :: "Properties option \<Rightarrow> byte list \<Rightarrow> propTarget \<Rightarrow> gerror + byte list" where
  "encode p buffer target =
     (case p of None \<Rightarrow> Inr (buffer @ [0x00])
      | Some p \<Rightarrow>
          andthen (runWriters (propWriters target p) []) (\<lambda>body.
          if uint maxVarint < int (length body) then Inl ErrFrameTooLarge
          else Inr (appendVarint buffer (of_nat (length body)) @ body)))"

section \<open>Decoding\<close>

definition readPropByte :: "cursor \<Rightarrow> byte \<Rightarrow> gerror + (byte \<times> cursor)" where
  "readPropByte c ident =
     andthen (readByte c) (\<lambda>(v, c').
     if propertyValueViolation ident (ucast v) \<noteq> '''' then Inl ErrMalformedPacket else Inr (v, c'))"

definition readPropUint16 :: "cursor \<Rightarrow> byte \<Rightarrow> gerror + (uint16 \<times> cursor)" where
  "readPropUint16 c ident =
     andthen (readUint16 c) (\<lambda>(v, c').
     if propertyValueViolation ident (ucast v) \<noteq> '''' then Inl ErrMalformedPacket else Inr (v, c'))"

definition readPropUint32 :: "cursor \<Rightarrow> byte \<Rightarrow> gerror + (uint32 \<times> cursor)" where
  "readPropUint32 c ident =
     andthen (readUint32 c) (\<lambda>(v, c').
     if propertyValueViolation ident v \<noteq> '''' then Inl ErrMalformedPacket else Inr (v, c'))"

definition decodeOne :: "Properties \<Rightarrow> cursor \<Rightarrow> byte \<Rightarrow> gerror + (Properties \<times> cursor)" where
  "decodeOne p c ident =
     (if ident = 0x01 then
        andthen (readPropByte c ident) (\<lambda>(v, c'). Inr (p\<lparr>PayloadFormat := Some v\<rparr>, c'))
      else if ident = 0x02 then
        andthen (readPropUint32 c ident) (\<lambda>(v, c'). Inr (p\<lparr>MessageExpiryInterval := Some v\<rparr>, c'))
      else if ident = 0x03 then
        andthen (readString c) (\<lambda>(s, c'). Inr (p\<lparr>ContentType := s\<rparr>, c'))
      else if ident = 0x08 then
        andthen (readString c) (\<lambda>(s, c'). Inr (p\<lparr>ResponseTopic := s\<rparr>, c'))
      else if ident = 0x09 then
        andthen (readBinary c) (\<lambda>(s, c'). Inr (p\<lparr>CorrelationData := s\<rparr>, c'))
      else if ident = 0x0B then
        andthen (readVarint c) (\<lambda>(v, c').
          if v = 0 then Inl ErrMalformedPacket
          else Inr (p\<lparr>SubscriptionIdentifiers := SubscriptionIdentifiers p @ [v]\<rparr>, c'))
      else if ident = 0x11 then
        andthen (readPropUint32 c ident) (\<lambda>(v, c'). Inr (p\<lparr>SessionExpiryInterval := Some v\<rparr>, c'))
      else if ident = 0x12 then
        andthen (readString c) (\<lambda>(s, c'). Inr (p\<lparr>AssignedClientID := s\<rparr>, c'))
      else if ident = 0x13 then
        andthen (readPropUint16 c ident) (\<lambda>(v, c'). Inr (p\<lparr>ServerKeepAlive := Some v\<rparr>, c'))
      else if ident = 0x15 then
        andthen (readString c) (\<lambda>(s, c'). Inr (p\<lparr>AuthMethod := s\<rparr>, c'))
      else if ident = 0x16 then
        andthen (readBinary c) (\<lambda>(s, c'). Inr (p\<lparr>AuthData := s\<rparr>, c'))
      else if ident = 0x17 then
        andthen (readPropByte c ident) (\<lambda>(v, c'). Inr (p\<lparr>RequestProblemInfo := Some v\<rparr>, c'))
      else if ident = 0x18 then
        andthen (readPropUint32 c ident) (\<lambda>(v, c'). Inr (p\<lparr>WillDelayInterval := Some v\<rparr>, c'))
      else if ident = 0x19 then
        andthen (readPropByte c ident) (\<lambda>(v, c'). Inr (p\<lparr>RequestResponseInfo := Some v\<rparr>, c'))
      else if ident = 0x1A then
        andthen (readString c) (\<lambda>(s, c'). Inr (p\<lparr>ResponseInfo := s\<rparr>, c'))
      else if ident = 0x1C then
        andthen (readString c) (\<lambda>(s, c'). Inr (p\<lparr>ServerReference := s\<rparr>, c'))
      else if ident = 0x1F then
        andthen (readString c) (\<lambda>(s, c'). Inr (p\<lparr>ReasonString := s\<rparr>, c'))
      else if ident = 0x21 then
        andthen (readPropUint16 c ident) (\<lambda>(v, c'). Inr (p\<lparr>ReceiveMaximum := Some v\<rparr>, c'))
      else if ident = 0x22 then
        andthen (readPropUint16 c ident) (\<lambda>(v, c'). Inr (p\<lparr>TopicAliasMaximum := Some v\<rparr>, c'))
      else if ident = 0x23 then
        andthen (readPropUint16 c ident) (\<lambda>(v, c'). Inr (p\<lparr>TopicAlias := Some v\<rparr>, c'))
      else if ident = 0x24 then
        andthen (readPropByte c ident) (\<lambda>(v, c'). Inr (p\<lparr>MaximumQoS := Some v\<rparr>, c'))
      else if ident = 0x25 then
        andthen (readPropByte c ident) (\<lambda>(v, c'). Inr (p\<lparr>RetainAvailable := Some v\<rparr>, c'))
      else if ident = 0x26 then
        andthen (readString c) (\<lambda>(k, c1).
        andthen (readString c1) (\<lambda>(val, c2).
          Inr (p\<lparr>UserProperties := UserProperties p @ [\<lparr>Key = k, Value = val\<rparr>]\<rparr>, c2)))
      else if ident = 0x27 then
        andthen (readPropUint32 c ident) (\<lambda>(v, c'). Inr (p\<lparr>MaximumPacketSize := Some v\<rparr>, c'))
      else if ident = 0x28 then
        andthen (readPropByte c ident) (\<lambda>(v, c'). Inr (p\<lparr>WildcardSubAvailable := Some v\<rparr>, c'))
      else if ident = 0x29 then
        andthen (readPropByte c ident) (\<lambda>(v, c'). Inr (p\<lparr>SubIDAvailable := Some v\<rparr>, c'))
      else if ident = 0x2A then
        andthen (readPropByte c ident) (\<lambda>(v, c'). Inr (p\<lparr>SharedSubAvailable := Some v\<rparr>, c'))
      else Inl ErrMalformedPacket)"

text \<open>
  The loop over the properties of a block ends because every round reads at least the
  identifier: no reader moves the cursor back.
\<close>

definition moves :: "cursor \<Rightarrow> cursor \<Rightarrow> bool" where
  "moves c c' \<longleftrightarrow> buf c' = buf c \<and> pos c \<le> pos c'"

lemma moves_refl [simp]: "moves c c"
  and moves_trans: "moves c c' \<Longrightarrow> moves c' c'' \<Longrightarrow> moves c c''"
  and moves_remaining: "moves c c' \<Longrightarrow> remaining c' \<le> remaining c"
  by (auto simp: moves_def remaining_def)

lemma moves_readByte: "readByte c = Inr (v, c') \<Longrightarrow> moves c c' \<and> remaining c' < remaining c"
  by (auto simp: readByte_def moves_def remaining_def andthen_Inr_iff split: if_splits)

lemma moves_readUint16: "readUint16 c = Inr (v, c') \<Longrightarrow> moves c c'"
  by (auto simp: readUint16_def moves_def andthen_Inr_iff split: if_splits)

lemma moves_readUint32: "readUint32 c = Inr (v, c') \<Longrightarrow> moves c c'"
  by (auto simp: readUint32_def moves_def andthen_Inr_iff split: if_splits)

lemma moves_readString: "readString c = Inr (v, c') \<Longrightarrow> moves c c'"
  by (auto simp: readString_def Let_def andthen_Inr_iff moves_def split: if_splits
      dest: moves_readUint16)

lemma moves_readBinary: "readBinary c = Inr (v, c') \<Longrightarrow> moves c c'"
  by (auto simp: readBinary_def Let_def andthen_Inr_iff moves_def split: if_splits
      dest: moves_readUint16)

lemma moves_readVarint_loop: "readVarint_loop i acc c = Inr (v, c') \<Longrightarrow> moves c c'"
proof (induction "4 - i" arbitrary: i acc c rule: less_induct)
  case less
  show ?case
  proof (cases "i < 4")
    case True
    then obtain b c1 where b: "readByte c = Inr (b, c1)"
      using less.prems by (subst (asm) readVarint_loop.simps) (auto simp: andthen_Inr_iff)
    have "readVarint_loop (Suc i) a c1 = Inr (v, c') \<Longrightarrow> moves c1 c'" for a
      using True by (intro less.hyps[of "Suc i"]) auto
    then show ?thesis
      using less.prems True b moves_readByte[OF b]
      by (subst (asm) readVarint_loop.simps) (auto simp: Let_def split: if_splits intro: moves_trans)
  qed (use less.prems in \<open>subst (asm) readVarint_loop.simps, simp\<close>)
qed

lemma moves_readVarint: "readVarint c = Inr (v, c') \<Longrightarrow> moves c c'"
  by (simp add: readVarint_def moves_readVarint_loop)

text \<open>
  A read is sound when it never moves the cursor back nor outside its buffer, and fails with
  \<^verbatim>\<open>ErrMalformedPacket\<close> only: no index or slice of it panics.
\<close>

definition sound :: "cursor \<Rightarrow> gerror + ('a \<times> cursor) \<Rightarrow> bool" where
  "sound c m \<longleftrightarrow>
     (\<forall>x c'. m = Inr (x, c') \<longrightarrow> moves c c' \<and> (cursor_ok c \<longrightarrow> cursor_ok c')) \<and>
     (\<forall>e. m = Inl e \<longrightarrow> cursor_ok c \<longrightarrow> e = ErrMalformedPacket)"

lemma sound_malformed: "sound c (Inl ErrMalformedPacket)"
  and sound_return: "sound c (Inr (x, c))"
  by (auto simp: sound_def)

lemma sound_if: "(b \<Longrightarrow> sound c m) \<Longrightarrow> (\<not> b \<Longrightarrow> sound c n) \<Longrightarrow> sound c (if b then m else n)"
  by simp

lemma sound_andthen:
  assumes "sound c m" "\<And>x c'. m = Inr (x, c') \<Longrightarrow> sound c' (f x c')"
  shows "sound c (andthen m (\<lambda>(x, c'). f x c'))"
proof (cases m)
  case (Inl e)
  with assms(1) show ?thesis by (simp add: sound_def)
next
  case (Inr xc)
  then obtain x c' where m: "m = Inr (x, c')" by (cases xc) auto
  then have "sound c' (f x c')" by (rule assms(2))
  with assms(1) m show ?thesis by (auto simp: sound_def intro: moves_trans)
qed

lemma sound_fields:
  "sound c (readByte c)" "sound c (readUint16 c)" "sound c (readUint32 c)"
  "sound c (readVarint c)" "sound c (readString c)" "sound c (readBinary c)"
  unfolding sound_def
  by (auto dest: moves_readByte moves_readUint16 moves_readUint32 moves_readVarint moves_readString
      moves_readBinary byte_field.rd_ok byte_field.rd_err u16_field.rd_ok u16_field.rd_err
      u32_field.rd_ok u32_field.rd_err varint_field.rd_ok varint_field.rd_err string_field.rd_ok
      string_field.rd_err binary_field.rd_ok binary_field.rd_err)

lemmas sound_intros = sound_fields sound_malformed sound_return sound_if sound_andthen

lemma sound_readProp:
  "sound c (readPropByte c ident)" "sound c (readPropUint16 c ident)" "sound c (readPropUint32 c ident)"
  unfolding readPropByte_def readPropUint16_def readPropUint32_def by (intro sound_intros)+

lemma sound_decodeOne: "sound c (decodeOne p c ident)"
  unfolding decodeOne_def by (intro sound_intros sound_readProp)+

lemma moves_decodeOne: "decodeOne p c ident = Inr (p', c') \<Longrightarrow> moves c c'"
  using sound_decodeOne by (auto simp: sound_def)

function propLoop :: "propTarget \<Rightarrow> cursor \<Rightarrow> Properties \<Rightarrow> uint64 \<Rightarrow> gerror + Properties" where
  "propLoop target sub p seen =
     (if remaining sub > 0 then
        andthen (readByte sub) (\<lambda>(ident, sub1).
        case propertySpec ident of
          None \<Rightarrow> Inl ErrMalformedPacket
        | Some allowed \<Rightarrow>
            if allowed AND target = 0 then Inl ErrMalformedPacket
            else
              andthen
                (if \<not> repeatableProperty ident target then
                   (let bit = push_bit (unat ident) 1 in
                    if seen AND bit \<noteq> 0 then Inl ErrMalformedPacket else Inr (seen OR bit))
                 else Inr seen) (\<lambda>seen'.
              andthen (decodeOne p sub1 ident) (\<lambda>(p', sub2).
              propLoop target sub2 p' seen')))
      else Inr p)"
  by pat_completeness auto
termination propLoop
proof (relation "measure (\<lambda>(_, sub, _, _). nat (remaining sub))", goal_cases)
  case (2 target sub p seen x ident sub1 allowed seen' y p' sub2)
  then have "remaining sub2 \<le> remaining sub1" "remaining sub1 < remaining sub"
    using moves_readByte moves_decodeOne moves_remaining by auto
  with 2(1) show ?case by auto
qed simp

declare propLoop.simps [simp del]

definition decodeProperties :: "cursor \<Rightarrow> propTarget \<Rightarrow> gerror + (Properties option \<times> cursor)" where
  "decodeProperties c target =
     andthen (readVarint c) (\<lambda>(len, c1).
     let n = unat len in
     if int n > remaining c1 then Inl ErrMalformedPacket
     else
       andthen (go_slice (buf c1) (pos c1) (pos c1 + n)) (\<lambda>bs.
       let sub = newCursor bs; c2 = c1\<lparr>pos := pos c1 + n\<rparr> in
       if n = 0 then Inr (None, c2)
       else andthen (propLoop target sub emptyProperties 0) (\<lambda>p. Inr (Some p, c2))))"

section \<open>Decoding never panics\<close>

lemma propLoop_err:
  "propLoop target sub p seen = Inl e \<Longrightarrow> cursor_ok sub \<Longrightarrow> e = ErrMalformedPacket"
proof (induction target sub p seen rule: propLoop.induct)
  case (1 target sub p seen)
  show ?case
  proof (cases "readByte sub")
    case (Inl e')
    with "1.prems" show ?thesis
      using byte_field.rd_err by (subst (asm) propLoop.simps) (auto split: if_splits)
  next
    case (Inr x)
    then obtain ident sub1 where rb: "readByte sub = Inr (ident, sub1)" by (cases x) auto
    then have ok1: "cursor_ok sub1" using "1.prems"(2) byte_field.rd_ok by blast
    have one: "decodeOne p sub1 ident = Inl e' \<Longrightarrow> e' = ErrMalformedPacket"
      "decodeOne p sub1 ident = Inr (p', sub2) \<Longrightarrow> cursor_ok sub2" for e' p' sub2
      using sound_decodeOne[of sub1 p ident] ok1 by (auto simp: sound_def)
    from "1.prems"(1) show ?thesis
      using "1.IH"[OF _ rb refl] one
      by (subst (asm) propLoop.simps)
         (auto simp: rb Let_def andthen_Inl_iff split: if_splits option.splits)
  qed
qed

lemma decodeProperties_rest:
  assumes "readVarint c = Inr (len, c1)" "cursor_ok c"
  shows "decodeProperties c target =
    (if length (rest c1) < unat len then Inl ErrMalformedPacket
     else if unat len = 0 then Inr (None, c1)
     else andthen (propLoop target (newCursor (take (unat len) (rest c1))) emptyProperties 0)
            (\<lambda>p. Inr (Some p, advance c1 (unat len))))"
proof -
  have "cursor_ok c1" using assms varint_field.rd_ok by blast
  then show ?thesis
    unfolding decodeProperties_def advance_def[symmetric] using assms
    by (auto simp: Let_def remaining_rest go_slice_rest advance_def)
qed

lemma sound_decodeProperties: "sound c (decodeProperties c target)"
  unfolding decodeProperties_def Let_def
proof (intro sound_andthen sound_fields sound_if sound_malformed, goal_cases)
  case (1 len c1)
  let ?s = "go_slice (buf c1) (pos c1) (pos c1 + unat len)"
  show ?case
  proof (cases ?s)
    case (Inl e)
    with 1(2) show ?thesis
      by (auto simp: sound_def remaining_rest go_slice_rest)
  next
    case (Inr bs)
    have "moves c1 (c1\<lparr>pos := pos c1 + unat len\<rparr>)" by (simp add: moves_def)
    moreover have "cursor_ok c1 \<Longrightarrow> cursor_ok (c1\<lparr>pos := pos c1 + unat len\<rparr>)"
      using 1(2) unfolding cursor_ok_def remaining_def by (simp del: of_nat_unat)
    ultimately show ?thesis
      using Inr propLoop_err[of target "newCursor bs" emptyProperties 0]
      by (auto simp: sound_def andthen_Inl_iff andthen_Inr_iff)
  qed
qed

section \<open>What the encoder writes, the decoder reads\<close>

text \<open>
  One encoded property at the front of the block is consumed by one round of the loop. The
  encoder emits identifiers in ascending order, so the duplicate mask holds only smaller ones.
\<close>

lemma below_mono: "below m v \<Longrightarrow> m \<le> n \<Longrightarrow> below n v"
  by (auto simp: below_def)

lemma below_seen:
  fixes seen :: uint64
  assumes "below n seen" "n < 64"
  shows "seen AND push_bit n 1 = 0" and "below (Suc n) (seen OR push_bit n 1)"
proof -
  have "bit (seen AND push_bit n 1) m = bit 0 m" for m
    using assms by (auto simp: bit_simps below_def)
  then show "seen AND push_bit n 1 = 0" by (intro bit_word_eqI)
  show "below (Suc n) (seen OR push_bit n 1)"
    using assms by (auto simp: below_def bit_simps less_SucI)
qed

lemma checkEncodeAllowed_iff:
  "checkEncodeAllowed ident target = Inr u \<longleftrightarrow>
     (\<exists>allowed. propertySpec ident = Some allowed \<and> allowed AND target \<noteq> 0)"
  by (auto simp: checkEncodeAllowed_def split: option.splits)

lemma propLoop_item:
  assumes "checkEncodeAllowed ident target = Inr ()" "cursor_ok c" "rest c = ident # zs"
    and "decodeOne q (advance c 1) ident = Inr (q', c')"
    and "repeatableProperty ident target \<or> below (unat ident) seen \<and> unat ident < 64"
  shows "propLoop target c q seen = propLoop target c' q'
    (if repeatableProperty ident target then seen else seen OR push_bit (unat ident) 1)"
proof -
  have "readByte c = Inr (ident, advance c 1)" "remaining c > 0"
    using assms(2,3) by (simp_all add: readByte_rest remaining_rest)
  then show ?thesis
    using assms(1,4,5) below_seen(1)
    by (subst propLoop.simps) (auto simp: checkEncodeAllowed_iff)
qed

text \<open>
  \<open>field_step\<close> is the law of one writer: what it appends is consumed by the loop with the
  effect \<open>upd\<close> on the record under construction.
\<close>

definition field_step ::
  "propTarget \<Rightarrow> nat \<Rightarrow> (byte list \<Rightarrow> gerror + byte list) \<Rightarrow> (Properties \<Rightarrow> Properties) \<Rightarrow> bool" where
  "field_step target n w upd \<longleftrightarrow>
     (\<forall>body body'. w body = Inr body' \<longrightarrow>
        (\<exists>bs. body' = body @ bs \<and>
          (\<forall>c q seen ys. cursor_ok c \<longrightarrow> rest c = bs @ ys \<longrightarrow> below n seen \<longrightarrow>
             (\<exists>c' seen'. propLoop target c q seen = propLoop target c' (upd q) seen' \<and>
                cursor_ok c' \<and> rest c' = ys \<and> below (Suc n) seen'))))"

lemma field_stepI:
  assumes "\<And>body body'. w body = Inr body' \<Longrightarrow>
      \<exists>bs. body' = body @ bs \<and>
        (\<forall>c q seen ys. cursor_ok c \<longrightarrow> rest c = bs @ ys \<longrightarrow> below n seen \<longrightarrow>
           (\<exists>c' seen'. propLoop target c q seen = propLoop target c' (upd q) seen' \<and>
              cursor_ok c' \<and> rest c' = ys \<and> below (Suc n) seen'))"
  shows "field_step target n w upd"
  using assms unfolding field_step_def by blast

lemma field_stepE:
  assumes "field_step target n w upd" "w body = Inr body'"
  obtains bs where "body' = body @ bs"
    and "\<And>c q seen ys. cursor_ok c \<Longrightarrow> rest c = bs @ ys \<Longrightarrow> below n seen \<Longrightarrow>
       \<exists>c' seen'. propLoop target c q seen = propLoop target c' (upd q) seen' \<and>
          cursor_ok c' \<and> rest c' = ys \<and> below (Suc n) seen'"
  using assms unfolding field_step_def by blast

lemma field_step_skip:
  assumes "\<And>body. w body = Inr body" "\<And>q. upd q = q"
  shows "field_step target n w upd"
  unfolding field_step_def using assms by (fastforce intro: below_mono)

lemma field_step_single:
  assumes w: "\<And>body body'. w body = Inr body' \<Longrightarrow> checkEncodeAllowed ident target = Inr () \<and>
      (\<exists>vb. body' = body @ ident # vb \<and>
        (\<forall>c q ys. cursor_ok c \<longrightarrow> rest c = vb @ ys \<longrightarrow>
           decodeOne q c ident = Inr (upd q, advance c (length vb))))"
    and n: "n = unat ident" "n < 64" "\<not> repeatableProperty ident target"
  shows "field_step target n w upd"
proof (rule field_stepI)
  fix body body' assume "w body = Inr body'"
  from w[OF this] obtain vb where allowed: "checkEncodeAllowed ident target = Inr ()"
    and body': "body' = body @ ident # vb"
    and dec: "\<And>c q ys. cursor_ok c \<Longrightarrow> rest c = vb @ ys \<Longrightarrow>
        decodeOne q c ident = Inr (upd q, advance c (length vb))" by blast
  have "\<exists>c' seen'. propLoop target c q seen = propLoop target c' (upd q) seen' \<and>
      cursor_ok c' \<and> rest c' = ys \<and> below (Suc n) seen'"
    if c: "cursor_ok c" "rest c = (ident # vb) @ ys" "below n seen" for c q seen ys
  proof (intro exI conjI)
    have ok: "cursor_ok (advance c 1)" using c by (simp add: cursor_ok_advance)
    show "propLoop target c q seen = propLoop target (advance (advance c 1) (length vb)) (upd q)
        (seen OR push_bit (unat ident) 1)"
      using propLoop_item[OF allowed c(1) _ dec[OF ok, where ys = ys], where zs = "vb @ ys" and seen = seen]
        c n by simp
    show "cursor_ok (advance (advance c 1) (length vb))"
      using c by (simp add: cursor_ok_advance)
    show "rest (advance (advance c 1) (length vb)) = ys" using c by simp
    show "below (Suc n) (seen OR push_bit (unat ident) 1)"
      using below_seen(2)[OF c(3)] n by simp
  qed
  with body' show "\<exists>bs. body' = body @ bs \<and>
      (\<forall>c q seen ys. cursor_ok c \<longrightarrow> rest c = bs @ ys \<longrightarrow> below n seen \<longrightarrow>
         (\<exists>c' seen'. propLoop target c q seen = propLoop target c' (upd q) seen' \<and>
            cursor_ok c' \<and> rest c' = ys \<and> below (Suc n) seen'))"
    by (intro exI[of _ "ident # vb"]) blast
qed

lemma appendString_app: "appendString xs s = andthen (appendString [] s) (\<lambda>bs. Inr (xs @ bs))"
  by (simp add: appendString_def)

lemma appendBinary_app: "appendBinary xs s = andthen (appendBinary [] s) (\<lambda>bs. Inr (xs @ bs))"
  by (simp add: appendBinary_def)

lemma field_step_numeric:
  assumes skip: "v = None \<Longrightarrow> \<forall>q. upd q = q"
    and dec: "\<And>x q c c'. v = Some x \<Longrightarrow> rdp c = Inr (x, c') \<Longrightarrow> decodeOne q c ident = Inr (upd q, c')"
    and rdp: "\<And>x c ys. checkEncodeValue ident (ext x) = Inr () \<Longrightarrow> cursor_ok c \<Longrightarrow> rest c = bytes x @ ys
        \<Longrightarrow> rdp c = Inr (x, advance c (length (bytes x)))"
    and n: "n = unat ident" "n < 64" "ident \<notin> {0x0B, 0x26}"
  shows "field_step target n (\<lambda>body. case v of None \<Rightarrow> Inr body
      | Some x \<Rightarrow> andthen (checkEncodeAllowed ident target) (\<lambda>_.
          andthen (checkEncodeValue ident (ext x)) (\<lambda>_. Inr (body @ [ident] @ bytes x)))) upd"
proof (cases v)
  case None
  with skip show ?thesis by (intro field_step_skip) auto
next
  case (Some x)
  show ?thesis
    by (rule field_step_single)
       (use n Some dec rdp in \<open>auto simp: andthen_Inr_iff repeatableProperty_def\<close>)
qed

lemma readProp_enc:
  "checkEncodeValue ident (ucast x) = Inr () \<Longrightarrow> cursor_ok c \<Longrightarrow> rest c = [x] @ ys
     \<Longrightarrow> readPropByte c ident = Inr (x, advance c (length [x]))"
  "checkEncodeValue ident (ucast y) = Inr () \<Longrightarrow> cursor_ok c \<Longrightarrow> rest c = be16 y @ ys
     \<Longrightarrow> readPropUint16 c ident = Inr (y, advance c (length (be16 y)))"
  "checkEncodeValue ident z = Inr () \<Longrightarrow> cursor_ok c \<Longrightarrow> rest c = be32 z @ ys
     \<Longrightarrow> readPropUint32 c ident = Inr (z, advance c (length (be32 z)))"
  using byte_field.rd_enc[of x "[x]" c ys] u16_field.rd_enc[of y "be16 y" c ys]
    u32_field.rd_enc[of z "be32 z" c ys]
  by (auto simp: readPropByte_def readPropUint16_def readPropUint32_def checkEncodeValue_def
      encByte_def encUint16_def encUint32_def split: if_splits)

lemma field_step_byte:
  assumes "v = None \<Longrightarrow> \<forall>q. upd q = q"
    and "\<And>x q c c'. v = Some x \<Longrightarrow> readPropByte c ident = Inr (x, c') \<Longrightarrow> decodeOne q c ident = Inr (upd q, c')"
    and "n = unat ident" "n < 64" "ident \<notin> {0x0B, 0x26}"
  shows "field_step target n (writeByteProp target ident v) upd"
  unfolding writeByteProp_def
  by (rule field_step_numeric[where rdp = "\<lambda>c. readPropByte c ident" and bytes = "\<lambda>x. [x]"])
     (use assms readProp_enc in auto)

lemma field_step_u16:
  assumes "v = None \<Longrightarrow> \<forall>q. upd q = q"
    and "\<And>x q c c'. v = Some x \<Longrightarrow> readPropUint16 c ident = Inr (x, c') \<Longrightarrow> decodeOne q c ident = Inr (upd q, c')"
    and "n = unat ident" "n < 64" "ident \<notin> {0x0B, 0x26}"
  shows "field_step target n (writeU16Prop target ident v) upd"
  unfolding writeU16Prop_def
  by (rule field_step_numeric[where rdp = "\<lambda>c. readPropUint16 c ident"])
     (use assms readProp_enc in auto)

lemma field_step_u32:
  assumes "v = None \<Longrightarrow> \<forall>q. upd q = q"
    and "\<And>x q c c'. v = Some x \<Longrightarrow> readPropUint32 c ident = Inr (x, c') \<Longrightarrow> decodeOne q c ident = Inr (upd q, c')"
    and "n = unat ident" "n < 64" "ident \<notin> {0x0B, 0x26}"
  shows "field_step target n (writeU32Prop target ident v) upd"
  unfolding writeU32Prop_def
  by (rule field_step_numeric[where rdp = "\<lambda>c. readPropUint32 c ident" and ext = "\<lambda>x. x"])
     (use assms readProp_enc in auto)

lemma field_step_str:
  assumes "s = [] \<Longrightarrow> \<forall>q. upd q = q"
    and dec: "\<And>q c c'. s \<noteq> [] \<Longrightarrow> readString c = Inr (s, c') \<Longrightarrow> decodeOne q c ident = Inr (upd q, c')"
    and n: "n = unat ident" "n < 64" "ident \<notin> {0x0B, 0x26}"
  shows "field_step target n (writeStrProp target ident s) upd"
proof (cases "s = []")
  case True
  with assms(1) show ?thesis by (intro field_step_skip) (auto simp: writeStrProp_def)
next
  case False
  show ?thesis
    by (rule field_step_single)
       (use n False dec string_field.rd_enc in
         \<open>auto simp: writeStrProp_def appendString_app[of "_ @ _"] andthen_Inr_iff repeatableProperty_def\<close>)
qed

lemma field_step_bin:
  assumes "s = [] \<Longrightarrow> \<forall>q. upd q = q"
    and dec: "\<And>q c c'. s \<noteq> [] \<Longrightarrow> readBinary c = Inr (s, c') \<Longrightarrow> decodeOne q c ident = Inr (upd q, c')"
    and n: "n = unat ident" "n < 64" "ident \<notin> {0x0B, 0x26}"
  shows "field_step target n (writeBinProp target ident s) upd"
proof (cases "s = []")
  case True
  with assms(1) show ?thesis by (intro field_step_skip) (auto simp: writeBinProp_def)
next
  case False
  show ?thesis
    by (rule field_step_single)
       (use n False dec binary_field.rd_enc in
         \<open>auto simp: writeBinProp_def appendBinary_app[of "_ @ _"] andthen_Inr_iff repeatableProperty_def\<close>)
qed

text \<open>The two properties that may occur several times are written one after the other.\<close>

lemma writeSubIDs_loop_step:
  assumes "writeSubIDs_loop ids body = Inr body'" "checkEncodeAllowed 0x0B target = Inr ()"
    and "repeatableProperty 0x0B target \<or> length ids \<le> 1"
  shows "\<exists>bs. body' = body @ bs \<and>
    (\<forall>c q seen ys. cursor_ok c \<longrightarrow> rest c = bs @ ys \<longrightarrow> below 0x0B seen \<longrightarrow>
       (\<exists>c' seen'. propLoop target c q seen =
            propLoop target c' (q\<lparr>SubscriptionIdentifiers := SubscriptionIdentifiers q @ ids\<rparr>) seen' \<and>
          cursor_ok c' \<and> rest c' = ys \<and> below (Suc 0x0B) seen'))"
  using assms
proof (induction ids arbitrary: body)
  case Nil
  then show ?case by (fastforce intro: below_mono)
next
  case (Cons i ids)
  let ?seen = "\<lambda>seen. if repeatableProperty 0x0B target then seen else seen OR push_bit 0x0B 1"
  from Cons.prems(1) have i: "i \<noteq> 0" "i \<le> maxVarint"
    and tl: "writeSubIDs_loop ids (body @ 0x0B # varint i) = Inr body'"
    by (auto simp: not_less appendVarint_eq[of "_ @ _"] split: if_splits)
  have step: "propLoop target c q seen = propLoop target (advance c (Suc (length (varint i))))
      (q\<lparr>SubscriptionIdentifiers := SubscriptionIdentifiers q @ [i]\<rparr>) (?seen seen)"
    if c: "cursor_ok c" "rest c = 0x0B # varint i @ ys" "below 0x0B seen" for c q seen ys
  proof -
    have "readVarint (advance c 1) = Inr (i, advance (advance c 1) (length (varint i)))"
      using c i by (intro varint_field.rd_enc[of i _ _ ys])
        (auto simp: encVarint_def cursor_ok_advance)
    then have "decodeOne q (advance c 1) 0x0B =
        Inr (q\<lparr>SubscriptionIdentifiers := SubscriptionIdentifiers q @ [i]\<rparr>, advance c (Suc (length (varint i))))"
      using i by (simp add: decodeOne_def)
    from propLoop_item[OF Cons.prems(2) c(1,2) this] c(3) show ?thesis by simp
  qed
  have seen': "below (Suc 0x0B) (?seen seen)" if "below 0x0B seen" for seen :: uint64
    using that below_seen(2)[of "0x0B" seen] by (auto intro: below_mono)
  show ?case
  proof (cases "repeatableProperty 0x0B target")
    case True
    with Cons.IH[OF tl Cons.prems(2)] obtain bs where bs: "body' = body @ 0x0B # varint i @ bs"
      and IH: "\<And>c q seen ys. cursor_ok c \<Longrightarrow> rest c = bs @ ys \<Longrightarrow> below 0x0B seen \<Longrightarrow>
        (\<exists>c' seen'. propLoop target c q seen =
            propLoop target c' (q\<lparr>SubscriptionIdentifiers := SubscriptionIdentifiers q @ ids\<rparr>) seen' \<and>
          cursor_ok c' \<and> rest c' = ys \<and> below (Suc 0x0B) seen')"
      by auto
    have "\<exists>c' seen'. propLoop target c q seen =
            propLoop target c' (q\<lparr>SubscriptionIdentifiers := SubscriptionIdentifiers q @ i # ids\<rparr>) seen' \<and>
          cursor_ok c' \<and> rest c' = ys \<and> below (Suc 0x0B) seen'"
      if c: "cursor_ok c" "rest c = 0x0B # varint i @ bs @ ys" "below 0x0B seen" for c q seen ys
      using IH[of "advance c (Suc (length (varint i)))" ys seen
          "q\<lparr>SubscriptionIdentifiers := SubscriptionIdentifiers q @ [i]\<rparr>"] step[OF c] c True
      by (simp add: cursor_ok_advance)
    with bs show ?thesis by (intro exI[of _ "0x0B # varint i @ bs"]) simp
  next
    case False
    with Cons.prems(3) tl have "ids = []" "body' = body @ 0x0B # varint i" by auto
    moreover have "cursor_ok (advance c (Suc (length (varint i))))"
      "rest (advance c (Suc (length (varint i)))) = ys"
      if "cursor_ok c" "rest c = 0x0B # varint i @ ys" for c ys
      using that by (auto intro!: cursor_ok_advance)
    ultimately show ?thesis
      using step seen' by (intro exI[of _ "0x0B # varint i"]) fastforce
  qed
qed

lemma append_updates:
  "q\<lparr>SubscriptionIdentifiers := SubscriptionIdentifiers q @ ids\<rparr>
     = SubscriptionIdentifiers_update (\<lambda>old. old @ ids) q"
  "q\<lparr>UserProperties := UserProperties q @ ups\<rparr> = UserProperties_update (\<lambda>old. old @ ups) q"
  by (cases q; simp)+

lemma field_step_subIDs:
  "field_step target 0x0B (writeSubIDs target ids)
     (SubscriptionIdentifiers_update (\<lambda>old. old @ ids))"
proof (cases "ids = []")
  case True
  then show ?thesis by (intro field_step_skip) (auto simp: writeSubIDs_def)
next
  case False
  have *: "checkEncodeAllowed 0x0B target = Inr () \<Longrightarrow> \<not> repeatableProperty 0x0B target
      \<Longrightarrow> target AND tgSubscribe \<noteq> 0"
  proof -
    assume "checkEncodeAllowed 0x0B target = Inr ()" "\<not> repeatableProperty 0x0B target"
    then have "(tgPublish OR tgSubscribe) AND target \<noteq> 0" "target AND tgPublish = 0"
      by (auto simp: checkEncodeAllowed_iff propertySpec_def repeatableProperty_def split: if_splits)
    moreover have "(tgPublish OR tgSubscribe) AND target = (target AND tgPublish) OR (target AND tgSubscribe)"
      by (rule bit_word_eqI) (auto simp: bit_simps)
    ultimately show ?thesis by auto
  qed
  show ?thesis
  proof (rule field_stepI)
    fix body body' assume "writeSubIDs target ids body = Inr body'"
    with False have "checkEncodeAllowed 0x0B target = Inr ()" "writeSubIDs_loop ids body = Inr body'"
      "target AND tgSubscribe = 0 \<or> length ids \<le> 1"
      by (auto simp: writeSubIDs_def andthen_Inr_iff split: if_splits)
    with * writeSubIDs_loop_step[of ids body body' target, unfolded append_updates]
    show "\<exists>bs. body' = body @ bs \<and>
      (\<forall>c q seen ys. cursor_ok c \<longrightarrow> rest c = bs @ ys \<longrightarrow> below 0x0B seen \<longrightarrow>
         (\<exists>c' seen'. propLoop target c q seen = propLoop target c'
              (SubscriptionIdentifiers_update (\<lambda>old. old @ ids) q) seen' \<and>
            cursor_ok c' \<and> rest c' = ys \<and> below (Suc 0x0B) seen'))"
      by blast
  qed
qed

lemma writeUserProps_loop_step:
  assumes "writeUserProps_loop ups body = Inr body'" "checkEncodeAllowed 0x26 target = Inr ()"
  shows "\<exists>bs. body' = body @ bs \<and>
    (\<forall>c q seen ys. cursor_ok c \<longrightarrow> rest c = bs @ ys \<longrightarrow>
       (\<exists>c'. propLoop target c q seen =
            propLoop target c' (q\<lparr>UserProperties := UserProperties q @ ups\<rparr>) seen \<and>
          cursor_ok c' \<and> rest c' = ys))"
  using assms
proof (induction ups arbitrary: body)
  case Nil
  then show ?case by fastforce
next
  case (Cons up ups)
  from Cons.prems(1) obtain ks vs where k: "appendString [] (Key up) = Inr ks"
    and v: "appendString [] (Value up) = Inr vs"
    and tl: "writeUserProps_loop ups (body @ 0x26 # ks @ vs) = Inr body'"
    by (auto simp: appendString_app[of "_ @ _"] andthen_Inr_iff)
  from Cons.IH[OF tl Cons.prems(2)] obtain bs where bs: "body' = body @ 0x26 # ks @ vs @ bs"
    and IH: "\<And>c q seen ys. cursor_ok c \<Longrightarrow> rest c = bs @ ys \<Longrightarrow>
       (\<exists>c'. propLoop target c q seen =
            propLoop target c' (q\<lparr>UserProperties := UserProperties q @ ups\<rparr>) seen \<and>
          cursor_ok c' \<and> rest c' = ys)"
    by auto
  have "\<exists>c'. propLoop target c q seen =
            propLoop target c' (q\<lparr>UserProperties := UserProperties q @ up # ups\<rparr>) seen \<and>
          cursor_ok c' \<and> rest c' = ys"
    if c: "cursor_ok c" "rest c = 0x26 # ks @ vs @ bs @ ys" for c q seen ys
  proof -
    let ?c1 = "advance c (Suc (length ks))" and ?c2 = "advance c (Suc (length ks + length vs))"
    let ?q = "q\<lparr>UserProperties := UserProperties q @ [up]\<rparr>"
    have ok: "cursor_ok (advance c 1)" "cursor_ok ?c1" "cursor_ok ?c2"
      using c by (auto intro!: cursor_ok_advance)
    have "readString (advance c 1) = Inr (Key up, ?c1)"
      using string_field.rd_enc[OF k ok(1), of "vs @ bs @ ys"] c by simp
    moreover have "readString ?c1 = Inr (Value up, ?c2)"
      using string_field.rd_enc[OF v ok(2), of "bs @ ys"] c by simp
    ultimately have "decodeOne q (advance c 1) 0x26 = Inr (?q, ?c2)" by (simp add: decodeOne_def)
    from propLoop_item[OF Cons.prems(2) c(1) c(2) this, of seen]
    have "propLoop target c q seen = propLoop target ?c2 ?q seen"
      by (simp add: repeatableProperty_def)
    with IH[OF ok(3), of ys ?q seen] c show ?thesis by simp
  qed
  with bs show ?case by (intro exI[of _ "0x26 # ks @ vs @ bs"]) simp
qed

lemma field_step_userProps:
  "field_step target 0x26 (writeUserProps target ups)
     (UserProperties_update (\<lambda>old. old @ ups))"
proof (cases "ups = []")
  case True
  then show ?thesis by (intro field_step_skip) (auto simp: writeUserProps_def)
next
  case False
  show ?thesis
  proof (rule field_stepI)
    fix body body' assume "writeUserProps target ups body = Inr body'"
    with False have "checkEncodeAllowed 0x26 target = Inr ()" "writeUserProps_loop ups body = Inr body'"
      by (auto simp: writeUserProps_def andthen_Inr_iff)
    from writeUserProps_loop_step[OF this(2,1), unfolded append_updates] obtain bs where bs: "body' = body @ bs"
      and step: "\<And>c q seen ys. cursor_ok c \<Longrightarrow> rest c = bs @ ys \<Longrightarrow>
       \<exists>c'. propLoop target c q seen =
            propLoop target c' (UserProperties_update (\<lambda>old. old @ ups) q) seen \<and>
          cursor_ok c' \<and> rest c' = ys" by auto
    have "\<exists>c' seen'. propLoop target c q seen = propLoop target c'
              (UserProperties_update (\<lambda>old. old @ ups) q) seen' \<and>
            cursor_ok c' \<and> rest c' = ys \<and> below (Suc 0x26) seen'"
      if "cursor_ok c" "rest c = bs @ ys" "below 0x26 seen" for c q seen ys
      using step[OF that(1,2), of q seen] below_mono[OF that(3), of "Suc 0x26"] by auto
    with bs show "\<exists>bs. body' = body @ bs \<and>
      (\<forall>c q seen ys. cursor_ok c \<longrightarrow> rest c = bs @ ys \<longrightarrow> below 0x26 seen \<longrightarrow>
         (\<exists>c' seen'. propLoop target c q seen = propLoop target c'
              (UserProperties_update (\<lambda>old. old @ ups) q) seen' \<and>
            cursor_ok c' \<and> rest c' = ys \<and> below (Suc 0x26) seen'))"
      by auto
  qed
qed

text \<open>
  The effect of each writer of \<^const>\<open>propWriters\<close> on the record the decoder builds, with
  the identifier it writes.
\<close>

definition propEffects :: "Properties \<Rightarrow> (nat \<times> (Properties \<Rightarrow> Properties)) list" where
  "propEffects p =
     [(0x01, PayloadFormat_update (\<lambda>old. if PayloadFormat p = None then old else PayloadFormat p)),
      (0x02, MessageExpiryInterval_update (\<lambda>old. if MessageExpiryInterval p = None then old else MessageExpiryInterval p)),
      (0x03, ContentType_update (\<lambda>old. if ContentType p = [] then old else ContentType p)),
      (0x08, ResponseTopic_update (\<lambda>old. if ResponseTopic p = [] then old else ResponseTopic p)),
      (0x09, CorrelationData_update (\<lambda>old. if CorrelationData p = [] then old else CorrelationData p)),
      (0x0B, SubscriptionIdentifiers_update (\<lambda>old. old @ SubscriptionIdentifiers p)),
      (0x11, SessionExpiryInterval_update (\<lambda>old. if SessionExpiryInterval p = None then old else SessionExpiryInterval p)),
      (0x12, AssignedClientID_update (\<lambda>old. if AssignedClientID p = [] then old else AssignedClientID p)),
      (0x13, ServerKeepAlive_update (\<lambda>old. if ServerKeepAlive p = None then old else ServerKeepAlive p)),
      (0x15, AuthMethod_update (\<lambda>old. if AuthMethod p = [] then old else AuthMethod p)),
      (0x16, AuthData_update (\<lambda>old. if AuthData p = [] then old else AuthData p)),
      (0x17, RequestProblemInfo_update (\<lambda>old. if RequestProblemInfo p = None then old else RequestProblemInfo p)),
      (0x18, WillDelayInterval_update (\<lambda>old. if WillDelayInterval p = None then old else WillDelayInterval p)),
      (0x19, RequestResponseInfo_update (\<lambda>old. if RequestResponseInfo p = None then old else RequestResponseInfo p)),
      (0x1A, ResponseInfo_update (\<lambda>old. if ResponseInfo p = [] then old else ResponseInfo p)),
      (0x1C, ServerReference_update (\<lambda>old. if ServerReference p = [] then old else ServerReference p)),
      (0x1F, ReasonString_update (\<lambda>old. if ReasonString p = [] then old else ReasonString p)),
      (0x21, ReceiveMaximum_update (\<lambda>old. if ReceiveMaximum p = None then old else ReceiveMaximum p)),
      (0x22, TopicAliasMaximum_update (\<lambda>old. if TopicAliasMaximum p = None then old else TopicAliasMaximum p)),
      (0x23, TopicAlias_update (\<lambda>old. if TopicAlias p = None then old else TopicAlias p)),
      (0x24, MaximumQoS_update (\<lambda>old. if MaximumQoS p = None then old else MaximumQoS p)),
      (0x25, RetainAvailable_update (\<lambda>old. if RetainAvailable p = None then old else RetainAvailable p)),
      (0x26, UserProperties_update (\<lambda>old. old @ UserProperties p)),
      (0x27, MaximumPacketSize_update (\<lambda>old. if MaximumPacketSize p = None then old else MaximumPacketSize p)),
      (0x28, WildcardSubAvailable_update (\<lambda>old. if WildcardSubAvailable p = None then old else WildcardSubAvailable p)),
      (0x29, SubIDAvailable_update (\<lambda>old. if SubIDAvailable p = None then old else SubIDAvailable p)),
      (0x2A, SharedSubAvailable_update (\<lambda>old. if SharedSubAvailable p = None then old else SharedSubAvailable p))]"

lemma propWriters_step:
  "list_all2 (\<lambda>(n, upd) w. field_step target n w upd) (propEffects p) (propWriters target p)"
  unfolding propEffects_def propWriters_def list.rel_inject list_all2_Cons prod.case
  by (intro conjI list.rel_intros field_step_byte field_step_u16 field_step_u32 field_step_str
      field_step_bin field_step_subIDs field_step_userProps)
     (simp_all add: decodeOne_def)

lemma runWriters_step:
  assumes "list_all2 (\<lambda>(n, upd) w. field_step target n w upd) fs ws"
    and "sorted_wrt (<) (map fst fs)" "\<forall>f \<in> set fs. n \<le> fst f" "runWriters ws body = Inr body'"
  shows "\<exists>bs. body' = body @ bs \<and>
    (\<forall>c q seen ys. cursor_ok c \<longrightarrow> rest c = bs @ ys \<longrightarrow> below n seen \<longrightarrow>
       (\<exists>c' seen'. propLoop target c q seen = propLoop target c' (fold snd fs q) seen' \<and>
          cursor_ok c' \<and> rest c' = ys))"
  using assms
proof (induction fs ws arbitrary: n body rule: list_all2_induct)
  case Nil
  then show ?case by fastforce
next
  case (Cons f fs w ws)
  obtain m upd where f: "f = (m, upd)" by (cases f)
  from Cons.prems(3) obtain body1 where w: "w body = Inr body1" and ws: "runWriters ws body1 = Inr body'"
    by (auto simp: andthen_Inr_iff)
  from Cons.hyps(1) f have "field_step target m w upd" by simp
  from field_stepE[OF this w] obtain bs1 where bs1: "body1 = body @ bs1"
    and step1: "\<And>c q seen ys. cursor_ok c \<Longrightarrow> rest c = bs1 @ ys \<Longrightarrow> below m seen \<Longrightarrow>
       \<exists>c' seen'. propLoop target c q seen = propLoop target c' (upd q) seen' \<and>
          cursor_ok c' \<and> rest c' = ys \<and> below (Suc m) seen'"
    by blast
  from Cons.IH[OF _ _ ws, of "Suc m"] Cons.prems(1) f obtain bs2 where bs2: "body' = body1 @ bs2"
    and step2: "\<And>c q seen ys. cursor_ok c \<Longrightarrow> rest c = bs2 @ ys \<Longrightarrow> below (Suc m) seen \<Longrightarrow>
       \<exists>c' seen'. propLoop target c q seen = propLoop target c' (fold snd fs q) seen' \<and>
          cursor_ok c' \<and> rest c' = ys"
    by (auto simp: Suc_le_eq)
  have "\<exists>c' seen'. propLoop target c q seen = propLoop target c' (fold snd (f # fs) q) seen' \<and>
          cursor_ok c' \<and> rest c' = ys"
    if c: "cursor_ok c" "rest c = (bs1 @ bs2) @ ys" "below n seen" for c q seen ys
  proof -
    from Cons.prems(2) c(3) f have "below m seen" by (auto intro: below_mono)
    with step1[of c "bs2 @ ys" seen q] c obtain c1 seen1 where
      "propLoop target c q seen = propLoop target c1 (upd q) seen1"
      "cursor_ok c1" "rest c1 = bs2 @ ys" "below (Suc m) seen1" by auto
    with step2[of c1 ys seen1 "upd q"] show ?thesis by (simp add: f)
  qed
  with bs1 bs2 show ?case by (intro exI[of _ "bs1 @ bs2"]) simp
qed

lemma if_same: "(if x = y then y else x) = x"
  by simp

lemma propEffects_empty: "fold snd (propEffects p) emptyProperties = p"
  unfolding propEffects_def emptyProperties_def
  by (cases p) (simp only: fold_simps snd_conv Properties.update_convs Properties.select_convs
      append_Nil if_same)

lemma propEffects_sorted: "sorted_wrt (<) (map fst (propEffects p))" "\<forall>f \<in> set (propEffects p). 0 \<le> fst f"
  by (simp_all add: propEffects_def)

lemma runWriters_propLoop:
  assumes "runWriters (propWriters target p) [] = Inr body"
  shows "propLoop target (newCursor body) emptyProperties 0 = Inr p"
proof -
  from runWriters_step[OF propWriters_step propEffects_sorted assms]
  have "\<exists>c' seen'. propLoop target (newCursor body) emptyProperties 0 =
      propLoop target c' (fold snd (propEffects p) emptyProperties) seen' \<and> cursor_ok c' \<and> rest c' = []"
    by (auto simp: below_def)
  then obtain c' seen' where "propLoop target (newCursor body) emptyProperties 0 = propLoop target c' p seen'"
    "cursor_ok c'" "rest c' = []"
    unfolding propEffects_empty by blast
  then show ?thesis
    by (subst (asm) (2) propLoop.simps) (simp add: remaining_rest)
qed

lemma runWriters_empty: "runWriters (propWriters target emptyProperties) [] = Inr []"
  by (simp add: propWriters_def emptyProperties_def writeByteProp_def writeU16Prop_def writeU32Prop_def
      writeStrProp_def writeBinProp_def writeSubIDs_def writeUserProps_def)

lemma runWriters_nil_iff:
  "runWriters (propWriters target p) [] = Inr [] \<longleftrightarrow> p = emptyProperties"
proof
  assume "runWriters (propWriters target p) [] = Inr []"
  from runWriters_propLoop[OF this] show "p = emptyProperties"
    by (subst (asm) propLoop.simps) (simp add: remaining_rest)
qed (simp add: runWriters_empty)

text \<open>Property values that carry nothing decode to the nil pointer.\<close>

definition normProps :: "Properties option \<Rightarrow> Properties option" where
  "normProps p = (if p = Some emptyProperties then None else p)"

lemma encode_decode:
  assumes "encode p buffer target = Inr out"
  obtains bs where "out = buffer @ bs"
    and "\<And>c ys. cursor_ok c \<Longrightarrow> rest c = bs @ ys \<Longrightarrow>
        decodeProperties c target = Inr (normProps p, advance c (length bs))"
proof (cases p)
  case None
  have "varint 0 = [0]" by (subst varint_rec) simp
  then have "readVarint c = Inr (0, advance c 1)" if "cursor_ok c" "rest c = [0] @ ys" for c ys
    using that varint_field.rd_enc[of 0 "[0]" c ys] by (simp add: encVarint_def)
  then have "decodeProperties c target = Inr (None, advance c 1)" if "cursor_ok c" "rest c = [0] @ ys" for c ys
    using decodeProperties_rest[of c 0 "advance c 1" target] that by (simp add: advance_def)
  with assms None that show ?thesis
    by (auto simp: encode_def normProps_def intro: that[of "[0]"])
next
  case (Some q)
  with assms obtain body where body: "runWriters (propWriters target q) [] = Inr body"
    and len: "length body \<le> unat maxVarint"
    and out: "out = buffer @ varint (of_nat (length body)) @ body"
    by (auto simp: encode_def andthen_Inr_iff not_less appendVarint_eq[of buffer] split: if_splits)
  let ?v = "varint (of_nat (length body))"
  have dec: "decodeProperties c target = Inr (normProps p, advance c (length (?v @ body)))"
    if c: "cursor_ok c" "rest c = (?v @ body) @ ys" for c ys
  proof -
    let ?c1 = "advance c (length ?v)"
    have n: "unat (of_nat (length body) :: uint32) = length body"
      using len by (rule unat_of_nat_le_maxVarint)
    then have "encVarint (of_nat (length body)) = Inr ?v"
      using len by (simp add: encVarint_def word_less_nat_alt del: unat_of_nat)
    then have "readVarint c = Inr (of_nat (length body), ?c1)"
      using c by (intro varint_field.rd_enc[where ys = "body @ ys"]) simp_all
    from decodeProperties_rest[OF this c(1), of target, unfolded n] c
    have "decodeProperties c target =
      (if length body = 0 then Inr (None, ?c1)
       else andthen (propLoop target (newCursor body) emptyProperties 0)
          (\<lambda>p. Inr (Some p, advance ?c1 (length body))))"
      by simp
    then show ?thesis
      using runWriters_propLoop[OF body] runWriters_nil_iff[of target q] body Some
      by (auto simp: normProps_def)
  qed
  show ?thesis by (rule that[OF _ dec]) (use out in auto)
qed

lemma encode_app: "encode p b0 target = andthen (encode p [] target) (\<lambda>pb. Inr (b0 @ pb))"
  by (cases p) (simp_all add: encode_def appendVarint_eq[of b0] cong: if_cong)

lemma decodeProperties_encoded:
  assumes "encode p [] target = Inr pb" "cursor_ok c" "rest c = pb @ ys"
  shows "decodeProperties c target = Inr (normProps p, advance c (length pb))"
  by (rule encode_decode[OF assms(1)]) (use assms(2,3) in auto)

lemma encode_nonempty: "encode p [] target = Inr pb \<Longrightarrow> pb \<noteq> []"
  using varint_rec by (auto simp: encode_def andthen_Inr_iff split: option.splits if_splits)

text \<open>The property block of a packet: MQTT 3.1.1 packets carry none.\<close>

definition blockFor :: "Version \<Rightarrow> Properties option \<Rightarrow> propTarget \<Rightarrow> byte list \<Rightarrow> bool" where
  "blockFor v p target pb \<longleftrightarrow> (if v = V50 then encode p [] target = Inr pb else pb = [])"

lemma blockForE:
  assumes "(if v = V50 then encode p b0 target else Inr b0) = Inr body"
  obtains pb where "body = b0 @ pb" "blockFor v p target pb"
  using assms by (auto simp: blockFor_def encode_app[of p b0] andthen_Inr_iff split: if_splits)

section \<open>Errors of a decoder\<close>

text \<open>
  \<open>reads E m\<close>: a step of a decoder fails only with errors of \<open>E\<close> and otherwise leaves the
  cursor inside its buffer; \<open>fails_in E m\<close>: a decoder fails only with errors of \<open>E\<close>.
\<close>

definition reads :: "gerror set \<Rightarrow> gerror + ('a \<times> cursor) \<Rightarrow> bool" where
  "reads E m \<longleftrightarrow> (\<forall>e. m = Inl e \<longrightarrow> e \<in> E) \<and> (\<forall>x c'. m = Inr (x, c') \<longrightarrow> cursor_ok c')"

definition fails_in :: "gerror set \<Rightarrow> gerror + 'a \<Rightarrow> bool" where
  "fails_in E m \<longleftrightarrow> (\<forall>e. m = Inl e \<longrightarrow> e \<in> E)"

lemma reads_sound: "sound c m \<Longrightarrow> ErrMalformedPacket \<in> E \<Longrightarrow> cursor_ok c \<Longrightarrow> reads E m"
  by (auto simp: reads_def sound_def)

lemma reads_Inl: "e \<in> E \<Longrightarrow> reads E (Inl e)"
  and reads_Inr: "cursor_ok c \<Longrightarrow> reads E (Inr (x, c))"
  and reads_if: "(b \<Longrightarrow> reads E m) \<Longrightarrow> (\<not> b \<Longrightarrow> reads E n) \<Longrightarrow> reads E (if b then m else n)"
  by (auto simp: reads_def)

lemma reads_andthen:
  "reads E m \<Longrightarrow> (\<And>x c'. m = Inr (x, c') \<Longrightarrow> cursor_ok c' \<Longrightarrow> reads E (f x c')) \<Longrightarrow>
     reads E (andthen m (\<lambda>(x, c'). f x c'))"
  by (cases m) (auto simp: reads_def)

lemma fails_Inl: "e \<in> E \<Longrightarrow> fails_in E (Inl e)"
  and fails_Inr: "fails_in E (Inr x)"
  and fails_if: "(b \<Longrightarrow> fails_in E m) \<Longrightarrow> (\<not> b \<Longrightarrow> fails_in E n) \<Longrightarrow> fails_in E (if b then m else n)"
  by (auto simp: fails_in_def)

lemma fails_andthen:
  "reads E m \<Longrightarrow> (\<And>x c'. m = Inr (x, c') \<Longrightarrow> cursor_ok c' \<Longrightarrow> fails_in E (f x c')) \<Longrightarrow>
     fails_in E (andthen m (\<lambda>(x, c'). f x c'))"
  by (cases m) (auto simp: reads_def fails_in_def)

lemmas reads_intros = reads_Inl reads_Inr reads_if reads_andthen
  reads_sound[OF sound_fields(1)] reads_sound[OF sound_fields(2)] reads_sound[OF sound_fields(3)]
  reads_sound[OF sound_fields(4)] reads_sound[OF sound_fields(5)] reads_sound[OF sound_fields(6)]
  reads_sound[OF sound_decodeProperties]

lemmas fails_intros = fails_Inl fails_Inr fails_if fails_andthen

text \<open>The errors a decoder for version \<open>v\<close> may return.\<close>

definition decodeErrors :: "Version \<Rightarrow> gerror set" where
  "decodeErrors v = {ErrMalformedPacket} \<union> (if Valid v then {} else {ErrProtocolViolation})"

lemma decodeErrors_simps:
  "ErrMalformedPacket \<in> decodeErrors v"
  "v \<noteq> V311 \<Longrightarrow> v \<noteq> V50 \<Longrightarrow> ErrProtocolViolation \<in> decodeErrors v"
  by (auto simp: decodeErrors_def Valid_def)

section \<open>Sequences of fields\<close>

text \<open>
  \<open>segment rd x bs\<close>: the reader \<open>rd\<close> started at the bytes \<open>bs\<close> consumes exactly them and returns
  \<open>x\<close>, whatever follows. Segments compose along \<^const>\<open>andthen\<close>.
\<close>

definition segment :: "(cursor \<Rightarrow> gerror + ('a \<times> cursor)) \<Rightarrow> 'a \<Rightarrow> byte list \<Rightarrow> bool" where
  "segment rd x bs \<longleftrightarrow>
     (\<forall>c ys. cursor_ok c \<longrightarrow> rest c = bs @ ys \<longrightarrow> rd c = Inr (x, advance c (length bs)))"

lemma segmentD: "segment rd x bs \<Longrightarrow> cursor_ok c \<Longrightarrow> rest c = bs @ ys \<Longrightarrow> rd c = Inr (x, advance c (length bs))"
  by (auto simp: segment_def)

lemma segment_whole:
  assumes "segment rd x bs"
  shows "rd (newCursor bs) = Inr (x, \<lparr>buf = bs, pos = length bs\<rparr>)"
  using segmentD[OF assms, of "newCursor bs" "[]"] by (simp add: advance_newCursor)

lemma segment_return: "segment (\<lambda>c. Inr (x, c)) x []"
  by (auto simp: segment_def advance_def)

lemma segment_bind:
  assumes "segment rd x bs" "segment (f x) y cs"
  shows "segment (\<lambda>c. andthen (rd c) (\<lambda>(x, c). f x c)) y (bs @ cs)"
  unfolding segment_def
proof (intro allI impI)
  fix c ys assume c: "cursor_ok c" "rest c = (bs @ cs) @ ys"
  have "rd c = Inr (x, advance c (length bs))" using segmentD[OF assms(1) c(1)] c(2) by simp
  moreover have "f x (advance c (length bs)) = Inr (y, advance (advance c (length bs)) (length cs))"
    using c by (intro segmentD[OF assms(2), where ys = ys]) (auto intro: cursor_ok_advance)
  ultimately show "andthen (rd c) (\<lambda>(x, c). f x c) = Inr (y, advance c (length (bs @ cs)))"
    by simp
qed

lemma segment_if:
  assumes "b \<Longrightarrow> segment rd x bs" "\<not> b \<Longrightarrow> segment rd' x bs"
  shows "segment (\<lambda>c. if b then rd c else rd' c) x bs"
  using assms by (cases b) simp_all

lemma segment_byte: "segment readByte b [b]"
  using byte_field.rd_enc by (auto simp: segment_def encByte_def)

lemma segment_u16: "segment readUint16 v (be16 v)"
  using u16_field.rd_enc by (auto simp: segment_def encUint16_def)

lemma segment_string: "appendString [] s = Inr bs \<Longrightarrow> segment readString s bs"
  using string_field.rd_enc by (auto simp: segment_def)

lemma segment_binary: "appendBinary [] s = Inr bs \<Longrightarrow> segment readBinary s bs"
  using binary_field.rd_enc by (auto simp: segment_def)

lemma segment_properties:
  "encode p [] target = Inr pb \<Longrightarrow> segment (\<lambda>c. decodeProperties c target) (normProps p) pb"
  using decodeProperties_encoded by (auto simp: segment_def)

text \<open>A field present only under a condition, as the reader and as its bytes.\<close>

definition readIf :: "bool \<Rightarrow> (cursor \<Rightarrow> gerror + ('a \<times> cursor)) \<Rightarrow> 'a \<Rightarrow> cursor \<Rightarrow> gerror + ('a \<times> cursor)" where
  "readIf b rd dflt c = (if b then rd c else Inr (dflt, c))"

lemma segment_readIf:
  assumes "b \<Longrightarrow> segment rd x bs" "\<not> b \<Longrightarrow> x = dflt \<and> bs = []"
  shows "segment (readIf b rd dflt) x bs"
  using assms segment_return by (cases b) (auto simp: readIf_def[abs_def])

lemma segment_block:
  assumes "blockFor v p target pb"
  shows "segment (readIf (v = V50) (\<lambda>c. decodeProperties c target) None)
    (if v = V50 then normProps p else None) pb"
  using assms by (intro segment_readIf) (auto simp: blockFor_def intro: segment_properties)

section \<open>Properties of the property block\<close>

lemma cursor_at: "\<lparr>buf = pre @ ys, pos = length pre\<rparr> = advance (newCursor (pre @ ys)) (length pre)"
  by (simp add: advance_newCursor)

text \<open>
  C7: A property block that was written is read back as written, wherever it stands in the
  packet: for every packet type or will target, \<^verbatim>\<open>decodeProperties\<close> started at the bytes
  \<^verbatim>\<open>encode\<close> appended consumes exactly those bytes and returns the same properties (a block
  without any property comes back as the nil pointer).
\<close>

theorem properties_roundtrip:
  assumes "encode p buffer target = Inr out"
  shows "\<exists>bs. out = buffer @ bs \<and>
    (\<forall>pre ys. decodeProperties \<lparr>buf = pre @ bs @ ys, pos = length pre\<rparr> target =
       Inr (normProps p, \<lparr>buf = pre @ bs @ ys, pos = length pre + length bs\<rparr>))"
proof -
  from encode_decode[OF assms] obtain bs where out: "out = buffer @ bs"
    and dec: "\<And>c ys. cursor_ok c \<Longrightarrow> rest c = bs @ ys \<Longrightarrow>
        decodeProperties c target = Inr (normProps p, advance c (length bs))" by metis
  have "decodeProperties \<lparr>buf = pre @ bs @ ys, pos = length pre\<rparr> target =
       Inr (normProps p, \<lparr>buf = pre @ bs @ ys, pos = length pre + length bs\<rparr>)" for pre ys
    using dec[of "\<lparr>buf = pre @ bs @ ys, pos = length pre\<rparr>" ys]
    by (simp add: cursor_at cursor_ok_advance) (simp add: advance_newCursor)
  with out show ?thesis by blast
qed

definition exampleProps :: Properties where
  "exampleProps = emptyProperties\<lparr>PayloadFormat := Some 1, ContentType := str ''json'',
     SubscriptionIdentifiers := [7, 200], TopicAlias := Some 3,
     UserProperties := [\<lparr>Key = str ''k'', Value = str ''v''\<rparr>, \<lparr>Key = str ''k'', Value = []\<rparr>]\<rparr>"

abbreviation exampleBytes :: "byte list" where
  "exampleBytes \<equiv> [0x1E, 0x01, 0x01, 0x03, 0x00, 0x04, 0x6A, 0x73, 0x6F, 0x6E, 0x0B, 0x07,
     0x0B, 0xC8, 0x01, 0x23, 0x00, 0x03, 0x26, 0x00, 0x01, 0x6B, 0x00, 0x01, 0x76,
     0x26, 0x00, 0x01, 0x6B, 0x00, 0x00]"

theorem properties_roundtrip_witness:
  "encode (Some exampleProps) [0xFF] tgPublish = Inr ([0xFF] @ exampleBytes) \<and>
   decodeProperties \<lparr>buf = [0x00] @ exampleBytes @ [0x55], pos = 1\<rparr> tgPublish =
     Inr (Some exampleProps, \<lparr>buf = [0x00] @ exampleBytes @ [0x55], pos = 32\<rparr>)"
proof -
  have enc: "encode (Some exampleProps) [0xFF] tgPublish = Inr ([0xFF] @ exampleBytes)"
    by code_simp
  have "exampleProps \<noteq> emptyProperties" by (simp add: exampleProps_def emptyProperties_def)
  moreover from properties_roundtrip[OF enc] have
    "\<forall>pre ys. decodeProperties \<lparr>buf = pre @ exampleBytes @ ys, pos = length pre\<rparr> tgPublish =
       Inr (normProps (Some exampleProps),
         \<lparr>buf = pre @ exampleBytes @ ys, pos = length pre + length exampleBytes\<rparr>)"
    by blast
  from spec[OF spec[OF this, of "[0x00]"], of "[0x55]"] enc calculation show ?thesis
    by (simp add: normProps_def)
qed

text \<open>
  Decoding a property block is memory safe and total: from any position inside the packet
  it either fails with \<^verbatim>\<open>ErrMalformedPacket\<close> or returns with the cursor strictly further on,
  still inside the same buffer. No input makes it read out of range or run forever.
\<close>

theorem decodeProperties_safe:
  assumes "i \<le> length b"
  shows "case decodeProperties \<lparr>buf = b, pos = i\<rparr> target of
      Inl e \<Rightarrow> e = ErrMalformedPacket
    | Inr (p, c') \<Rightarrow> buf c' = b \<and> i < pos c' \<and> pos c' \<le> length b"
proof -
  let ?c = "\<lparr>buf = b, pos = i\<rparr>"
  have ok: "cursor_ok ?c" using assms by (simp add: cursor_ok_def)
  have less: "pos ?c < pos c'" if d: "decodeProperties ?c target = Inr (p, c')" for p c'
  proof -
    from d obtain len c1 where c1: "readVarint ?c = Inr (len, c1)"
      by (auto simp: decodeProperties_def andthen_Inr_iff)
    from varint_field.enc_rd[OF this ok] have "pos ?c < pos c1"
      by (auto simp: encVarint_def advance_def varint_rec[of len] split: if_splits)
    moreover have "pos c1 \<le> pos c'"
      using d c1 by (auto simp: decodeProperties_def andthen_Inr_iff Let_def split: if_splits)
    ultimately show ?thesis by simp
  qed
  from sound_decodeProperties[of ?c target] ok less show ?thesis
    by (auto simp: sound_def moves_def cursor_ok_def split: sum.splits)
qed

theorem decodeProperties_safe_witness:
  "(0::nat) \<le> length [0x03, 0x03, 0x00, 0x09 :: byte] \<and>
   decodeProperties \<lparr>buf = [0x03, 0x03, 0x00, 0x09], pos = 0\<rparr> tgPublish = Inl ErrMalformedPacket"
  using decodeProperties_safe[of 0 "[0x03, 0x03, 0x00, 0x09]" tgPublish]
  by code_simp

end
