(* ===== verification/Mqtt_Reason.thy ===== *)
theory Mqtt_Reason
  imports Mqtt_Prelude
begin

text \<open>
  Reason codes (\<^verbatim>\<open>protocol/reason.go\<close>): the named values, their spec names, the failure
  predicate, and the mapping of the MQTT 3.1.1 CONNACK return codes. A Go map is a function to
  an option; a message is its text.
\<close>

type_synonym ReasonCode = byte

abbreviation Success :: ReasonCode where "Success \<equiv> 0x00"
abbreviation NormalDisconnection :: ReasonCode where "NormalDisconnection \<equiv> 0x00"
abbreviation GrantedQoS0 :: ReasonCode where "GrantedQoS0 \<equiv> 0x00"
abbreviation GrantedQoS1 :: ReasonCode where "GrantedQoS1 \<equiv> 0x01"
abbreviation GrantedQoS2 :: ReasonCode where "GrantedQoS2 \<equiv> 0x02"
abbreviation DisconnectWithWillMessage :: ReasonCode where "DisconnectWithWillMessage \<equiv> 0x04"
abbreviation NoMatchingSubscribers :: ReasonCode where "NoMatchingSubscribers \<equiv> 0x10"
abbreviation NoSubscriptionExisted :: ReasonCode where "NoSubscriptionExisted \<equiv> 0x11"
abbreviation ContinueAuthentication :: ReasonCode where "ContinueAuthentication \<equiv> 0x18"
abbreviation ReAuthenticate :: ReasonCode where "ReAuthenticate \<equiv> 0x19"
abbreviation UnspecifiedError :: ReasonCode where "UnspecifiedError \<equiv> 0x80"
abbreviation MalformedPacketReason :: ReasonCode where "MalformedPacketReason \<equiv> 0x81"
abbreviation ProtocolErrorReason :: ReasonCode where "ProtocolErrorReason \<equiv> 0x82"
abbreviation ImplementationSpecificError :: ReasonCode where "ImplementationSpecificError \<equiv> 0x83"
abbreviation UnsupportedProtocolVersion :: ReasonCode where "UnsupportedProtocolVersion \<equiv> 0x84"
abbreviation ClientIdentifierNotValid :: ReasonCode where "ClientIdentifierNotValid \<equiv> 0x85"
abbreviation BadUserNameOrPassword :: ReasonCode where "BadUserNameOrPassword \<equiv> 0x86"
abbreviation NotAuthorized :: ReasonCode where "NotAuthorized \<equiv> 0x87"
abbreviation ServerUnavailable :: ReasonCode where "ServerUnavailable \<equiv> 0x88"
abbreviation ServerBusy :: ReasonCode where "ServerBusy \<equiv> 0x89"
abbreviation Banned :: ReasonCode where "Banned \<equiv> 0x8A"
abbreviation ServerShuttingDown :: ReasonCode where "ServerShuttingDown \<equiv> 0x8B"
abbreviation BadAuthenticationMethod :: ReasonCode where "BadAuthenticationMethod \<equiv> 0x8C"
abbreviation KeepAliveTimeout :: ReasonCode where "KeepAliveTimeout \<equiv> 0x8D"
abbreviation SessionTakenOver :: ReasonCode where "SessionTakenOver \<equiv> 0x8E"
abbreviation TopicFilterInvalid :: ReasonCode where "TopicFilterInvalid \<equiv> 0x8F"
abbreviation TopicNameInvalid :: ReasonCode where "TopicNameInvalid \<equiv> 0x90"
abbreviation PacketIdentifierInUse :: ReasonCode where "PacketIdentifierInUse \<equiv> 0x91"
abbreviation PacketIdentifierNotFound :: ReasonCode where "PacketIdentifierNotFound \<equiv> 0x92"
abbreviation ReceiveMaximumExceeded :: ReasonCode where "ReceiveMaximumExceeded \<equiv> 0x93"
abbreviation TopicAliasInvalid :: ReasonCode where "TopicAliasInvalid \<equiv> 0x94"
abbreviation PacketTooLargeReason :: ReasonCode where "PacketTooLargeReason \<equiv> 0x95"
abbreviation MessageRateTooHigh :: ReasonCode where "MessageRateTooHigh \<equiv> 0x96"
abbreviation QuotaExceeded :: ReasonCode where "QuotaExceeded \<equiv> 0x97"
abbreviation AdministrativeAction :: ReasonCode where "AdministrativeAction \<equiv> 0x98"
abbreviation PayloadFormatInvalid :: ReasonCode where "PayloadFormatInvalid \<equiv> 0x99"
abbreviation RetainNotSupported :: ReasonCode where "RetainNotSupported \<equiv> 0x9A"
abbreviation QoSNotSupported :: ReasonCode where "QoSNotSupported \<equiv> 0x9B"
abbreviation UseAnotherServer :: ReasonCode where "UseAnotherServer \<equiv> 0x9C"
abbreviation ServerMoved :: ReasonCode where "ServerMoved \<equiv> 0x9D"
abbreviation SharedSubscriptionsNotSupported :: ReasonCode where "SharedSubscriptionsNotSupported \<equiv> 0x9E"
abbreviation ConnectionRateExceeded :: ReasonCode where "ConnectionRateExceeded \<equiv> 0x9F"
abbreviation MaximumConnectTime :: ReasonCode where "MaximumConnectTime \<equiv> 0xA0"
abbreviation SubscriptionIdentifiersNotSupported :: ReasonCode where "SubscriptionIdentifiersNotSupported \<equiv> 0xA1"
abbreviation WildcardSubscriptionsNotSupported :: ReasonCode where "WildcardSubscriptionsNotSupported \<equiv> 0xA2"

definition reasonNames :: "ReasonCode \<Rightarrow> string option" where
  "reasonNames c =
     (if c = 0x00 then Some ''Success''
      else if c = 0x01 then Some ''Granted QoS 1''
      else if c = 0x02 then Some ''Granted QoS 2''
      else if c = 0x04 then Some ''Disconnect with Will Message''
      else if c = 0x10 then Some ''No matching subscribers''
      else if c = 0x11 then Some ''No subscription existed''
      else if c = 0x18 then Some ''Continue authentication''
      else if c = 0x19 then Some ''Re-authenticate''
      else if c = 0x80 then Some ''Unspecified error''
      else if c = 0x81 then Some ''Malformed Packet''
      else if c = 0x82 then Some ''Protocol Error''
      else if c = 0x83 then Some ''Implementation specific error''
      else if c = 0x84 then Some ''Unsupported Protocol Version''
      else if c = 0x85 then Some ''Client Identifier not valid''
      else if c = 0x86 then Some ''Bad User Name or Password''
      else if c = 0x87 then Some ''Not authorized''
      else if c = 0x88 then Some ''Server unavailable''
      else if c = 0x89 then Some ''Server busy''
      else if c = 0x8A then Some ''Banned''
      else if c = 0x8B then Some ''Server shutting down''
      else if c = 0x8C then Some ''Bad authentication method''
      else if c = 0x8D then Some ''Keep Alive timeout''
      else if c = 0x8E then Some ''Session taken over''
      else if c = 0x8F then Some ''Topic Filter invalid''
      else if c = 0x90 then Some ''Topic Name invalid''
      else if c = 0x91 then Some ''Packet Identifier in use''
      else if c = 0x92 then Some ''Packet Identifier not found''
      else if c = 0x93 then Some ''Receive Maximum exceeded''
      else if c = 0x94 then Some ''Topic Alias invalid''
      else if c = 0x95 then Some ''Packet too large''
      else if c = 0x96 then Some ''Message rate too high''
      else if c = 0x97 then Some ''Quota exceeded''
      else if c = 0x98 then Some ''Administrative action''
      else if c = 0x99 then Some ''Payload format invalid''
      else if c = 0x9A then Some ''Retain not supported''
      else if c = 0x9B then Some ''QoS not supported''
      else if c = 0x9C then Some ''Use another server''
      else if c = 0x9D then Some ''Server moved''
      else if c = 0x9E then Some ''Shared Subscriptions not supported''
      else if c = 0x9F then Some ''Connection rate exceeded''
      else if c = 0xA0 then Some ''Maximum connect time''
      else if c = 0xA1 then Some ''Subscription Identifiers not supported''
      else if c = 0xA2 then Some ''Wildcard Subscriptions not supported''
      else None)"

definition IsError :: "ReasonCode \<Rightarrow> bool" where
  "IsError c \<longleftrightarrow> 0x80 \<le> c"

text \<open>\<^verbatim>\<open>fmt.Sprintf("%02X", b)\<close>.\<close>

definition hexDigit :: "byte \<Rightarrow> char" where
  "hexDigit d = ''0123456789ABCDEF'' ! unat (d AND 0x0F)"

definition hex2 :: "byte \<Rightarrow> string" where
  "hex2 b = [hexDigit (drop_bit 4 b), hexDigit b]"

definition ReasonCode_String :: "ReasonCode \<Rightarrow> string" where
  "ReasonCode_String c =
     (case reasonNames c of
        Some name \<Rightarrow> name
      | None \<Rightarrow> ''ReasonCode(0x'' @ hex2 c @ '')'')"

definition v3ConnackReason :: "byte \<Rightarrow> ReasonCode option" where
  "v3ConnackReason code =
     (if code = 1 then Some UnsupportedProtocolVersion
      else if code = 2 then Some ClientIdentifierNotValid
      else if code = 3 then Some ServerUnavailable
      else if code = 4 then Some BadUserNameOrPassword
      else if code = 5 then Some NotAuthorized
      else None)"

text \<open>The error's message, \<^const>\<open>None\<close> for a nil error.\<close>

definition V3ConnackError :: "byte \<Rightarrow> string option" where
  "V3ConnackError code =
     (if code = 0 then None
      else case v3ConnackReason code of
          Some rc \<Rightarrow> Some (''mqtt: connection refused: '' @ ReasonCode_String rc)
        | None \<Rightarrow> Some (''mqtt: connection refused with unknown return code 0x'' @ hex2 code))"

lemma v3ConnackReason_IsError: "v3ConnackReason code = Some rc \<Longrightarrow> IsError rc"
  by (auto simp: v3ConnackReason_def IsError_def split: if_splits)

end
