(* ===== verification/Mqtt_Publish.thy ===== *)
theory Mqtt_Publish
  imports Mqtt_Properties Mqtt_Reason
begin

text \<open>
  PUBLISH and the four acknowledgement packets (\<^verbatim>\<open>protocol/publish.go\<close>): both encoders, both
  decoders, that the decoders are total and fail only with the documented errors, and that a
  packet that was encoded is read from the stream and decoded back to the same message.
\<close>

section \<open>PUBLISH\<close>

record PublishPacket =
  pub_Version :: Version
  pub_Topic :: gostring
  pub_Payload :: "byte list"
  pub_QoS :: byte
  pub_Retain :: bool
  pub_Dup :: bool
  pub_PacketID :: uint16
  pub_Properties :: "Properties option"

definition publishHeader :: "bool \<Rightarrow> byte \<Rightarrow> bool \<Rightarrow> byte" where
  "publishHeader dup qos retain =
     (let header = push_bit 4 Publish;
          header = (if dup then header OR 0x08 else header);
          header = header OR push_bit 1 qos
      in if retain then header OR 0x01 else header)"

definition PublishPacket_Encode :: "PublishPacket \<Rightarrow> byte list \<Rightarrow> gerror + byte list" where
  "PublishPacket_Encode p w =
     (if \<not> Valid (pub_Version p) then Inl ErrProtocolViolation
      else if pub_QoS p > 2 then Inl ErrProtocolViolation
      else if pub_QoS p > 0 \<and> pub_PacketID p = 0 then Inl ErrProtocolViolation
      else if pub_QoS p = 0 \<and> pub_Dup p then Inl ErrProtocolViolation
      else
        let header = publishHeader (pub_Dup p) (pub_QoS p) (pub_Retain p) in
        andthen (appendString [] (pub_Topic p)) (\<lambda>body.
        let body = (if pub_QoS p > 0 then body @ be16 (pub_PacketID p) else body) in
        andthen (if pub_Version p = V50 then encode (pub_Properties p) body tgPublish
                 else Inr body) (\<lambda>body.
        writePacket w header (body @ pub_Payload p))))"

text \<open>\<^verbatim>\<open>make\<close> of a negative length and a slice past the end panic.\<close>

definition readRest :: "cursor \<Rightarrow> gerror + (byte list \<times> cursor)" where
  "readRest c =
     (if remaining c < 0 then Inl GoPanic
      else andthen (go_slice (buf c) (pos c) (length (buf c))) (\<lambda>out.
           Inr (out, c\<lparr>pos := length (buf c)\<rparr>)))"

definition DecodePublish :: "Version \<Rightarrow> byte \<Rightarrow> byte list \<Rightarrow> gerror + PublishPacket" where
  "DecodePublish v header body =
     (let flags = header AND 0x0F; qos = drop_bit 1 flags AND 0x03 in
      if qos = 3 then Inl ErrMalformedPacket
      else if qos = 0 \<and> flags AND 0x08 \<noteq> 0 then Inl ErrMalformedPacket
      else
        let p = \<lparr>pub_Version = v, pub_Topic = [], pub_Payload = [], pub_QoS = qos,
                 pub_Retain = (flags AND 0x01 \<noteq> 0), pub_Dup = (flags AND 0x08 \<noteq> 0),
                 pub_PacketID = 0, pub_Properties = None\<rparr>;
            c = newCursor body in
        andthen (readString c) (\<lambda>(topic, c).
        if containsWildcard topic then Inl ErrMalformedPacket
        else
          let p = p\<lparr>pub_Topic := topic\<rparr> in
          andthen
            (if qos > 0 then
               andthen (readUint16 c) (\<lambda>(ident, c).
               if ident = 0 then Inl ErrMalformedPacket
               else Inr (p\<lparr>pub_PacketID := ident\<rparr>, c))
             else Inr (p, c)) (\<lambda>(p, c).
          andthen
            (if v = V311 then Inr (p, c)
             else if v = V50 then
               andthen (decodeProperties c tgPublish) (\<lambda>(props, c).
               Inr (p\<lparr>pub_Properties := props\<rparr>, c))
             else Inl ErrProtocolViolation) (\<lambda>(p, c).
          if topic = [] \<and> (v \<noteq> V50 \<or> (case pub_Properties p of None \<Rightarrow> True
                                        | Some props \<Rightarrow> TopicAlias props = None))
          then Inl ErrMalformedPacket
          else
            andthen (readRest c) (\<lambda>(payload, c).
            Inr (p\<lparr>pub_Payload := payload\<rparr>))))))"

section \<open>Acknowledgements\<close>

record AckPacket =
  ack_Version :: Version
  ack_Type :: PacketType
  ack_PacketID :: uint16
  ack_ReasonCode :: ReasonCode
  ack_Properties :: "Properties option"

definition ackTarget :: "PacketType \<Rightarrow> propTarget option" where
  "ackTarget t =
     (if t = Puback then Some tgPuback
      else if t = Pubrec then Some tgPubrec
      else if t = Pubrel then Some tgPubrel
      else if t = Pubcomp then Some tgPubcomp
      else None)"

definition EncodeAck :: "AckPacket \<Rightarrow> byte list \<Rightarrow> gerror + byte list" where
  "EncodeAck p w =
     (if \<not> Valid (ack_Version p) then Inl ErrProtocolViolation
      else case ackTarget (ack_Type p) of
        None \<Rightarrow> Inl ErrProtocolViolation
      | Some target \<Rightarrow>
          if ack_PacketID p = 0 then Inl ErrProtocolViolation
          else
            let header = push_bit 4 (ack_Type p);
                header = (if ack_Type p = Pubrel then header OR 0x02 else header);
                body = be16 (ack_PacketID p) in
            andthen
              (if ack_Version p = V50 \<and> (ack_ReasonCode p \<noteq> 0 \<or> ack_Properties p \<noteq> None) then
                 let body = body @ [ack_ReasonCode p] in
                 if ack_Properties p \<noteq> None then encode (ack_Properties p) body target
                 else Inr body
               else Inr body) (\<lambda>body.
            writePacket w header body))"

definition DecodeAck :: "Version \<Rightarrow> PacketType \<Rightarrow> byte list \<Rightarrow> gerror + AckPacket" where
  "DecodeAck v t body =
     (case ackTarget t of
        None \<Rightarrow> Inl ErrMalformedPacket
      | Some target \<Rightarrow>
          let p = \<lparr>ack_Version = v, ack_Type = t, ack_PacketID = 0, ack_ReasonCode = Success,
                   ack_Properties = None\<rparr>;
              c = newCursor body in
          andthen (readUint16 c) (\<lambda>(pid, c).
          if pid = 0 then Inl ErrMalformedPacket
          else
            let p = p\<lparr>ack_PacketID := pid\<rparr> in
            if v = V311 then
              (if remaining c \<noteq> 0 then Inl ErrMalformedPacket else Inr p)
            else if v = V50 then
              (if remaining c = 0 then Inr p
               else
                 andthen (readByte c) (\<lambda>(rc, c).
                 let p = p\<lparr>ack_ReasonCode := rc\<rparr> in
                 if remaining c = 0 then Inr p
                 else
                   andthen (decodeProperties c target) (\<lambda>(props, c).
                   let p = p\<lparr>ack_Properties := props\<rparr> in
                   if remaining c \<noteq> 0 then Inl ErrMalformedPacket
                   else Inr p)))
            else Inl ErrProtocolViolation))"

section \<open>The decoders fail only as documented\<close>

lemma readRest_rest:
  "cursor_ok c \<Longrightarrow> readRest c = Inr (rest c, advance c (length (rest c)))"
  by (auto simp: readRest_def remaining_rest go_slice_def cursor_ok_def rest_def advance_def)

lemma reads_readRest: "cursor_ok c \<Longrightarrow> reads E (readRest c)"
  by (auto simp: reads_def readRest_rest cursor_ok_advance)

lemma fails_DecodePublish: "fails_in (decodeErrors v) (DecodePublish v header body)"
  unfolding DecodePublish_def Let_def
  by (intro fails_intros reads_intros reads_readRest) (auto intro: decodeErrors_simps)

lemma fails_DecodeAck: "fails_in (decodeErrors v) (DecodeAck v t body)"
  unfolding DecodeAck_def Let_def
  by (cases "ackTarget t")
     (simp add: fails_in_def decodeErrors_simps,
      simp only: option.case, intro fails_intros reads_intros, auto intro: decodeErrors_simps)

section \<open>Round trips\<close>

lemma publishHeader_flags:
  fixes d r :: bool
  assumes "q \<le> 2"
  defines "h \<equiv> publishHeader d q r"
  shows "drop_bit 1 (h AND 0x0F) AND 0x03 = q" "(h AND 0x0F) AND 0x08 \<noteq> 0 \<longleftrightarrow> d"
    "(h AND 0x0F) AND 0x01 \<noteq> 0 \<longleftrightarrow> r" "drop_bit 4 h = Publish"
  using byte_le_2[OF assms(1)] unfolding h_def publishHeader_def
  by (cases d; cases r; auto simp: Let_def)+

text \<open>
  What the decoder returns for an encoded packet: the packet identifier of a QoS 0 message and
  the properties of an MQTT 3.1.1 message are not on the wire, and an empty property block is
  the nil pointer.
\<close>

definition canonPublish :: "PublishPacket \<Rightarrow> PublishPacket" where
  "canonPublish p = p\<lparr>pub_PacketID := (if pub_QoS p > 0 then pub_PacketID p else 0),
     pub_Properties := (if pub_Version p = V50 then normProps (pub_Properties p) else None)\<rparr>"

text \<open>The topics a PUBLISH may carry: no wildcard, and empty only with a topic alias.\<close>

definition publishTopicOk :: "PublishPacket \<Rightarrow> bool" where
  "publishTopicOk p \<longleftrightarrow> \<not> containsWildcard (pub_Topic p) \<and>
     (pub_Topic p = [] \<longrightarrow> pub_Version p = V50 \<and>
        (\<exists>props a. pub_Properties p = Some props \<and> TopicAlias props = Some a))"

lemma PublishPacket_EncodeE:
  assumes "PublishPacket_Encode p w = Inr out"
  obtains tb pb where "Valid (pub_Version p)" "pub_QoS p \<le> 2" "pub_QoS p > 0 \<Longrightarrow> pub_PacketID p \<noteq> 0"
    "pub_Dup p \<Longrightarrow> pub_QoS p \<noteq> 0" "appendString [] (pub_Topic p) = Inr tb"
    "blockFor (pub_Version p) (pub_Properties p) tgPublish pb"
    "writePacket w (publishHeader (pub_Dup p) (pub_QoS p) (pub_Retain p))
       (tb @ (if pub_QoS p > 0 then be16 (pub_PacketID p) else []) @ pb @ pub_Payload p) = Inr out"
proof -
  let ?idb = "if pub_QoS p > 0 then be16 (pub_PacketID p) else []"
  let ?h = "publishHeader (pub_Dup p) (pub_QoS p) (pub_Retain p)"
  from assms have g: "Valid (pub_Version p)" "pub_QoS p \<le> 2"
    "pub_QoS p > 0 \<Longrightarrow> pub_PacketID p \<noteq> 0" "pub_Dup p \<Longrightarrow> pub_QoS p \<noteq> 0"
    by (auto simp: PublishPacket_Encode_def not_less split: if_splits)
  from assms have "andthen (appendString [] (pub_Topic p)) (\<lambda>tb.
      andthen (if pub_Version p = V50 then encode (pub_Properties p) (tb @ ?idb) tgPublish else Inr (tb @ ?idb))
        (\<lambda>body. writePacket w ?h (body @ pub_Payload p))) = Inr out"
    by (cases "pub_QoS p > 0") (simp_all add: PublishPacket_Encode_def Let_def cong: if_cong split: if_splits)
  then obtain tb body where tb: "appendString [] (pub_Topic p) = Inr tb"
    and enc: "(if pub_Version p = V50 then encode (pub_Properties p) (tb @ ?idb) tgPublish
               else Inr (tb @ ?idb)) = Inr body"
    and wr: "writePacket w ?h (body @ pub_Payload p) = Inr out"
    unfolding andthen_Inr_iff by blast
  from enc obtain pb where "body = (tb @ ?idb) @ pb" "blockFor (pub_Version p) (pub_Properties p) tgPublish pb"
    by (rule blockForE)
  with that[OF g tb, of pb] wr show ?thesis by simp
qed


lemma DecodePublish_encoded:
  assumes "pub_QoS p \<le> 2" "pub_QoS p > 0 \<Longrightarrow> pub_PacketID p \<noteq> 0" "pub_Dup p \<Longrightarrow> pub_QoS p \<noteq> 0"
    and v: "Valid (pub_Version p)" and tb: "appendString [] (pub_Topic p) = Inr tb"
    and pb: "blockFor (pub_Version p) (pub_Properties p) tgPublish pb"
    and ok: "publishTopicOk p"
  shows "DecodePublish (pub_Version p) (publishHeader (pub_Dup p) (pub_QoS p) (pub_Retain p))
      (tb @ (if pub_QoS p > 0 then be16 (pub_PacketID p) else []) @ pb @ pub_Payload p)
    = Inr (canonPublish p)"
proof -
  let ?idb = "if pub_QoS p > 0 then be16 (pub_PacketID p) else []"
  define c where "c = newCursor (tb @ ?idb @ pb @ pub_Payload p)"
  define c1 where "c1 = advance c (length tb)"
  define c2 where "c2 = advance c1 (length ?idb)"
  define c3 where "c3 = advance c2 (length pb)"
  note flags = publishHeader_flags[OF assms(1), of "pub_Dup p" "pub_Retain p"]
  have rest: "rest c = tb @ ?idb @ pb @ pub_Payload p" "rest c1 = ?idb @ pb @ pub_Payload p"
      "rest c2 = pb @ pub_Payload p" "rest c3 = pub_Payload p"
    and cok: "cursor_ok c" "cursor_ok c1" "cursor_ok c2" "cursor_ok c3"
    by (auto simp: c_def c1_def c2_def c3_def intro!: cursor_ok_advance)
  have s: "readString c = Inr (pub_Topic p, c1)"
    unfolding c1_def using string_field.rd_enc[OF tb cok(1) rest(1)] .
  have i: "readUint16 c1 = Inr (pub_PacketID p, c2)" if "pub_QoS p > 0"
    using u16_field.rd_enc[of "pub_PacketID p" "be16 (pub_PacketID p)" c1] cok(2) rest(2) that
    by (simp add: encUint16_def c2_def)
  have d: "decodeProperties c2 tgPublish = Inr (normProps (pub_Properties p), c3)" if "pub_Version p = V50"
    using pb that decodeProperties_encoded[OF _ cok(3) rest(3)] by (auto simp: c3_def blockFor_def)
  have r: "readRest c3 = Inr (pub_Payload p, advance c3 (length (pub_Payload p)))"
    using cok(4) rest(4) by (simp add: readRest_rest)
  have c2: "\<not> pub_QoS p > 0 \<Longrightarrow> c2 = c1" and c3: "pub_Version p = V311 \<Longrightarrow> c3 = c2"
    using pb by (auto simp: blockFor_def c2_def c3_def advance_def split: if_splits)
  have q: "pub_QoS p \<noteq> 3" "pub_QoS p = 0 \<Longrightarrow> \<not> pub_Dup p" "\<not> containsWildcard (pub_Topic p)"
    using byte_le_2[OF assms(1)] assms(3) ok by (auto simp: publishTopicOk_def)
  have al: "pub_Topic p = [] \<Longrightarrow> pub_Version p = V50 \<and>
      (case normProps (pub_Properties p) of None \<Rightarrow> False | Some props \<Rightarrow> TopicAlias props \<noteq> None)"
    using ok by (auto simp: publishTopicOk_def normProps_def emptyProperties_def)
  from v consider "pub_Version p = V311" | "pub_Version p = V50" by (auto simp: Valid_def)
  then show ?thesis
  proof cases
    case 1
    with al have "pub_Topic p \<noteq> []" by auto
    with 1 q s i r c2 c3 assms(2) show ?thesis
      unfolding DecodePublish_def c_def[symmetric] Let_def flags
      by (cases "pub_QoS p > 0") (simp_all add: canonPublish_def)
  next
    case 2
    with al have "pub_Topic p = [] \<Longrightarrow> \<exists>props a. normProps (pub_Properties p) = Some props \<and> TopicAlias props = Some a"
      by (auto split: option.splits)
    with 2 q s i d r c2 assms(2) show ?thesis
      unfolding DecodePublish_def c_def[symmetric] Let_def flags
      by (cases "pub_QoS p > 0") (auto simp: canonPublish_def)
  qed
qed

lemma publish_frame:
  assumes "PublishPacket_Encode p [] = Inr pkt" "publishTopicOk p" "length pkt \<le> unat maxPacketSize"
  shows "\<exists>f. ReadFrame \<lparr>r_bytes = pkt @ ys, r_err = e\<rparr> maxPacketSize = Inr (f, \<lparr>r_bytes = ys, r_err = e\<rparr>) \<and>
    ValidateFlags f = Inr () \<and> packetType (Header f) = Publish \<and>
    DecodePublish (pub_Version p) (Header f) (Body f) = Inr (canonPublish p)"
proof -
  let ?h = "publishHeader (pub_Dup p) (pub_QoS p) (pub_Retain p)"
  from assms(1) obtain tb pb where p: "Valid (pub_Version p)" "pub_QoS p \<le> 2"
    "pub_QoS p > 0 \<Longrightarrow> pub_PacketID p \<noteq> 0" "pub_Dup p \<Longrightarrow> pub_QoS p \<noteq> 0"
    "appendString [] (pub_Topic p) = Inr tb"
    "blockFor (pub_Version p) (pub_Properties p) tgPublish pb"
    and w: "writePacket [] ?h
       (tb @ (if pub_QoS p > 0 then be16 (pub_PacketID p) else []) @ pb @ pub_Payload p) = Inr pkt"
    by (rule PublishPacket_EncodeE) blast
  note flags = publishHeader_flags[OF p(2), of "pub_Dup p" "pub_Retain p"]
  have "pub_QoS p \<noteq> 3" using byte_le_2[OF p(2)] by auto
  then have "ValidateFlags \<lparr>Header = ?h, Body = b\<rparr> = Inr ()" "packetType ?h = Publish" for b
    using flags p(4) by (auto simp: ValidateFlags_def packetType_def Let_def)
  then show ?thesis
    using DecodePublish_encoded[OF p(2,3,4,1,5,6) assms(2)] ReadFrame_written[OF w assms(3), of ys e]
    by (intro exI[of _ "\<lparr>Header = ?h, Body = tb @ (if pub_QoS p > 0 then be16 (pub_PacketID p) else []) @ pb @ pub_Payload p\<rparr>"]) simp
qed

text \<open>
  C17: A PUBLISH survives the wire. Whenever \<^verbatim>\<open>Encode\<close> accepts a packet whose topic is legal for
  a PUBLISH, the receiving side reads exactly one frame from the stream, its flags validate, its
  type is PUBLISH, and \<^verbatim>\<open>DecodePublish\<close> returns the same packet (up to the fields that are not
  transmitted).
\<close>

theorem publish_roundtrip:
  assumes "PublishPacket_Encode p [] = Inr pkt" "publishTopicOk p" "length pkt \<le> unat maxPacketSize"
  shows "\<exists>f. ReadFrame \<lparr>r_bytes = pkt @ ys, r_err = e\<rparr> maxPacketSize = Inr (f, \<lparr>r_bytes = ys, r_err = e\<rparr>) \<and>
    ValidateFlags f = Inr () \<and> packetType (Header f) = Publish \<and>
    DecodePublish (pub_Version p) (Header f) (Body f) = Inr (canonPublish p)"
  by (rule publish_frame[OF assms])


definition examplePublish :: PublishPacket where
  "examplePublish = \<lparr>pub_Version = V50, pub_Topic = str ''a/b'', pub_Payload = [0xDE, 0xAD],
     pub_QoS = 1, pub_Retain = True, pub_Dup = True, pub_PacketID = 10,
     pub_Properties = Some (emptyProperties\<lparr>TopicAlias := Some 3\<rparr>)\<rparr>"

theorem publish_roundtrip_witness:
  "PublishPacket_Encode examplePublish [] =
     Inr [0x3B, 0x0D, 0x00, 0x03, 0x61, 0x2F, 0x62, 0x00, 0x0A, 0x03, 0x23, 0x00, 0x03, 0xDE, 0xAD] \<and>
   (\<exists>f. ReadFrame \<lparr>r_bytes = [0x3B, 0x0D, 0x00, 0x03, 0x61, 0x2F, 0x62, 0x00, 0x0A, 0x03, 0x23, 0x00,
            0x03, 0xDE, 0xAD, 0xC0], r_err = IoEOF\<rparr> 15 = Inr (f, \<lparr>r_bytes = [0xC0], r_err = IoEOF\<rparr>) \<and>
      DecodePublish V50 (Header f) (Body f) = Inr examplePublish)"
proof -
  let ?pkt = "[0x3B, 0x0D, 0x00, 0x03, 0x61, 0x2F, 0x62, 0x00, 0x0A, 0x03, 0x23, 0x00, 0x03, 0xDE, 0xAD] :: byte list"
  have enc: "PublishPacket_Encode examplePublish [] = Inr ?pkt" by code_simp
  have ok: "publishTopicOk examplePublish"
    by (simp add: publishTopicOk_def examplePublish_def str_def containsWildcard_def containsByte_def)
  have canon: "canonPublish examplePublish = examplePublish" "pub_Version examplePublish = V50"
    by (simp_all add: canonPublish_def examplePublish_def normProps_def emptyProperties_def)
  from publish_roundtrip[OF enc ok, of 15 "[0xC0]" IoEOF] obtain f where
    "ReadFrame \<lparr>r_bytes = ?pkt @ [0xC0], r_err = IoEOF\<rparr> 15 = Inr (f, \<lparr>r_bytes = [0xC0], r_err = IoEOF\<rparr>)"
    "DecodePublish V50 (Header f) (Body f) = Inr examplePublish"
    by (auto simp: canon)
  then have "ReadFrame \<lparr>r_bytes = ?pkt @ [0xC0], r_err = IoEOF\<rparr> 15 = Inr (f, \<lparr>r_bytes = [0xC0], r_err = IoEOF\<rparr>) \<and>
      DecodePublish V50 (Header f) (Body f) = Inr examplePublish" by blast
  with enc show ?thesis by (auto intro!: exI[of _ f])
qed

text \<open>What a decoded PUBLISH satisfies.\<close>

definition publishWf :: "Version \<Rightarrow> PublishPacket \<Rightarrow> bool" where
  "publishWf v p \<longleftrightarrow> pub_Version p = v \<and> pub_QoS p \<le> 2 \<and> (pub_QoS p > 0 \<longleftrightarrow> pub_PacketID p \<noteq> 0) \<and>
     (pub_Dup p \<longrightarrow> pub_QoS p > 0) \<and> publishTopicOk p \<and> (v = V311 \<longrightarrow> pub_Properties p = None)"

lemma qos_bits_le: "x AND 3 \<noteq> (3 :: byte) \<Longrightarrow> x AND 3 \<le> 2"
proof -
  assume "x AND 3 \<noteq> 3"
  then have "unat (x AND 3) \<noteq> unat (3 :: byte)" by (simp only: word_unat_eq_iff not_False_eq_True)
  moreover have "unat (x AND 3) \<le> unat (3 :: byte)" using word_and_le1[of x 3] unfolding word_le_nat_alt .
  ultimately show ?thesis by (simp add: word_le_nat_alt)
qed

lemma DecodePublish_wf:
  assumes "DecodePublish v header body = Inr p"
  shows "Valid v \<and> publishWf v p"
  using assms
  by (auto simp: DecodePublish_def Let_def andthen_Inr_iff publishWf_def publishTopicOk_def Valid_def
      qos_bits_le word_gt_0 split: if_splits option.splits)

text \<open>
  C37: \<^verbatim>\<open>DecodePublish\<close> is total on arbitrary bytes. It fails only with
  \<^verbatim>\<open>ErrMalformedPacket\<close>, or with \<^verbatim>\<open>ErrProtocolViolation\<close> for a version the package does not
  implement, and never panics; what it accepts is a legal PUBLISH: QoS at most 2, a packet
  identifier exactly when the QoS is positive, no DUP at QoS 0, no wildcard in the topic, and
  an empty topic only together with a topic alias.
\<close>

theorem DecodePublish_safe:
  "case DecodePublish v header body of
     Inl e \<Rightarrow> e \<in> decodeErrors v
   | Inr p \<Rightarrow> Valid v \<and> publishWf v p"
  using fails_DecodePublish[of v header body] DecodePublish_wf[of v header body]
  by (auto simp: fails_in_def split: sum.splits)

section \<open>Acknowledgement round trip\<close>

definition canonAck :: "AckPacket \<Rightarrow> AckPacket" where
  "canonAck p = p\<lparr>ack_ReasonCode := (if ack_Version p = V50 then ack_ReasonCode p else Success),
     ack_Properties := (if ack_Version p = V50 then normProps (ack_Properties p) else None)\<rparr>"

definition ackHeader :: "PacketType \<Rightarrow> byte" where
  "ackHeader t = (if t = Pubrel then push_bit 4 t OR 0x02 else push_bit 4 t)"

lemma ackHeader_frame:
  assumes "ackTarget t = Some target"
  shows "packetType (ackHeader t) = t" "ValidateFlags \<lparr>Header = ackHeader t, Body = b\<rparr> = Inr ()"
  using assms by (auto simp: ackTarget_def ackHeader_def packetType_def ValidateFlags_def Let_def split: if_splits)

text \<open>The optional tail of an MQTT 5.0 acknowledgement.\<close>

definition ackTail :: "AckPacket \<Rightarrow> propTarget \<Rightarrow> byte list \<Rightarrow> bool" where
  "ackTail p target tail \<longleftrightarrow>
     (if ack_Version p = V50 \<and> (ack_ReasonCode p \<noteq> 0 \<or> ack_Properties p \<noteq> None)
      then (if ack_Properties p = None then tail = [ack_ReasonCode p]
            else \<exists>pb. encode (ack_Properties p) [] target = Inr pb \<and> pb \<noteq> [] \<and> tail = ack_ReasonCode p # pb)
      else tail = [])"

lemma EncodeAckE:
  assumes "EncodeAck p w = Inr out"
  obtains target tail where "Valid (ack_Version p)" "ackTarget (ack_Type p) = Some target"
    "ack_PacketID p \<noteq> 0" "ackTail p target tail"
    "writePacket w (ackHeader (ack_Type p)) (be16 (ack_PacketID p) @ tail) = Inr out"
proof -
  from assms obtain target where g: "Valid (ack_Version p)" "ackTarget (ack_Type p) = Some target"
    "ack_PacketID p \<noteq> 0"
    by (auto simp: EncodeAck_def split: if_splits option.splits)
  let ?b = "be16 (ack_PacketID p)"
  from assms g obtain body where
    body: "(if ack_Version p = V50 \<and> (ack_ReasonCode p \<noteq> 0 \<or> ack_Properties p \<noteq> None) then
        (if ack_Properties p \<noteq> None then encode (ack_Properties p) (?b @ [ack_ReasonCode p]) target
         else Inr (?b @ [ack_ReasonCode p])) else Inr ?b) = Inr body"
    and wr: "writePacket w (ackHeader (ack_Type p)) body = Inr out"
    unfolding EncodeAck_def Let_def ackHeader_def[symmetric] by (simp only: if_False option.case andthen_Inr_iff simp_thms if_True) blast
  have "\<exists>tail. body = ?b @ tail \<and> ackTail p target tail"
  proof (cases "ack_Version p = V50 \<and> ack_Properties p \<noteq> None")
    case True
    with body have "encode (ack_Properties p) (?b @ [ack_ReasonCode p]) target = Inr body" by simp
    then obtain pb where "encode (ack_Properties p) [] target = Inr pb" "body = (?b @ [ack_ReasonCode p]) @ pb"
      unfolding encode_app[of _ "?b @ [ack_ReasonCode p]"] andthen_Inr_iff by auto
    with True encode_nonempty show ?thesis
      by (intro exI[of _ "ack_ReasonCode p # pb"]) (simp add: ackTail_def)
  next
    case False
    with body show ?thesis by (auto simp: ackTail_def split: if_splits)
  qed
  with that g wr show ?thesis by blast
qed

lemma DecodeAck_encoded:
  assumes "Valid (ack_Version p)" "ackTarget (ack_Type p) = Some target" "ack_PacketID p \<noteq> 0"
    and tail: "ackTail p target tail"
  shows "DecodeAck (ack_Version p) (ack_Type p) (be16 (ack_PacketID p) @ tail) = Inr (canonAck p)"
proof -
  define c where "c = newCursor (be16 (ack_PacketID p) @ tail)"
  define c1 where "c1 = advance c 2"
  have c: "cursor_ok c" "rest c = be16 (ack_PacketID p) @ tail" "cursor_ok c1" "rest c1 = tail"
    by (auto simp: c_def c1_def intro!: cursor_ok_advance)
  have i: "readUint16 c = Inr (ack_PacketID p, c1)"
    using u16_field.rd_enc[OF _ c(1,2)] by (simp add: encUint16_def c1_def)
  have rem: "remaining c1 = int (length tail)" using c by (simp add: remaining_rest)
  show ?thesis
  proof (cases tail)
    case Nil
    with assms(1) tail have "canonAck p = p\<lparr>ack_ReasonCode := 0, ack_Properties := None\<rparr>"
      by (auto simp: canonAck_def ackTail_def normProps_def split: if_splits)
    moreover have "remaining c1 = 0" using rem Nil by simp
    ultimately show ?thesis
      unfolding DecodeAck_def Let_def c_def[symmetric] using assms(1-3) i by (auto simp: Valid_def)
  next
    case (Cons rc pb)
    with tail have v: "ack_Version p = V50" and rc: "rc = ack_ReasonCode p"
      by (auto simp: ackTail_def split: if_splits)
    have rem1: "remaining c1 \<noteq> 0" using rem Cons by simp
    define c2 where "c2 = advance c1 1"
    have rb: "readByte c1 = Inr (rc, c2)" and c2: "cursor_ok c2" "rest c2 = pb"
      using c Cons by (auto simp: readByte_rest c2_def intro!: cursor_ok_advance)
    show ?thesis
    proof (cases "ack_Properties p = None")
      case True
      with tail Cons v have "pb = []" by (auto simp: ackTail_def split: if_splits)
      with c2 have "remaining c2 = 0" by (simp add: remaining_rest)
      with True v rc i rb rem1 assms(2,3) show ?thesis
        unfolding DecodeAck_def Let_def c_def[symmetric] by (simp add: canonAck_def normProps_def)
    next
      case False
      with tail Cons v have pb: "encode (ack_Properties p) [] target = Inr pb" "pb \<noteq> []"
        by (auto simp: ackTail_def split: if_splits)
      define c3 where "c3 = advance c2 (length pb)"
      have d: "decodeProperties c2 target = Inr (normProps (ack_Properties p), c3)"
        using decodeProperties_encoded[OF pb(1) c2(1), of "[]"] c2(2) by (simp add: c3_def)
      have "remaining c3 = 0" "remaining c2 \<noteq> 0"
        using c2 pb(2) by (simp_all add: c3_def remaining_rest cursor_ok_advance)
      with d v rc i rb rem1 assms(2,3) show ?thesis
        unfolding DecodeAck_def Let_def c_def[symmetric] by (simp add: canonAck_def)
    qed
  qed
qed

lemma ack_frame:
  assumes "EncodeAck p [] = Inr pkt" "length pkt \<le> unat maxPacketSize"
  shows "\<exists>f. ReadFrame \<lparr>r_bytes = pkt @ ys, r_err = e\<rparr> maxPacketSize = Inr (f, \<lparr>r_bytes = ys, r_err = e\<rparr>) \<and>
    ValidateFlags f = Inr () \<and> packetType (Header f) = ack_Type p \<and>
    DecodeAck (ack_Version p) (ack_Type p) (Body f) = Inr (canonAck p)"
proof -
  from assms(1) obtain target tail where p: "Valid (ack_Version p)" "ackTarget (ack_Type p) = Some target"
    "ack_PacketID p \<noteq> 0" "ackTail p target tail"
    and w: "writePacket [] (ackHeader (ack_Type p)) (be16 (ack_PacketID p) @ tail) = Inr pkt"
    by (rule EncodeAckE)
  show ?thesis
    using ReadFrame_written[OF w assms(2), of ys e] ackHeader_frame[OF p(2)] DecodeAck_encoded[OF p]
    by (intro exI[of _ "\<lparr>Header = ackHeader (ack_Type p), Body = be16 (ack_PacketID p) @ tail\<rparr>"]) simp
qed

text \<open>
  C33: An acknowledgement survives the wire in each of its forms (two bytes, reason code only,
  reason code with properties): whatever \<^verbatim>\<open>EncodeAck\<close> accepts is read back as one frame with
  valid flags and the packet type of the acknowledgement, and \<^verbatim>\<open>DecodeAck\<close> returns the same
  packet identifier, reason code and properties.
\<close>

theorem ack_roundtrip:
  assumes "EncodeAck p [] = Inr pkt" "length pkt \<le> unat maxPacketSize"
  shows "\<exists>f. ReadFrame \<lparr>r_bytes = pkt @ ys, r_err = e\<rparr> maxPacketSize = Inr (f, \<lparr>r_bytes = ys, r_err = e\<rparr>) \<and>
    ValidateFlags f = Inr () \<and> packetType (Header f) = ack_Type p \<and>
    DecodeAck (ack_Version p) (ack_Type p) (Body f) = Inr (canonAck p)"
  by (rule ack_frame[OF assms])

definition exampleAck :: AckPacket where
  "exampleAck = \<lparr>ack_Version = V50, ack_Type = Pubrel, ack_PacketID = 258,
     ack_ReasonCode = PacketIdentifierNotFound, ack_Properties = None\<rparr>"

theorem ack_roundtrip_witness:
  "EncodeAck exampleAck [] = Inr [0x62, 0x03, 0x01, 0x02, 0x92] \<and>
   (\<exists>f. ReadFrame \<lparr>r_bytes = [0x62, 0x03, 0x01, 0x02, 0x92], r_err = IoEOF\<rparr> 5 =
        Inr (f, \<lparr>r_bytes = [], r_err = IoEOF\<rparr>) \<and>
      DecodeAck V50 Pubrel (Body f) = Inr exampleAck)"
proof -
  have enc: "EncodeAck exampleAck [] = Inr [0x62, 0x03, 0x01, 0x02, 0x92]" by code_simp
  have canon: "canonAck exampleAck = exampleAck" "ack_Version exampleAck = V50" "ack_Type exampleAck = Pubrel"
    by (simp_all add: canonAck_def exampleAck_def normProps_def)
  from ack_roundtrip[OF enc, of 5 "[]" IoEOF] enc show ?thesis by (auto simp: canon)
qed

end
