(* ===== verification/Mqtt_Connect.thy ===== *)
theory Mqtt_Connect
  imports Mqtt_Properties Mqtt_Reason
begin

text \<open>
  CONNECT and CONNACK (\<^verbatim>\<open>protocol/connect.go\<close>). The client encodes CONNECT and decodes CONNACK.
  \<open>parseConnect\<close> is the layout of a CONNECT body as the MQTT specifications give it, the
  reference the encoder is proved against.
\<close>

section \<open>CONNECT\<close>

record Will =
  will_Topic :: gostring
  will_Payload :: "byte list"
  will_QoS :: byte
  will_Retain :: bool
  will_Properties :: "Properties option"

record ConnectPacket =
  con_Version :: Version
  con_ClientID :: gostring
  con_KeepAlive :: uint16
  con_Username :: gostring
  con_Password :: gostring
  con_CleanStart :: bool
  con_Will :: "Will option"
  con_Properties :: "Properties option"

definition connectFlags :: "ConnectPacket \<Rightarrow> gerror + byte" where
  "connectFlags p =
     (let flags = 0;
          flags = (if con_Username p \<noteq> [] then flags OR 0x80 else flags);
          flags = (if con_Password p \<noteq> [] then flags OR 0x40 else flags) in
      andthen
        (case con_Will p of
           None \<Rightarrow> Inr flags
         | Some w \<Rightarrow>
             if will_QoS w > 2 then Inl ErrProtocolViolation
             else
               let flags = flags OR 0x04;
                   flags = flags OR push_bit 3 (will_QoS w)
               in Inr (if will_Retain w then flags OR 0x20 else flags)) (\<lambda>flags.
      Inr (if con_CleanStart p then flags OR 0x02 else flags)))"

definition connectBody :: "ConnectPacket \<Rightarrow> gerror + byte list" where
  "connectBody p =
     andthen (appendString [] (str ''MQTT'')) (\<lambda>body.
     let body = body @ [con_Version p] in
     andthen (connectFlags p) (\<lambda>flags.
     let body = body @ [flags];
         body = body @ be16 (con_KeepAlive p) in
     andthen (if con_Version p = V50 then encode (con_Properties p) body tgConnect
              else Inr body) (\<lambda>body.
     andthen (appendString body (con_ClientID p)) (\<lambda>body.
     andthen
       (case con_Will p of
          None \<Rightarrow> Inr body
        | Some will \<Rightarrow>
            andthen (if con_Version p = V50 then encode (will_Properties will) body willBit
                     else Inr body) (\<lambda>body.
            andthen (appendString body (will_Topic will)) (\<lambda>body.
            appendBinary body (will_Payload will)))) (\<lambda>body.
     andthen (if con_Username p \<noteq> [] then appendString body (con_Username p) else Inr body) (\<lambda>body.
     if con_Password p \<noteq> [] then appendBinary body (con_Password p) else Inr body))))))"

definition ConnectPacket_Encode :: "ConnectPacket \<Rightarrow> byte list \<Rightarrow> gerror + byte list" where
  "ConnectPacket_Encode p w =
     (if \<not> Valid (con_Version p) then Inl ErrProtocolViolation
      else
        let hasUser = con_Username p \<noteq> []; hasPass = con_Password p \<noteq> [] in
        if con_Version p = V311 \<and> hasPass \<and> \<not> hasUser then Inl ErrProtocolViolation
        else andthen (connectBody p) (writePacket w (push_bit 4 Connect)))"

section \<open>CONNACK\<close>

record ConnackPacket =
  ca_SessionPresent :: bool
  ca_ReasonCode :: ReasonCode
  ca_Properties :: "Properties option"

definition DecodeConnack :: "Version \<Rightarrow> byte list \<Rightarrow> gerror + ConnackPacket" where
  "DecodeConnack v body =
     andthen (readByte (newCursor body)) (\<lambda>(ackFlags, c).
     if ackFlags AND 0xFE \<noteq> 0 then Inl ErrMalformedPacket
     else
       let p = \<lparr>ca_SessionPresent = (ackFlags AND 0x01 \<noteq> 0), ca_ReasonCode = 0, ca_Properties = None\<rparr> in
       andthen (readByte c) (\<lambda>(rc, c).
       if ca_SessionPresent p \<and> rc \<noteq> 0 then Inl ErrMalformedPacket
       else if v = V311 then
         let p = p\<lparr>ca_ReasonCode := (if rc = 0 then Success
                     else case v3ConnackReason rc of Some code \<Rightarrow> code | None \<Rightarrow> UnspecifiedError)\<rparr> in
         if remaining c \<noteq> 0 then Inl ErrMalformedPacket else Inr p
       else if v = V50 then
         let p = p\<lparr>ca_ReasonCode := rc\<rparr> in
         andthen (decodeProperties c tgConnack) (\<lambda>(props, c).
         let p = p\<lparr>ca_Properties := props\<rparr> in
         if remaining c \<noteq> 0 then Inl ErrMalformedPacket else Inr p)
       else Inl ErrProtocolViolation))"

section \<open>The layout of CONNECT\<close>

definition parseWill :: "Version \<Rightarrow> byte \<Rightarrow> cursor \<Rightarrow> gerror + (Will option \<times> cursor)" where
  "parseWill v flags c =
     andthen (readIf (v = V50) (\<lambda>c. decodeProperties c willBit) None c) (\<lambda>(props, c).
     andthen (readString c) (\<lambda>(topic, c).
     andthen (readBinary c) (\<lambda>(payload, c).
     Inr (Some \<lparr>will_Topic = topic, will_Payload = payload, will_QoS = drop_bit 3 flags AND 0x03,
       will_Retain = (flags AND 0x20 \<noteq> 0), will_Properties = props\<rparr>, c))))"

definition parseConnect :: "cursor \<Rightarrow> gerror + (ConnectPacket \<times> cursor)" where
  "parseConnect c =
     andthen (readString c) (\<lambda>(name, c).
     if name \<noteq> str ''MQTT'' then Inl ErrMalformedPacket else
     andthen (readByte c) (\<lambda>(v, c).
     andthen (readByte c) (\<lambda>(flags, c).
     andthen (readUint16 c) (\<lambda>(keepAlive, c).
     andthen (readIf (v = V50) (\<lambda>c. decodeProperties c tgConnect) None c) (\<lambda>(props, c).
     andthen (readString c) (\<lambda>(clientID, c).
     andthen (readIf (flags AND 0x04 \<noteq> 0) (parseWill v flags) None c) (\<lambda>(will, c).
     andthen (readIf (flags AND 0x80 \<noteq> 0) readString [] c) (\<lambda>(user, c).
     andthen (readIf (flags AND 0x40 \<noteq> 0) readBinary [] c) (\<lambda>(pass, c).
     Inr (\<lparr>con_Version = v, con_ClientID = clientID, con_KeepAlive = keepAlive, con_Username = user,
       con_Password = pass, con_CleanStart = (flags AND 0x02 \<noteq> 0), con_Will = will,
       con_Properties = props\<rparr>, c))))))))))"

section \<open>The encoder writes that layout\<close>

definition optField :: "bool \<Rightarrow> gerror + byte list \<Rightarrow> byte list \<Rightarrow> bool" where
  "optField b enc bs \<longleftrightarrow> (if b then enc = Inr bs else bs = [])"

definition willBytes :: "Version \<Rightarrow> Will option \<Rightarrow> byte list \<Rightarrow> bool" where
  "willBytes v will wb \<longleftrightarrow>
     (case will of None \<Rightarrow> wb = []
      | Some w \<Rightarrow> \<exists>pb tb yb. wb = pb @ tb @ yb \<and> blockFor v (will_Properties w) willBit pb \<and>
          appendString [] (will_Topic w) = Inr tb \<and> appendBinary [] (will_Payload w) = Inr yb)"

lemma appendStringE:
  assumes "appendString b0 s = Inr body"
  obtains bs where "body = b0 @ bs" "appendString [] s = Inr bs"
  using assms unfolding appendString_app[of b0] andthen_Inr_iff by auto

lemma appendBinaryE:
  assumes "appendBinary b0 s = Inr body"
  obtains bs where "body = b0 @ bs" "appendBinary [] s = Inr bs"
  using assms unfolding appendBinary_app[of b0] andthen_Inr_iff by auto

lemma optStringE:
  assumes "(if b then appendString b0 s else Inr b0) = Inr body"
  obtains bs where "body = b0 @ bs" "optField b (appendString [] s) bs"
  using assms by (cases b) (auto simp: optField_def elim: appendStringE)

lemma optBinaryE:
  assumes "(if b then appendBinary b0 s else Inr b0) = Inr body"
  obtains bs where "body = b0 @ bs" "optField b (appendBinary [] s) bs"
  using assms by (cases b) (auto simp: optField_def elim: appendBinaryE)

lemma willBytesE:
  assumes "(case will of None \<Rightarrow> Inr b0 | Some w \<Rightarrow>
      andthen (if v = V50 then encode (will_Properties w) b0 willBit else Inr b0) (\<lambda>body.
      andthen (appendString body (will_Topic w)) (\<lambda>body.
      appendBinary body (will_Payload w)))) = Inr body"
  obtains wb where "body = b0 @ wb" "willBytes v will wb"
proof (cases will)
  case None
  with assms that show ?thesis by (auto simp: willBytes_def)
next
  case (Some w)
  from assms obtain b1 b2 where
    b: "(if v = V50 then encode (will_Properties w) b0 willBit else Inr b0) = Inr b1"
    "appendString b1 (will_Topic w) = Inr b2" "appendBinary b2 (will_Payload w) = Inr body"
    unfolding Some option.case andthen_Inr_iff by blast
  obtain pb where pb: "b1 = b0 @ pb" "blockFor v (will_Properties w) willBit pb"
    using b(1) by (rule blockForE)
  obtain tb where tb: "b2 = b1 @ tb" "appendString [] (will_Topic w) = Inr tb"
    using b(2) by (rule appendStringE)
  obtain yb where yb: "body = b2 @ yb" "appendBinary [] (will_Payload w) = Inr yb"
    using b(3) by (rule appendBinaryE)
  show ?thesis
    by (rule that[of "pb @ tb @ yb"]) (use Some pb tb yb in \<open>auto simp: willBytes_def\<close>)
qed

lemma ConnectPacket_EncodeE:
  assumes "ConnectPacket_Encode p w = Inr out"
  obtains mb flags pb cb wb ub sb where "Valid (con_Version p)"
    "appendString [] (str ''MQTT'') = Inr mb" "connectFlags p = Inr flags"
    "blockFor (con_Version p) (con_Properties p) tgConnect pb"
    "appendString [] (con_ClientID p) = Inr cb" "willBytes (con_Version p) (con_Will p) wb"
    "optField (con_Username p \<noteq> []) (appendString [] (con_Username p)) ub"
    "optField (con_Password p \<noteq> []) (appendBinary [] (con_Password p)) sb"
    "writePacket w (push_bit 4 Connect)
       (mb @ [con_Version p] @ [flags] @ be16 (con_KeepAlive p) @ pb @ cb @ wb @ ub @ sb) = Inr out"
proof -
  from assms obtain b5 where v: "Valid (con_Version p)" and body: "connectBody p = Inr b5"
    and out: "writePacket w (push_bit 4 Connect) b5 = Inr out"
    by (auto simp: ConnectPacket_Encode_def andthen_Inr_iff split: if_splits)
  from body obtain mb flags b1 b2 b3 b4 where
    mb: "appendString [] (str ''MQTT'') = Inr mb" and fl: "connectFlags p = Inr flags"
    and b1: "(if con_Version p = V50 then encode (con_Properties p)
        (((mb @ [con_Version p]) @ [flags]) @ be16 (con_KeepAlive p)) tgConnect
        else Inr (((mb @ [con_Version p]) @ [flags]) @ be16 (con_KeepAlive p))) = Inr b1"
    and b2: "appendString b1 (con_ClientID p) = Inr b2"
    and b3: "(case con_Will p of None \<Rightarrow> Inr b2 | Some will \<Rightarrow>
       andthen (if con_Version p = V50 then encode (will_Properties will) b2 willBit else Inr b2) (\<lambda>body.
       andthen (appendString body (will_Topic will)) (\<lambda>body.
       appendBinary body (will_Payload will)))) = Inr b3"
    and b4: "(if con_Username p \<noteq> [] then appendString b3 (con_Username p) else Inr b3) = Inr b4"
    and b5: "(if con_Password p \<noteq> [] then appendBinary b4 (con_Password p) else Inr b4) = Inr b5"
    unfolding connectBody_def Let_def andthen_Inr_iff by blast
  obtain pb where pb: "b1 = (((mb @ [con_Version p]) @ [flags]) @ be16 (con_KeepAlive p)) @ pb"
      "blockFor (con_Version p) (con_Properties p) tgConnect pb" using b1 by (rule blockForE)
  obtain cb where cb: "b2 = b1 @ cb" "appendString [] (con_ClientID p) = Inr cb" using b2 by (rule appendStringE)
  obtain wb where wb: "b3 = b2 @ wb" "willBytes (con_Version p) (con_Will p) wb" using b3 by (rule willBytesE)
  obtain ub where ub: "b4 = b3 @ ub" "optField (con_Username p \<noteq> []) (appendString [] (con_Username p)) ub"
    using b4 by (rule optStringE)
  obtain sb where sb: "b5 = b4 @ sb" "optField (con_Password p \<noteq> []) (appendBinary [] (con_Password p)) sb"
    using b5 by (rule optBinaryE)
  show ?thesis
    by (rule that[OF v mb fl pb(2) cb(2) wb(2) ub(2) sb(2)]) (use out pb(1) cb(1) wb(1) ub(1) sb(1) in simp)
qed

lemma connectFlags_bits:
  assumes "connectFlags p = Inr flags"
  shows "flags AND 0x80 \<noteq> 0 \<longleftrightarrow> con_Username p \<noteq> []" "flags AND 0x40 \<noteq> 0 \<longleftrightarrow> con_Password p \<noteq> []"
    "flags AND 0x02 \<noteq> 0 \<longleftrightarrow> con_CleanStart p" "flags AND 0x04 \<noteq> 0 \<longleftrightarrow> con_Will p \<noteq> None"
    "flags AND 0x01 = 0"
    "con_Will p = Some w \<Longrightarrow> drop_bit 3 flags AND 0x03 = will_QoS w \<and> (flags AND 0x20 \<noteq> 0 \<longleftrightarrow> will_Retain w)"
proof -
  have "(flags AND 0x80 \<noteq> 0 \<longleftrightarrow> con_Username p \<noteq> []) \<and> (flags AND 0x40 \<noteq> 0 \<longleftrightarrow> con_Password p \<noteq> []) \<and>
    (flags AND 0x02 \<noteq> 0 \<longleftrightarrow> con_CleanStart p) \<and> (flags AND 0x04 \<noteq> 0 \<longleftrightarrow> con_Will p \<noteq> None) \<and>
    flags AND 0x01 = 0 \<and>
    (\<forall>w. con_Will p = Some w \<longrightarrow> drop_bit 3 flags AND 0x03 = will_QoS w \<and> (flags AND 0x20 \<noteq> 0 \<longleftrightarrow> will_Retain w))"
  proof (cases "con_Will p")
    case None
    with assms show ?thesis
      by (cases "con_Username p = []"; cases "con_Password p = []"; cases "con_CleanStart p")
         (auto simp: connectFlags_def Let_def)
  next
    case (Some w)
    with assms have "will_QoS w \<le> 2" by (auto simp: connectFlags_def Let_def andthen_Inr_iff not_less split: if_splits)
    then have "will_QoS w = 0 \<or> will_QoS w = 1 \<or> will_QoS w = 2" by (rule byte_le_2)
    with assms Some show ?thesis
      by (cases "con_Username p = []"; cases "con_Password p = []"; cases "con_CleanStart p"; cases "will_Retain w")
         (auto simp: connectFlags_def Let_def)
  qed
  then show "flags AND 0x80 \<noteq> 0 \<longleftrightarrow> con_Username p \<noteq> []" "flags AND 0x40 \<noteq> 0 \<longleftrightarrow> con_Password p \<noteq> []"
    "flags AND 0x02 \<noteq> 0 \<longleftrightarrow> con_CleanStart p" "flags AND 0x04 \<noteq> 0 \<longleftrightarrow> con_Will p \<noteq> None"
    "flags AND 0x01 = 0"
    "con_Will p = Some w \<Longrightarrow> drop_bit 3 flags AND 0x03 = will_QoS w \<and> (flags AND 0x20 \<noteq> 0 \<longleftrightarrow> will_Retain w)"
    by blast+
qed

text \<open>What is on the wire of a CONNECT: the properties of MQTT 3.1.1 packets are not.\<close>

definition canonWill :: "Version \<Rightarrow> Will \<Rightarrow> Will" where
  "canonWill v w = w\<lparr>will_Properties := (if v = V50 then normProps (will_Properties w) else None)\<rparr>"

definition canonConnect :: "ConnectPacket \<Rightarrow> ConnectPacket" where
  "canonConnect p = p\<lparr>con_Will := map_option (canonWill (con_Version p)) (con_Will p),
     con_Properties := (if con_Version p = V50 then normProps (con_Properties p) else None)\<rparr>"

lemma segment_opt:
  assumes "optField b enc bs" "enc = Inr bs \<Longrightarrow> segment rd x bs" "\<not> b \<Longrightarrow> x = dflt"
  shows "segment (readIf b rd dflt) x bs"
  using assms by (intro segment_readIf) (auto simp: optField_def)

lemma segment_parseWill:
  assumes wb: "willBytes v (Some w) wb"
    and flags: "drop_bit 3 flags AND 0x03 = will_QoS w" "flags AND 0x20 \<noteq> 0 \<longleftrightarrow> will_Retain w"
  shows "segment (parseWill v flags) (Some (canonWill v w)) wb"
proof -
  from wb obtain pb tb yb where wb': "wb = pb @ tb @ yb @ []"
    and b: "blockFor v (will_Properties w) willBit pb" "appendString [] (will_Topic w) = Inr tb"
      "appendBinary [] (will_Payload w) = Inr yb"
    by (auto simp: willBytes_def)
  have w: "Some (canonWill v w) = Some \<lparr>will_Topic = will_Topic w, will_Payload = will_Payload w,
      will_QoS = drop_bit 3 flags AND 0x03, will_Retain = (flags AND 0x20 \<noteq> 0),
      will_Properties = (if v = V50 then normProps (will_Properties w) else None)\<rparr>"
    unfolding flags by (simp add: canonWill_def)
  show ?thesis
    unfolding parseWill_def[abs_def] wb' w
    by (intro segment_bind[OF segment_block[OF b(1)]] segment_bind[OF segment_string[OF b(2)]]
        segment_bind[OF segment_binary[OF b(3)]] segment_return)
qed

lemma segment_parseConnect:
  assumes p: "appendString [] (str ''MQTT'') = Inr mb" "connectFlags p = Inr flags"
    "blockFor (con_Version p) (con_Properties p) tgConnect pb"
    "appendString [] (con_ClientID p) = Inr cb" "willBytes (con_Version p) (con_Will p) wb"
    "optField (con_Username p \<noteq> []) (appendString [] (con_Username p)) ub"
    "optField (con_Password p \<noteq> []) (appendBinary [] (con_Password p)) sb"
  shows "segment parseConnect (canonConnect p)
    (mb @ [con_Version p] @ [flags] @ be16 (con_KeepAlive p) @ pb @ cb @ wb @ ub @ sb @ [])"
proof -
  note fl = connectFlags_bits[OF p(2)]
  have will: "segment (readIf (con_Will p \<noteq> None) (parseWill (con_Version p) flags) None)
      (map_option (canonWill (con_Version p)) (con_Will p)) wb"
  proof (rule segment_readIf)
    assume "con_Will p \<noteq> None"
    then obtain w where w: "con_Will p = Some w" by auto
    with p(5) fl(6)[OF w] show "segment (parseWill (con_Version p) flags)
        (map_option (canonWill (con_Version p)) (con_Will p)) wb"
      by (auto intro: segment_parseWill)
  qed (use p(5) in \<open>simp add: willBytes_def\<close>)
  have user: "segment (readIf (con_Username p \<noteq> []) readString []) (con_Username p) ub"
    by (rule segment_opt[OF p(6)]) (auto intro: segment_string)
  have pass: "segment (readIf (con_Password p \<noteq> []) readBinary []) (con_Password p) sb"
    by (rule segment_opt[OF p(7)]) (auto intro: segment_binary)
  have canon: "canonConnect p = \<lparr>con_Version = con_Version p, con_ClientID = con_ClientID p,
      con_KeepAlive = con_KeepAlive p, con_Username = con_Username p, con_Password = con_Password p,
      con_CleanStart = con_CleanStart p, con_Will = map_option (canonWill (con_Version p)) (con_Will p),
      con_Properties = (if con_Version p = V50 then normProps (con_Properties p) else None)\<rparr>"
    by (simp add: canonConnect_def)
  show ?thesis
    unfolding parseConnect_def[abs_def] canon
    by (rule segment_bind[OF segment_string[OF p(1)]], simp only: not_True_eq_False simp_thms if_False,
        rule segment_bind[OF segment_byte], rule segment_bind[OF segment_byte],
        rule segment_bind[OF segment_u16], rule segment_bind[OF segment_block[OF p(3)]],
        rule segment_bind[OF segment_string[OF p(4)]], unfold fl,
        rule segment_bind[OF will], rule segment_bind[OF user], rule segment_bind[OF pass],
        rule segment_return)
qed

section \<open>Properties\<close>

text \<open>
  C31: A CONNECT carries exactly what the client asked for. Whatever \<^verbatim>\<open>ConnectPacket.Encode\<close>
  accepts is one frame with valid flags and type CONNECT whose body, read with the layout of the
  specification, is the same packet: version, client identifier, keep-alive, credentials, clean
  start, will with its QoS and retain flag, and both property blocks (MQTT 3.1.1 has none), with
  no byte left over.
\<close>

theorem connect_roundtrip:
  assumes "ConnectPacket_Encode p [] = Inr pkt" "length pkt \<le> unat maxPacketSize"
  shows "\<exists>f. ReadFrame \<lparr>r_bytes = pkt @ ys, r_err = e\<rparr> maxPacketSize = Inr (f, \<lparr>r_bytes = ys, r_err = e\<rparr>) \<and>
    ValidateFlags f = Inr () \<and> packetType (Header f) = Connect \<and>
    parseConnect (newCursor (Body f)) = Inr (canonConnect p, \<lparr>buf = Body f, pos = length (Body f)\<rparr>)"
proof -
  from assms(1) obtain mb flags pb cb wb ub sb where v: "Valid (con_Version p)"
    and p: "appendString [] (str ''MQTT'') = Inr mb" "connectFlags p = Inr flags"
      "blockFor (con_Version p) (con_Properties p) tgConnect pb"
      "appendString [] (con_ClientID p) = Inr cb" "willBytes (con_Version p) (con_Will p) wb"
      "optField (con_Username p \<noteq> []) (appendString [] (con_Username p)) ub"
      "optField (con_Password p \<noteq> []) (appendBinary [] (con_Password p)) sb"
    and w: "writePacket [] (push_bit 4 Connect)
       (mb @ [con_Version p] @ [flags] @ be16 (con_KeepAlive p) @ pb @ cb @ wb @ ub @ sb) = Inr pkt"
    by (rule ConnectPacket_EncodeE)
  let ?body = "mb @ [con_Version p] @ [flags] @ be16 (con_KeepAlive p) @ pb @ cb @ wb @ ub @ sb"
  have "parseConnect (newCursor ?body) = Inr (canonConnect p, \<lparr>buf = ?body, pos = length ?body\<rparr>)"
    using segment_whole[OF segment_parseConnect[OF p]] by simp
  moreover have "ValidateFlags \<lparr>Header = push_bit 4 Connect, Body = b\<rparr> = Inr ()" for b
    by (simp add: ValidateFlags_def packetType_def Let_def)
  ultimately show ?thesis
    using ReadFrame_written[OF w assms(2), of ys e]
    by (intro exI[of _ "\<lparr>Header = push_bit 4 Connect, Body = ?body\<rparr>"]) (simp add: packetType_def)
qed

definition exampleConnect :: ConnectPacket where
  "exampleConnect = \<lparr>con_Version = V50, con_ClientID = str ''id'', con_KeepAlive = 60,
     con_Username = str ''u'', con_Password = str ''p'', con_CleanStart = True,
     con_Will = Some \<lparr>will_Topic = str ''w'', will_Payload = [0x01], will_QoS = 1, will_Retain = True,
       will_Properties = None\<rparr>,
     con_Properties = Some (emptyProperties\<lparr>ReceiveMaximum := Some 20\<rparr>)\<rparr>"

abbreviation exampleConnectBytes :: "byte list" where
  "exampleConnectBytes \<equiv> [0x10, 0x1F, 0x00, 0x04, 0x4D, 0x51, 0x54, 0x54, 0x05, 0xEE, 0x00, 0x3C,
     0x03, 0x21, 0x00, 0x14, 0x00, 0x02, 0x69, 0x64, 0x00, 0x00, 0x01, 0x77, 0x00, 0x01, 0x01,
     0x00, 0x01, 0x75, 0x00, 0x01, 0x70]"

theorem connect_roundtrip_witness:
  "ConnectPacket_Encode exampleConnect [] = Inr exampleConnectBytes \<and>
   (\<exists>f. ReadFrame \<lparr>r_bytes = exampleConnectBytes, r_err = IoEOF\<rparr> 33 = Inr (f, \<lparr>r_bytes = [], r_err = IoEOF\<rparr>) \<and>
      parseConnect (newCursor (Body f)) = Inr (exampleConnect, \<lparr>buf = Body f, pos = length (Body f)\<rparr>))"
proof -
  have enc: "ConnectPacket_Encode exampleConnect [] = Inr exampleConnectBytes" by code_simp
  have canon: "canonConnect exampleConnect = exampleConnect"
    by (simp add: canonConnect_def canonWill_def exampleConnect_def normProps_def emptyProperties_def)
  from connect_roundtrip[OF enc, of 33 "[]" IoEOF] enc show ?thesis
    unfolding canon by auto
qed

lemma flag_bits: "f AND 0xFE = 0 \<longleftrightarrow> f = 0 \<or> f = (1 :: byte)"
proof
  assume "f AND 0xFE = 0"
  moreover have "(0xFE :: byte) = NOT 1" by simp
  moreover have "f = (f AND NOT 1) OR (f AND 1)" by (rule bit_word_eqI) (auto simp: bit_simps)
  ultimately have "f = f AND 1" by simp
  then show "f = 0 \<or> f = 1" by (metis and_one_eq mod_2_eq_odd of_bool_def)
qed auto

text \<open>The acceptance rule of the acknowledge flags, shared by both versions.\<close>

definition connackFlagsOk :: "byte \<Rightarrow> byte \<Rightarrow> bool" where
  "connackFlagsOk f rc \<longleftrightarrow> f = 0 \<or> f = 1 \<and> rc = 0"

definition v3Reason :: "byte \<Rightarrow> ReasonCode" where
  "v3Reason rc = (if rc = 0 then Success
     else case v3ConnackReason rc of Some code \<Rightarrow> code | None \<Rightarrow> UnspecifiedError)"

lemma fails_DecodeConnack: "fails_in (decodeErrors v) (DecodeConnack v body)"
  unfolding DecodeConnack_def Let_def
  by (intro fails_intros reads_intros) (auto intro: decodeErrors_simps)

text \<open>
  The MQTT 3.1.1 CONNACK is decoded exactly: a body is accepted if and only if it is two
  bytes with no reserved flag bit set and session present only on success, and the return code
  is mapped to its MQTT 5.0 equivalent, unknown ones to \<^verbatim>\<open>UnspecifiedError\<close>.
\<close>

theorem connack_v311_exact:
  "DecodeConnack V311 body = Inr p \<longleftrightarrow>
     (\<exists>f rc. body = [f, rc] \<and> connackFlagsOk f rc \<and>
        p = \<lparr>ca_SessionPresent = (f = 1), ca_ReasonCode = v3Reason rc, ca_Properties = None\<rparr>)"
  unfolding DecodeConnack_def Let_def
  by (cases body; cases "tl body")
     (auto simp: readByte_rest remaining_rest cursor_ok_advance flag_bits connackFlagsOk_def v3Reason_def split: if_splits)

text \<open>
  C35: The MQTT 5.0 CONNACK delivers the server's answer: with any property block the codec can
  write for a CONNACK, the decoder returns reason code, session flag and properties as sent, and
  refuses exactly the packets with reserved flag bits or with session present on a refusal.
\<close>

theorem connack_v50_delivers:
  assumes "encode props [] tgConnack = Inr pb"
  shows "DecodeConnack V50 (f # rc # pb) =
    (if connackFlagsOk f rc
     then Inr \<lparr>ca_SessionPresent = (f = 1), ca_ReasonCode = rc, ca_Properties = normProps props\<rparr>
     else Inl ErrMalformedPacket)"
proof -
  let ?c = "advance (advance (newCursor (f # rc # pb)) 1) 1"
  have "decodeProperties ?c tgConnack = Inr (normProps props, advance ?c (length pb))"
    using decodeProperties_encoded[OF assms, of ?c "[]"] by (simp add: cursor_ok_advance)
  then show ?thesis
    unfolding DecodeConnack_def Let_def
    by (auto simp: readByte_rest remaining_rest cursor_ok_advance flag_bits connackFlagsOk_def)
qed

theorem connack_v50_delivers_witness:
  "encode (Some (emptyProperties\<lparr>ReceiveMaximum := Some 20\<rparr>)) [] tgConnack = Inr [0x03, 0x21, 0x00, 0x14] \<and>
   DecodeConnack V50 [0x01, 0x00, 0x03, 0x21, 0x00, 0x14] =
     Inr \<lparr>ca_SessionPresent = True, ca_ReasonCode = Success,
       ca_Properties = Some (emptyProperties\<lparr>ReceiveMaximum := Some 20\<rparr>)\<rparr> \<and>
   DecodeConnack V50 [0x01, 0x87, 0x03, 0x21, 0x00, 0x14] = Inl ErrMalformedPacket"
proof -
  have enc: "encode (Some (emptyProperties\<lparr>ReceiveMaximum := Some 20\<rparr>)) [] tgConnack = Inr [0x03, 0x21, 0x00, 0x14]"
    by code_simp
  show ?thesis
    using enc connack_v50_delivers[OF enc, of 1 0] connack_v50_delivers[OF enc, of 1 "0x87"]
    by (simp add: connackFlagsOk_def normProps_def emptyProperties_def)
qed

end
