(* ===== verification/Mqtt_Control.thy ===== *)
theory Mqtt_Control
  imports Mqtt_Properties Mqtt_Reason
begin

text \<open>
  PINGREQ, PINGRESP, DISCONNECT and AUTH (\<^verbatim>\<open>protocol/control.go\<close>).
\<close>

definition EncodePingReq :: "byte list \<Rightarrow> gerror + byte list" where
  "EncodePingReq w = writePacket w (push_bit 4 Pingreq) []"

definition EncodePingResp :: "byte list \<Rightarrow> gerror + byte list" where
  "EncodePingResp w = writePacket w (push_bit 4 Pingresp) []"

record DisconnectPacket =
  dis_Version :: Version
  dis_ReasonCode :: ReasonCode
  dis_Properties :: "Properties option"

definition DisconnectPacket_Encode :: "DisconnectPacket \<Rightarrow> byte list \<Rightarrow> gerror + byte list" where
  "DisconnectPacket_Encode p w =
     (if dis_Version p = V311 then writePacket w (push_bit 4 Disconnect) []
      else if dis_Version p = V50 then
        (if dis_ReasonCode p = 0 \<and> dis_Properties p = None
         then writePacket w (push_bit 4 Disconnect) []
         else
           andthen (encode (dis_Properties p) [dis_ReasonCode p] tgDisconnect) (\<lambda>body.
           writePacket w (push_bit 4 Disconnect) body))
      else Inl ErrProtocolViolation)"

definition DecodeDisconnect :: "Version \<Rightarrow> byte list \<Rightarrow> gerror + DisconnectPacket" where
  "DecodeDisconnect v body =
     (let p = \<lparr>dis_Version = v, dis_ReasonCode = 0, dis_Properties = None\<rparr> in
      if v = V311 then
        (if length body \<noteq> 0 then Inl ErrMalformedPacket
         else Inr (p\<lparr>dis_ReasonCode := NormalDisconnection\<rparr>))
      else if v = V50 then
        (let c = newCursor body in
         if remaining c = 0 then Inr (p\<lparr>dis_ReasonCode := NormalDisconnection\<rparr>)
         else
           andthen (readByte c) (\<lambda>(rc, c).
           let p = p\<lparr>dis_ReasonCode := rc\<rparr> in
           if remaining c = 0 then Inr p
           else
             andthen (decodeProperties c tgDisconnect) (\<lambda>(props, c).
             let p = p\<lparr>dis_Properties := props\<rparr> in
             if remaining c \<noteq> 0 then Inl ErrMalformedPacket else Inr p)))
      else Inl ErrProtocolViolation)"

record AuthPacket =
  auth_ReasonCode :: ReasonCode
  auth_Properties :: "Properties option"

definition DecodeAuth :: "byte list \<Rightarrow> gerror + AuthPacket" where
  "DecodeAuth body =
     (let p = \<lparr>auth_ReasonCode = 0, auth_Properties = None\<rparr>; c = newCursor body in
      if remaining c = 0 then Inr (p\<lparr>auth_ReasonCode := Success\<rparr>)
      else
        andthen (readByte c) (\<lambda>(rc, c).
        let p = p\<lparr>auth_ReasonCode := rc\<rparr> in
        if remaining c = 0 then Inr p
        else
          andthen (decodeProperties c tgAuth) (\<lambda>(props, c).
          let p = p\<lparr>auth_Properties := props\<rparr> in
          if remaining c \<noteq> 0 then Inl ErrMalformedPacket else Inr p)))"

section \<open>Errors\<close>

lemma fails_DecodeDisconnect: "fails_in (decodeErrors v) (DecodeDisconnect v body)"
  unfolding DecodeDisconnect_def Let_def
  by (intro fails_intros reads_intros) (auto intro: decodeErrors_simps)

lemma fails_DecodeAuth: "fails_in {ErrMalformedPacket} (DecodeAuth body)"
  unfolding DecodeAuth_def Let_def
  by (intro fails_intros reads_intros) auto

section \<open>Round trips\<close>

lemma reason_block_tail:
  fixes rc :: byte
  assumes "encode props [] target = Inr pb"
  defines "c \<equiv> advance (newCursor (rc # pb)) 1"
  shows "readByte (newCursor (rc # pb)) = Inr (rc, c)" "remaining c \<noteq> 0"
    "\<exists>c'. decodeProperties c target = Inr (normProps props, c') \<and> remaining c' = 0"
proof -
  have c: "cursor_ok c" "rest c = pb" by (auto simp: c_def intro!: cursor_ok_advance)
  show "readByte (newCursor (rc # pb)) = Inr (rc, c)" by (simp add: readByte_rest c_def)
  show "remaining c \<noteq> 0" using c encode_nonempty[OF assms(1)] by (simp add: remaining_rest)
  show "\<exists>c'. decodeProperties c target = Inr (normProps props, c') \<and> remaining c' = 0"
    using decodeProperties_encoded[OF assms(1) c(1), of "[]"] c
    by (simp add: remaining_rest cursor_ok_advance)
qed

definition canonDisconnect :: "DisconnectPacket \<Rightarrow> DisconnectPacket" where
  "canonDisconnect p =
     (if dis_Version p = V50 then p\<lparr>dis_Properties := normProps (dis_Properties p)\<rparr>
      else p\<lparr>dis_ReasonCode := NormalDisconnection, dis_Properties := None\<rparr>)"

lemma DisconnectPacket_EncodeE:
  assumes "DisconnectPacket_Encode p w = Inr out"
  obtains body where "writePacket w (push_bit 4 Disconnect) body = Inr out"
    "DecodeDisconnect (dis_Version p) body = Inr (canonDisconnect p)"
proof (cases "dis_Version p = V50 \<and> \<not> (dis_ReasonCode p = 0 \<and> dis_Properties p = None)")
  case True
  with assms obtain pb where pb: "encode (dis_Properties p) [] tgDisconnect = Inr pb"
    and w: "writePacket w (push_bit 4 Disconnect) (dis_ReasonCode p # pb) = Inr out"
    by (auto simp: DisconnectPacket_Encode_def encode_app[of _ "[_]"] andthen_Inr_iff)
  obtain c' where "decodeProperties (advance (newCursor (dis_ReasonCode p # pb)) 1) tgDisconnect
      = Inr (normProps (dis_Properties p), c')" "remaining c' = 0"
    using reason_block_tail(3)[OF pb] by blast
  then have "DecodeDisconnect (dis_Version p) (dis_ReasonCode p # pb) = Inr (canonDisconnect p)"
    using True reason_block_tail(1,2)[OF pb, of "dis_ReasonCode p"]
    unfolding DecodeDisconnect_def Let_def
    by (simp add: remaining_rest canonDisconnect_def)
  with w that show ?thesis by blast
next
  case False
  with assms have w: "writePacket w (push_bit 4 Disconnect) [] = Inr out"
    and v: "dis_Version p = V311 \<or> dis_Version p = V50 \<and> dis_ReasonCode p = 0 \<and> dis_Properties p = None"
    by (auto simp: DisconnectPacket_Encode_def split: if_splits)
  from v have "DecodeDisconnect (dis_Version p) [] = Inr (canonDisconnect p)"
    by (auto simp: DecodeDisconnect_def remaining_rest canonDisconnect_def normProps_def)
  with w that show ?thesis by blast
qed

text \<open>
  A DISCONNECT survives the wire in every form: what \<^verbatim>\<open>DisconnectPacket.Encode\<close> accepts is
  read back as one DISCONNECT frame with valid flags and \<^verbatim>\<open>DecodeDisconnect\<close> returns the same
  reason code and properties (an MQTT 3.1.1 DISCONNECT carries neither).
\<close>

theorem disconnect_roundtrip:
  assumes "DisconnectPacket_Encode p [] = Inr pkt" "length pkt \<le> unat maxPacketSize"
  shows "\<exists>f. ReadFrame \<lparr>r_bytes = pkt @ ys, r_err = e\<rparr> maxPacketSize = Inr (f, \<lparr>r_bytes = ys, r_err = e\<rparr>) \<and>
    ValidateFlags f = Inr () \<and> packetType (Header f) = Disconnect \<and>
    DecodeDisconnect (dis_Version p) (Body f) = Inr (canonDisconnect p)"
proof -
  from assms(1) obtain body where w: "writePacket [] (push_bit 4 Disconnect) body = Inr pkt"
    and d: "DecodeDisconnect (dis_Version p) body = Inr (canonDisconnect p)"
    by (rule DisconnectPacket_EncodeE)
  have "ValidateFlags \<lparr>Header = push_bit 4 Disconnect, Body = body\<rparr> = Inr ()"
    by (simp add: ValidateFlags_def packetType_def Let_def)
  with d show ?thesis
    using ReadFrame_written[OF w assms(2), of ys e]
    by (intro exI[of _ "\<lparr>Header = push_bit 4 Disconnect, Body = body\<rparr>"]) (simp add: packetType_def)
qed

theorem disconnect_roundtrip_witness:
  "DisconnectPacket_Encode \<lparr>dis_Version = V50, dis_ReasonCode = ServerBusy, dis_Properties = None\<rparr> [] =
     Inr [0xE0, 0x02, 0x89, 0x00] \<and>
   (\<exists>f. ReadFrame \<lparr>r_bytes = [0xE0, 0x02, 0x89, 0x00], r_err = IoEOF\<rparr> 100 =
        Inr (f, \<lparr>r_bytes = [], r_err = IoEOF\<rparr>) \<and>
      DecodeDisconnect V50 (Body f) =
        Inr \<lparr>dis_Version = V50, dis_ReasonCode = ServerBusy, dis_Properties = None\<rparr>)"
proof -
  let ?p = "\<lparr>dis_Version = V50, dis_ReasonCode = ServerBusy, dis_Properties = None\<rparr>"
  have enc: "DisconnectPacket_Encode ?p [] = Inr [0xE0, 0x02, 0x89, 0x00]" by code_simp
  have canon: "canonDisconnect ?p = ?p" by (simp add: canonDisconnect_def normProps_def)
  from disconnect_roundtrip[OF enc, of 100 "[]" IoEOF] enc show ?thesis
    unfolding canon by auto
qed

end
