(* ===== verification/Mqtt_Subscribe.thy ===== *)
theory Mqtt_Subscribe
  imports Mqtt_Properties Mqtt_Reason
begin

text \<open>
  SUBSCRIBE, SUBACK, UNSUBSCRIBE and UNSUBACK (\<^verbatim>\<open>protocol/subscribe.go\<close>). The client encodes the
  requests and decodes the acknowledgements; \<open>parseSubscribe\<close> and \<open>parseUnsubscribe\<close> are the
  layouts the MQTT specifications give for the requests, the reference for the encoders.
\<close>

section \<open>SUBSCRIBE\<close>

record SubscribeOptions =
  so_QoS :: byte
  so_NoLocal :: bool
  so_RetainAsPublished :: bool
  so_RetainHandling :: byte

definition subscribeOptionsByte :: "Version \<Rightarrow> SubscribeOptions \<Rightarrow> gerror + byte" where
  "subscribeOptionsByte v o' =
     (if so_QoS o' > 2 then Inl ErrProtocolViolation
      else
        let b = so_QoS o' in
        if v = V50 then
          (let b = (if so_NoLocal o' then b OR 0x04 else b);
               b = (if so_RetainAsPublished o' then b OR 0x08 else b) in
           if so_RetainHandling o' > 2 then Inl ErrProtocolViolation
           else Inr (b OR push_bit 4 (so_RetainHandling o')))
        else Inr b)"

record Subscription =
  sub_Filter :: gostring
  sub_Options :: SubscribeOptions

record SubscribePacket =
  sp_Version :: Version
  sp_PacketID :: uint16
  sp_Subscriptions :: "Subscription list"
  sp_Properties :: "Properties option"

fun appendSubscriptions :: "Version \<Rightarrow> Subscription list \<Rightarrow> byte list \<Rightarrow> gerror + byte list" where
  "appendSubscriptions v [] body = Inr body"
| "appendSubscriptions v (sub # subs) body =
     andthen (appendString body (sub_Filter sub)) (\<lambda>body.
     andthen (subscribeOptionsByte v (sub_Options sub)) (\<lambda>opt.
     appendSubscriptions v subs (body @ [opt])))"

definition SubscribePacket_Encode :: "SubscribePacket \<Rightarrow> byte list \<Rightarrow> gerror + byte list" where
  "SubscribePacket_Encode p w =
     (if \<not> Valid (sp_Version p) then Inl ErrProtocolViolation
      else if sp_PacketID p = 0 then Inl ErrProtocolViolation
      else if length (sp_Subscriptions p) = 0 then Inl ErrProtocolViolation
      else
        let body = be16 (sp_PacketID p) in
        andthen (if sp_Version p = V50 then encode (sp_Properties p) body tgSubscribe
                 else Inr body) (\<lambda>body.
        andthen (appendSubscriptions (sp_Version p) (sp_Subscriptions p) body) (\<lambda>body.
        writePacket w (push_bit 4 Subscribe OR 0x02) body)))"

section \<open>SUBACK\<close>

record SubackPacket =
  sa_PacketID :: uint16
  sa_ReasonCodes :: "ReasonCode list"
  sa_Properties :: "Properties option"

text \<open>The Go maps to \<^verbatim>\<open>true\<close> are sets; an absent key reads as false.\<close>

definition subackReasonV311 :: "byte set" where
  "subackReasonV311 = {0x00, 0x01, 0x02, 0x80}"

definition subackReasonV50 :: "byte set" where
  "subackReasonV50 = {0x00, 0x01, 0x02, 0x80, 0x83, 0x87, 0x8F, 0x91, 0x97, 0x9E, 0xA1, 0xA2}"

definition unsubackReasonV50 :: "byte set" where
  "unsubackReasonV50 = {0x00, 0x11, 0x80, 0x83, 0x87, 0x8F, 0x91}"

text \<open>The loop that reads reason codes until the body is exhausted.\<close>

function readReasons :: "byte set \<Rightarrow> cursor \<Rightarrow> ReasonCode list \<Rightarrow> gerror + (ReasonCode list \<times> cursor)" where
  "readReasons allowed c codes =
     (if remaining c > 0 then
        andthen (readByte c) (\<lambda>(rc, c).
        if rc \<notin> allowed then Inl ErrMalformedPacket
        else readReasons allowed c (codes @ [rc]))
      else Inr (codes, c))"
  by pat_completeness auto
termination readReasons
proof (relation "measure (\<lambda>(_, c, _). nat (remaining c))", goal_cases)
  case (2 allowed c codes x rc c')
  then have "remaining c' < remaining c" using moves_readByte by auto
  with 2(1) show ?case by auto
qed simp

declare readReasons.simps [simp del]

definition DecodeSuback :: "Version \<Rightarrow> byte list \<Rightarrow> gerror + SubackPacket" where
  "DecodeSuback v body =
     andthen (readUint16 (newCursor body)) (\<lambda>(pid, c).
     if pid = 0 then Inl ErrMalformedPacket
     else
       andthen
         (if v = V311 then Inr (None, c)
          else if v = V50 then decodeProperties c tgSuback
          else Inl ErrProtocolViolation) (\<lambda>(props, c).
       if remaining c = 0 then Inl ErrMalformedPacket
       else
         let allowed = (if v = V311 then subackReasonV311 else subackReasonV50) in
         andthen (readReasons allowed c []) (\<lambda>(codes, c).
         Inr \<lparr>sa_PacketID = pid, sa_ReasonCodes = codes, sa_Properties = props\<rparr>)))"

section \<open>UNSUBSCRIBE and UNSUBACK\<close>

record UnsubscribePacket =
  up_Version :: Version
  up_PacketID :: uint16
  up_Filters :: "gostring list"
  up_Properties :: "Properties option"

fun appendFilters :: "gostring list \<Rightarrow> byte list \<Rightarrow> gerror + byte list" where
  "appendFilters [] body = Inr body"
| "appendFilters (f # filters) body =
     andthen (appendString body f) (\<lambda>body. appendFilters filters body)"

definition UnsubscribePacket_Encode :: "UnsubscribePacket \<Rightarrow> byte list \<Rightarrow> gerror + byte list" where
  "UnsubscribePacket_Encode p w =
     (if \<not> Valid (up_Version p) then Inl ErrProtocolViolation
      else if up_PacketID p = 0 then Inl ErrProtocolViolation
      else if length (up_Filters p) = 0 then Inl ErrProtocolViolation
      else
        let body = be16 (up_PacketID p) in
        andthen (if up_Version p = V50 then encode (up_Properties p) body tgUnsubscribe
                 else Inr body) (\<lambda>body.
        andthen (appendFilters (up_Filters p) body) (\<lambda>body.
        writePacket w (push_bit 4 Unsubscribe OR 0x02) body)))"

record UnsubackPacket =
  ua_PacketID :: uint16
  ua_ReasonCodes :: "ReasonCode list"
  ua_Properties :: "Properties option"

definition DecodeUnsuback :: "Version \<Rightarrow> byte list \<Rightarrow> gerror + UnsubackPacket" where
  "DecodeUnsuback v body =
     andthen (readUint16 (newCursor body)) (\<lambda>(pid, c).
     if pid = 0 then Inl ErrMalformedPacket
     else
       let p = \<lparr>ua_PacketID = pid, ua_ReasonCodes = [], ua_Properties = None\<rparr> in
       if v = V311 then
         (if remaining c \<noteq> 0 then Inl ErrMalformedPacket else Inr p)
       else if v = V50 then
         andthen (decodeProperties c tgUnsuback) (\<lambda>(props, c).
         let p = p\<lparr>ua_Properties := props\<rparr> in
         if remaining c = 0 then Inl ErrMalformedPacket
         else
           andthen (readReasons unsubackReasonV50 c []) (\<lambda>(codes, c).
           Inr (p\<lparr>ua_ReasonCodes := codes\<rparr>)))
       else Inl ErrProtocolViolation)"

section \<open>The layout of the requests\<close>

definition parseSubscription :: "Version \<Rightarrow> cursor \<Rightarrow> gerror + (Subscription \<times> cursor)" where
  "parseSubscription v c =
     andthen (readString c) (\<lambda>(f, c).
     andthen (readByte c) (\<lambda>(b, c).
     Inr (\<lparr>sub_Filter = f, sub_Options =
       \<lparr>so_QoS = b AND 0x03, so_NoLocal = (b AND 0x04 \<noteq> 0), so_RetainAsPublished = (b AND 0x08 \<noteq> 0),
        so_RetainHandling = drop_bit 4 b AND 0x03\<rparr>\<rparr>, c)))"

text \<open>
  A non-empty item after the other until the body is exhausted; as every item takes at least one
  byte, fuel equal to the number of bytes left is enough.
\<close>

fun parseItems :: "nat \<Rightarrow> (cursor \<Rightarrow> gerror + ('a \<times> cursor)) \<Rightarrow> cursor \<Rightarrow> gerror + ('a list \<times> cursor)" where
  "parseItems fuel item c =
     (if remaining c > 0 then
        case fuel of
          0 \<Rightarrow> Inl ErrMalformedPacket
        | Suc n \<Rightarrow>
            andthen (item c) (\<lambda>(x, c).
            andthen (parseItems n item c) (\<lambda>(xs, c). Inr (x # xs, c)))
      else Inr ([], c))"

declare parseItems.simps [simp del]

definition parseRequest ::
  "propTarget \<Rightarrow> (cursor \<Rightarrow> gerror + ('a \<times> cursor)) \<Rightarrow> Version \<Rightarrow> byte list
   \<Rightarrow> gerror + (uint16 \<times> Properties option \<times> 'a list)" where
  "parseRequest target item v body =
     andthen (readUint16 (newCursor body)) (\<lambda>(pid, c).
     andthen (readIf (v = V50) (\<lambda>c. decodeProperties c target) None c) (\<lambda>(props, c).
     andthen (parseItems (length body) item c) (\<lambda>(items, c).
     Inr (pid, props, items))))"

section \<open>Errors\<close>

lemma reads_readReasons: "cursor_ok c \<Longrightarrow> reads {ErrMalformedPacket} (readReasons allowed c codes)"
proof (induction allowed c codes rule: readReasons.induct)
  case (1 allowed c codes)
  show ?case
  proof (cases "readByte c")
    case (Inl e)
    with "1.prems" show ?thesis
      using byte_field.rd_err[OF Inl] by (subst readReasons.simps) (auto simp: reads_def)
  next
    case (Inr x)
    then obtain rc c' where rb: "readByte c = Inr (rc, c')" by (cases x) auto
    then have "cursor_ok c'" using "1.prems" byte_field.rd_ok by blast
    then show ?thesis
      using "1.IH"[OF _ rb refl] rb "1.prems" by (subst readReasons.simps) (auto simp: reads_def)
  qed
qed

lemma reads_readReasons_v: "cursor_ok c \<Longrightarrow> reads (decodeErrors v) (readReasons allowed c codes)"
  using reads_readReasons[of c allowed codes] by (auto simp: reads_def decodeErrors_simps)

lemma fails_DecodeSuback: "fails_in (decodeErrors v) (DecodeSuback v body)"
  unfolding DecodeSuback_def Let_def
  by (intro fails_intros reads_intros reads_readReasons_v) (auto intro: decodeErrors_simps)

lemma fails_DecodeUnsuback: "fails_in (decodeErrors v) (DecodeUnsuback v body)"
  unfolding DecodeUnsuback_def Let_def
  by (intro fails_intros reads_intros reads_readReasons_v) (auto intro: decodeErrors_simps)

section \<open>The reason codes are delivered\<close>

lemma readReasons_rest:
  "cursor_ok c \<Longrightarrow> readReasons allowed c codes =
     (if set (rest c) \<subseteq> allowed then Inr (codes @ rest c, advance c (length (rest c)))
      else Inl ErrMalformedPacket)"
proof (induction allowed c codes rule: readReasons.induct)
  case (1 allowed c codes)
  show ?case
  proof (cases "rest c")
    case Nil
    with "1.prems" show ?thesis
      by (subst readReasons.simps) (simp add: remaining_rest advance_def)
  next
    case (Cons rc bs)
    with "1.prems" have rb: "readByte c = Inr (rc, advance c 1)" and rem: "remaining c > 0"
      and ok: "cursor_ok (advance c 1)"
      by (simp_all add: readByte_rest remaining_rest cursor_ok_advance)
    show ?thesis
      using "1.IH"[OF rem rb refl _ ok] rb rem Cons by (subst readReasons.simps) auto
  qed
qed

lemma DecodeSuback_v311:
  "DecodeSuback V311 (be16 pid @ codes) =
     (if pid \<noteq> 0 \<and> codes \<noteq> [] \<and> set codes \<subseteq> subackReasonV311
      then Inr \<lparr>sa_PacketID = pid, sa_ReasonCodes = codes, sa_Properties = None\<rparr>
      else Inl ErrMalformedPacket)"
proof -
  define c where "c = advance (newCursor (be16 pid @ codes)) 2"
  have "cursor_ok c" "rest c = codes" by (auto simp: c_def intro!: cursor_ok_advance)
  moreover have "readUint16 (newCursor (be16 pid @ codes)) = Inr (pid, c)"
    using segmentD[OF segment_u16, of "newCursor (be16 pid @ codes)" pid codes] by (simp add: c_def)
  ultimately show ?thesis
    unfolding DecodeSuback_def by (auto simp: readReasons_rest remaining_rest)
qed

lemma block_codes:
  assumes "encode props [] target = Inr pb"
  obtains c c' where "readUint16 (newCursor (be16 pid @ pb @ codes)) = Inr (pid, c)"
    "decodeProperties c target = Inr (normProps props, c')" "cursor_ok c'" "rest c' = codes"
proof -
  define c where "c = advance (newCursor (be16 pid @ pb @ codes)) 2"
  have c: "cursor_ok c" "rest c = pb @ codes" by (auto simp: c_def intro!: cursor_ok_advance)
  show ?thesis
    by (rule that[of c "advance c (length pb)"])
       (use c segmentD[OF segment_u16, of "newCursor (be16 pid @ pb @ codes)" pid "pb @ codes"]
         decodeProperties_encoded[OF assms c(1), of codes] in \<open>auto simp: c_def intro!: cursor_ok_advance\<close>)
qed

lemma DecodeSuback_v50:
  assumes "encode props [] tgSuback = Inr pb"
  shows "DecodeSuback V50 (be16 pid @ pb @ codes) =
     (if pid \<noteq> 0 \<and> codes \<noteq> [] \<and> set codes \<subseteq> subackReasonV50
      then Inr \<lparr>sa_PacketID = pid, sa_ReasonCodes = codes, sa_Properties = normProps props\<rparr>
      else Inl ErrMalformedPacket)"
proof -
  obtain c c' where "readUint16 (newCursor (be16 pid @ pb @ codes)) = Inr (pid, c)"
    "decodeProperties c tgSuback = Inr (normProps props, c')" "cursor_ok c'" "rest c' = codes"
    by (rule block_codes[OF assms])
  then show ?thesis
    unfolding DecodeSuback_def by (auto simp: readReasons_rest remaining_rest)
qed



lemma DecodeUnsuback_v311:
  "DecodeUnsuback V311 (be16 pid @ codes) =
     (if pid \<noteq> 0 \<and> codes = []
      then Inr \<lparr>ua_PacketID = pid, ua_ReasonCodes = [], ua_Properties = None\<rparr>
      else Inl ErrMalformedPacket)"
proof -
  define c where "c = advance (newCursor (be16 pid @ codes)) 2"
  have "cursor_ok c" "rest c = codes" by (auto simp: c_def intro!: cursor_ok_advance)
  moreover have "readUint16 (newCursor (be16 pid @ codes)) = Inr (pid, c)"
    using segmentD[OF segment_u16, of "newCursor (be16 pid @ codes)" pid codes] by (simp add: c_def)
  ultimately show ?thesis
    unfolding DecodeUnsuback_def by (auto simp: remaining_rest)
qed

lemma DecodeUnsuback_v50:
  assumes "encode props [] tgUnsuback = Inr pb"
  shows "DecodeUnsuback V50 (be16 pid @ pb @ codes) =
     (if pid \<noteq> 0 \<and> codes \<noteq> [] \<and> set codes \<subseteq> unsubackReasonV50
      then Inr \<lparr>ua_PacketID = pid, ua_ReasonCodes = codes, ua_Properties = normProps props\<rparr>
      else Inl ErrMalformedPacket)"
proof -
  obtain c c' where "readUint16 (newCursor (be16 pid @ pb @ codes)) = Inr (pid, c)"
    "decodeProperties c tgUnsuback = Inr (normProps props, c')" "cursor_ok c'" "rest c' = codes"
    by (rule block_codes[OF assms])
  then show ?thesis
    unfolding DecodeUnsuback_def by (auto simp: readReasons_rest remaining_rest)
qed

section \<open>The encoders write the layout of the requests\<close>

lemma parseItems_segments:
  assumes "list_all2 (\<lambda>x bs. segment item x bs \<and> bs \<noteq> []) xs bss" "cursor_ok c" "rest c = concat bss"
    and "length (concat bss) \<le> fuel"
  shows "parseItems fuel item c = Inr (xs, advance c (length (concat bss)))"
  using assms
proof (induction xs bss arbitrary: c fuel rule: list_all2_induct)
  case Nil
  then show ?case by (subst parseItems.simps) (simp add: remaining_rest advance_def)
next
  case (Cons x xs bs bss)
  from Cons.hyps(1) have "0 < length bs" by simp
  with Cons.prems(3) obtain n where n: "fuel = Suc n" by (cases fuel) auto
  have le: "length (concat bss) \<le> n"
    using Cons.prems(3) \<open>0 < length bs\<close> n by (simp del: length_greater_0_conv)
  have "item c = Inr (x, advance c (length bs))"
    using Cons.hyps(1) Cons.prems by (auto intro: segmentD)
  moreover have "parseItems n item (advance c (length bs)) =
      Inr (xs, advance (advance c (length bs)) (length (concat bss)))"
    using Cons.prems le by (intro Cons.IH) (auto intro!: cursor_ok_advance)
  moreover have "remaining c > 0"
    using Cons.prems \<open>0 < length bs\<close> by (simp add: remaining_rest del: length_greater_0_conv)
  ultimately show ?case
    using n by (subst parseItems.simps) simp
qed

lemma appendString_nonempty: "appendString [] s = Inr bs \<Longrightarrow> bs \<noteq> []"
  by (auto simp: appendString_def be16_def split: if_splits)

lemma appendFilters_segments:
  "appendFilters fs body = Inr out \<Longrightarrow>
     \<exists>bss. out = body @ concat bss \<and> list_all2 (\<lambda>x bs. segment readString x bs \<and> bs \<noteq> []) fs bss"
proof (induction fs arbitrary: body)
  case (Cons f fs)
  then obtain bs where "appendString [] f = Inr bs" "appendFilters fs (body @ bs) = Inr out"
    unfolding appendFilters.simps appendString_app[of body] andthen_Inr_iff by auto
  with Cons.IH[of "body @ bs"] obtain bss where "out = body @ concat (bs # bss)"
    "list_all2 (\<lambda>x bs. segment readString x bs \<and> bs \<noteq> []) (f # fs) (bs # bss)"
    by (auto intro: segment_string dest: appendString_nonempty)
  then show ?case by blast
qed (auto intro: exI[of _ "[]"])

text \<open>The options on the wire: MQTT 3.1.1 carries the QoS only.\<close>

definition canonOptions :: "Version \<Rightarrow> SubscribeOptions \<Rightarrow> SubscribeOptions" where
  "canonOptions v o' =
     (if v = V50 then o'
      else \<lparr>so_QoS = so_QoS o', so_NoLocal = False, so_RetainAsPublished = False, so_RetainHandling = 0\<rparr>)"

definition canonSubscription :: "Version \<Rightarrow> Subscription \<Rightarrow> Subscription" where
  "canonSubscription v sub = sub\<lparr>sub_Options := canonOptions v (sub_Options sub)\<rparr>"

lemma subscribeOptionsByte_bits:
  assumes "subscribeOptionsByte v o' = Inr b" "Valid v"
  shows "canonOptions v o' = \<lparr>so_QoS = b AND 0x03, so_NoLocal = (b AND 0x04 \<noteq> 0),
     so_RetainAsPublished = (b AND 0x08 \<noteq> 0), so_RetainHandling = drop_bit 4 b AND 0x03\<rparr>"
proof -
  from assms have q: "so_QoS o' = 0 \<or> so_QoS o' = 1 \<or> so_QoS o' = 2"
    by (intro byte_le_2) (auto simp: subscribeOptionsByte_def not_less split: if_splits)
  from assms(2) consider "v = V311" | "v = V50" by (auto simp: Valid_def)
  then show ?thesis
  proof cases
    case 1
    with assms q show ?thesis by (auto simp: subscribeOptionsByte_def canonOptions_def)
  next
    case 2
    with assms have "so_RetainHandling o' = 0 \<or> so_RetainHandling o' = 1 \<or> so_RetainHandling o' = 2"
      by (intro byte_le_2) (auto simp: subscribeOptionsByte_def not_less Let_def split: if_splits)
    with assms q 2 show ?thesis
      by (cases o'; cases "so_NoLocal o'"; cases "so_RetainAsPublished o'")
         (auto simp: subscribeOptionsByte_def canonOptions_def Let_def)
  qed
qed

lemma segment_parseSubscription:
  assumes "appendString [] (sub_Filter sub) = Inr bs" "subscribeOptionsByte v (sub_Options sub) = Inr b" "Valid v"
  shows "segment (parseSubscription v) (canonSubscription v sub) (bs @ [b])"
proof -
  have eq: "canonSubscription v sub = \<lparr>sub_Filter = sub_Filter sub, sub_Options =
      \<lparr>so_QoS = b AND 0x03, so_NoLocal = (b AND 0x04 \<noteq> 0), so_RetainAsPublished = (b AND 0x08 \<noteq> 0),
       so_RetainHandling = drop_bit 4 b AND 0x03\<rparr>\<rparr>"
    using subscribeOptionsByte_bits[OF assms(2,3)] by (simp add: canonSubscription_def)
  have "segment (parseSubscription v) (canonSubscription v sub) (bs @ [b] @ [])"
    unfolding parseSubscription_def[abs_def] eq
    by (intro segment_bind[OF segment_string[OF assms(1)]] segment_bind[OF segment_byte] segment_return)
  then show ?thesis by simp
qed

lemma appendSubscriptions_segments:
  "appendSubscriptions v subs body = Inr out \<Longrightarrow> Valid v \<Longrightarrow>
     \<exists>bss. out = body @ concat bss \<and>
       list_all2 (\<lambda>x bs. segment (parseSubscription v) x bs \<and> bs \<noteq> []) (map (canonSubscription v) subs) bss"
proof (induction subs arbitrary: body)
  case (Cons sub subs)
  then obtain bs b where s: "appendString [] (sub_Filter sub) = Inr bs"
    "subscribeOptionsByte v (sub_Options sub) = Inr b"
    "appendSubscriptions v subs ((body @ bs) @ [b]) = Inr out"
    unfolding appendSubscriptions.simps appendString_app[of body] andthen_Inr_iff by auto
  with Cons.IH[OF _ Cons.prems(2)] obtain bss where "out = ((body @ bs) @ [b]) @ concat bss"
    "list_all2 (\<lambda>x bs. segment (parseSubscription v) x bs \<and> bs \<noteq> []) (map (canonSubscription v) subs) bss"
    by blast
  then have "out = body @ concat ((bs @ [b]) # bss)"
    "list_all2 (\<lambda>x bs. segment (parseSubscription v) x bs \<and> bs \<noteq> [])
      (map (canonSubscription v) (sub # subs)) ((bs @ [b]) # bss)"
    using segment_parseSubscription[OF s(1,2) Cons.prems(2)] by auto
  then show ?case by blast
qed (auto intro: exI[of _ "[]"])

lemma parseRequest_encoded:
  assumes "blockFor v props target pb" "list_all2 (\<lambda>x bs. segment item x bs \<and> bs \<noteq> []) xs bss"
  shows "parseRequest target item v (be16 pid @ pb @ concat bss) =
    Inr (pid, if v = V50 then normProps props else None, xs)"
proof -
  let ?body = "be16 pid @ pb @ concat bss"
  define c where "c = advance (newCursor ?body) 2"
  have c: "cursor_ok c" "rest c = pb @ concat bss" by (auto simp: c_def intro!: cursor_ok_advance)
  have "readUint16 (newCursor ?body) = Inr (pid, c)"
    using segmentD[OF segment_u16, of "newCursor ?body" pid] by (simp add: c_def)
  moreover have "readIf (v = V50) (\<lambda>c. decodeProperties c target) None c =
      Inr (if v = V50 then normProps props else None, advance c (length pb))"
    using segmentD[OF segment_block[OF assms(1)] c] .
  moreover have "parseItems (length ?body) item (advance c (length pb)) =
      Inr (xs, advance (advance c (length pb)) (length (concat bss)))"
    using c by (intro parseItems_segments[OF assms(2)]) (auto intro!: cursor_ok_advance)
  ultimately show ?thesis unfolding parseRequest_def by simp
qed

text \<open>
  C32: A SUBSCRIBE asks for exactly what the caller listed: what \<^verbatim>\<open>SubscribePacket.Encode\<close> accepts
  is one SUBSCRIBE frame with the mandatory flag bits whose body, read with the layout of the
  specification up to its last byte, gives the packet identifier, the property block and the
  list of filters with their options, in order (MQTT 3.1.1 carries only the QoS of each).
\<close>

theorem subscribe_roundtrip:
  assumes "SubscribePacket_Encode p [] = Inr pkt" "length pkt \<le> unat maxPacketSize"
  shows "\<exists>f. ReadFrame \<lparr>r_bytes = pkt @ ys, r_err = e\<rparr> maxPacketSize = Inr (f, \<lparr>r_bytes = ys, r_err = e\<rparr>) \<and>
    ValidateFlags f = Inr () \<and> packetType (Header f) = Subscribe \<and>
    parseRequest tgSubscribe (parseSubscription (sp_Version p)) (sp_Version p) (Body f) =
      Inr (sp_PacketID p, if sp_Version p = V50 then normProps (sp_Properties p) else None,
           map (canonSubscription (sp_Version p)) (sp_Subscriptions p))"
proof -
  let ?h = "push_bit 4 Subscribe OR 0x02 :: byte"
  from assms(1) have v: "Valid (sp_Version p)" and n: "sp_PacketID p \<noteq> 0" "length (sp_Subscriptions p) \<noteq> 0"
    by (auto simp: SubscribePacket_Encode_def split: if_splits)
  from assms(1) obtain b1 b2 where
    b1: "(if sp_Version p = V50 then encode (sp_Properties p) (be16 (sp_PacketID p)) tgSubscribe
        else Inr (be16 (sp_PacketID p))) = Inr b1"
    and b2: "appendSubscriptions (sp_Version p) (sp_Subscriptions p) b1 = Inr b2"
    and w: "writePacket [] ?h b2 = Inr pkt"
    unfolding SubscribePacket_Encode_def Let_def
    by (simp only: v n not_True_eq_False if_False andthen_Inr_iff) blast
  obtain pb where pb: "b1 = be16 (sp_PacketID p) @ pb" "blockFor (sp_Version p) (sp_Properties p) tgSubscribe pb"
    using b1 by (rule blockForE)
  from appendSubscriptions_segments[OF b2 v] pb(1) obtain bss where
    b: "b2 = be16 (sp_PacketID p) @ pb @ concat bss"
    and bss: "list_all2 (\<lambda>x bs. segment (parseSubscription (sp_Version p)) x bs \<and> bs \<noteq> [])
      (map (canonSubscription (sp_Version p)) (sp_Subscriptions p)) bss" by auto
  have "ValidateFlags \<lparr>Header = ?h, Body = b2\<rparr> = Inr ()" "packetType ?h = Subscribe"
    by (simp_all add: ValidateFlags_def packetType_def Let_def)
  then show ?thesis
    using ReadFrame_written[OF w assms(2), of ys e] parseRequest_encoded[OF pb(2) bss] b
    by (intro exI[of _ "\<lparr>Header = ?h, Body = b2\<rparr>"]) simp
qed

definition exampleSubscribe :: SubscribePacket where
  "exampleSubscribe = \<lparr>sp_Version = V50, sp_PacketID = 3,
     sp_Subscriptions =
       [\<lparr>sub_Filter = str ''a/#'', sub_Options =
          \<lparr>so_QoS = 1, so_NoLocal = True, so_RetainAsPublished = False, so_RetainHandling = 2\<rparr>\<rparr>,
        \<lparr>sub_Filter = str ''b'', sub_Options =
          \<lparr>so_QoS = 0, so_NoLocal = False, so_RetainAsPublished = False, so_RetainHandling = 0\<rparr>\<rparr>],
     sp_Properties = None\<rparr>"

theorem subscribe_roundtrip_witness:
  "SubscribePacket_Encode exampleSubscribe [] =
     Inr [0x82, 0x0D, 0x00, 0x03, 0x00, 0x00, 0x03, 0x61, 0x2F, 0x23, 0x25, 0x00, 0x01, 0x62, 0x00] \<and>
   (\<exists>f. ReadFrame \<lparr>r_bytes = [0x82, 0x0D, 0x00, 0x03, 0x00, 0x00, 0x03, 0x61, 0x2F, 0x23, 0x25, 0x00,
           0x01, 0x62, 0x00], r_err = IoEOF\<rparr> 15 = Inr (f, \<lparr>r_bytes = [], r_err = IoEOF\<rparr>) \<and>
      parseRequest tgSubscribe (parseSubscription V50) V50 (Body f) =
        Inr (3, None, sp_Subscriptions exampleSubscribe))"
proof -
  have enc: "SubscribePacket_Encode exampleSubscribe [] =
     Inr [0x82, 0x0D, 0x00, 0x03, 0x00, 0x00, 0x03, 0x61, 0x2F, 0x23, 0x25, 0x00, 0x01, 0x62, 0x00]"
    by code_simp
  have canon: "map (canonSubscription V50) (sp_Subscriptions exampleSubscribe) = sp_Subscriptions exampleSubscribe"
    "sp_Version exampleSubscribe = V50" "sp_PacketID exampleSubscribe = 3" "sp_Properties exampleSubscribe = None"
    by (simp_all add: exampleSubscribe_def canonSubscription_def canonOptions_def)
  from subscribe_roundtrip[OF enc, of 15 "[]" IoEOF] enc show ?thesis
    unfolding canon by (auto simp: normProps_def)
qed

text \<open>
  An UNSUBSCRIBE names exactly the filters the caller listed, in order: what
  \<^verbatim>\<open>UnsubscribePacket.Encode\<close> accepts is one UNSUBSCRIBE frame with the mandatory flag bits whose
  body, read with the layout of the specification up to its last byte, gives the packet
  identifier, the property block and the filters.
\<close>

theorem unsubscribe_roundtrip:
  assumes "UnsubscribePacket_Encode p [] = Inr pkt" "length pkt \<le> unat maxPacketSize"
  shows "\<exists>f. ReadFrame \<lparr>r_bytes = pkt @ ys, r_err = e\<rparr> maxPacketSize = Inr (f, \<lparr>r_bytes = ys, r_err = e\<rparr>) \<and>
    ValidateFlags f = Inr () \<and> packetType (Header f) = Unsubscribe \<and>
    parseRequest tgUnsubscribe readString (up_Version p) (Body f) =
      Inr (up_PacketID p, if up_Version p = V50 then normProps (up_Properties p) else None, up_Filters p)"
proof -
  let ?h = "push_bit 4 Unsubscribe OR 0x02 :: byte"
  from assms(1) have v: "Valid (up_Version p)" and n: "up_PacketID p \<noteq> 0" "length (up_Filters p) \<noteq> 0"
    by (auto simp: UnsubscribePacket_Encode_def split: if_splits)
  from assms(1) obtain b1 b2 where
    b1: "(if up_Version p = V50 then encode (up_Properties p) (be16 (up_PacketID p)) tgUnsubscribe
        else Inr (be16 (up_PacketID p))) = Inr b1"
    and b2: "appendFilters (up_Filters p) b1 = Inr b2" and w: "writePacket [] ?h b2 = Inr pkt"
    unfolding UnsubscribePacket_Encode_def Let_def
    by (simp only: v n not_True_eq_False if_False andthen_Inr_iff) blast
  obtain pb where pb: "b1 = be16 (up_PacketID p) @ pb" "blockFor (up_Version p) (up_Properties p) tgUnsubscribe pb"
    using b1 by (rule blockForE)
  from appendFilters_segments[OF b2] pb(1) obtain bss where
    b: "b2 = be16 (up_PacketID p) @ pb @ concat bss"
    and bss: "list_all2 (\<lambda>x bs. segment readString x bs \<and> bs \<noteq> []) (up_Filters p) bss" by auto
  have "ValidateFlags \<lparr>Header = ?h, Body = b2\<rparr> = Inr ()" "packetType ?h = Unsubscribe"
    by (simp_all add: ValidateFlags_def packetType_def Let_def)
  then show ?thesis
    using ReadFrame_written[OF w assms(2), of ys e] parseRequest_encoded[OF pb(2) bss] b
    by (intro exI[of _ "\<lparr>Header = ?h, Body = b2\<rparr>"]) simp
qed

theorem unsubscribe_roundtrip_witness:
  "UnsubscribePacket_Encode \<lparr>up_Version = V311, up_PacketID = 9, up_Filters = [str ''a'', str ''b''],
       up_Properties = None\<rparr> [] = Inr [0xA2, 0x08, 0x00, 0x09, 0x00, 0x01, 0x61, 0x00, 0x01, 0x62] \<and>
   (\<exists>f. ReadFrame \<lparr>r_bytes = [0xA2, 0x08, 0x00, 0x09, 0x00, 0x01, 0x61, 0x00, 0x01, 0x62], r_err = IoEOF\<rparr> 10
        = Inr (f, \<lparr>r_bytes = [], r_err = IoEOF\<rparr>) \<and>
      parseRequest tgUnsubscribe readString V311 (Body f) = Inr (9, None, [str ''a'', str ''b'']))"
proof -
  let ?p = "\<lparr>up_Version = V311, up_PacketID = 9, up_Filters = [str ''a'', str ''b''], up_Properties = None\<rparr>"
  have enc: "UnsubscribePacket_Encode ?p [] = Inr [0xA2, 0x08, 0x00, 0x09, 0x00, 0x01, 0x61, 0x00, 0x01, 0x62]"
    by code_simp
  from unsubscribe_roundtrip[OF enc, of 10 "[]" IoEOF] enc show ?thesis by auto
qed

end
