(* ===== verification/Mqtt_Topic.thy ===== *)
theory Mqtt_Topic
  imports Mqtt_Wire
begin

text \<open>
  Topic names and filters (\<^verbatim>\<open>protocol/topic.go\<close>): splitting of shared subscriptions, wildcard
  matching and the two validators, each proved equivalent to a declarative reading of the MQTT
  rules.
\<close>

section \<open>The string functions used\<close>

abbreviation slash :: byte where "slash \<equiv> 0x2F"
abbreviation hash :: byte where "hash \<equiv> 0x23"
abbreviation plus_sign :: byte where "plus_sign \<equiv> 0x2B"
abbreviation dollar :: byte where "dollar \<equiv> 0x24"

text \<open>\<^verbatim>\<open>strings.CutPrefix(s, prefix)\<close>, \<^verbatim>\<open>strings.Cut(s, "/")\<close> and \<^verbatim>\<open>strings.Split(s, "/")\<close>.\<close>

definition CutPrefix :: "gostring \<Rightarrow> gostring \<Rightarrow> gostring \<times> bool" where
  "CutPrefix s prefix =
     (if take (length prefix) s = prefix then (drop (length prefix) s, True) else (s, False))"

fun Cut :: "gostring \<Rightarrow> gostring \<times> gostring \<times> bool" where
  "Cut [] = ([], [], False)"
| "Cut (b # s) =
     (if b = slash then ([], s, True)
      else let (before, after, found) = Cut s in (b # before, after, found))"

fun Split :: "gostring \<Rightarrow> gostring list" where
  "Split [] = [[]]"
| "Split (b # s) =
     (if b = slash then [] # Split s
      else case Split s of l # ls \<Rightarrow> (b # l) # ls | [] \<Rightarrow> [[b]])"

section \<open>Shared subscriptions and matching\<close>

definition maxTopicLen :: int where "maxTopicLen = 0xFFFF"

definition sharedPrefix :: gostring where "sharedPrefix = str ''$share/''"

definition splitShared :: "gostring \<Rightarrow> gostring \<times> gostring \<times> bool" where
  "splitShared s =
     (let (rest', found) = CutPrefix s sharedPrefix in
      if \<not> found then ([], [], False)
      else
        let (shareName, f, found) = Cut rest' in
        if \<not> found \<or> shareName = [] \<or> f = [] \<or> containsWildcard shareName
        then ([], [], False)
        else (shareName, f, True))"

text \<open>The loop of \<^verbatim>\<open>matchLevels\<close> at filter index \<open>i\<close>; \<open>n\<close> is the number of filter levels.\<close>

fun matchLevels_loop :: "nat \<Rightarrow> nat \<Rightarrow> gostring list \<Rightarrow> gostring list \<Rightarrow> bool" where
  "matchLevels_loop n i [] topicLevels = (n = length topicLevels)"
| "matchLevels_loop n i (fl # fls) topicLevels =
     (if fl = [hash] then True
      else if length topicLevels \<le> i then False
      else if fl = [plus_sign] then matchLevels_loop n (Suc i) fls topicLevels
      else if fl \<noteq> topicLevels ! i then False
      else matchLevels_loop n (Suc i) fls topicLevels)"

definition matchLevels :: "gostring list \<Rightarrow> gostring list \<Rightarrow> bool" where
  "matchLevels filterLevels topicLevels =
     matchLevels_loop (length filterLevels) 0 filterLevels topicLevels"

definition MatchTopic :: "gostring \<Rightarrow> gostring \<Rightarrow> bool" where
  "MatchTopic f topic =
     (let f = (case splitShared f of (_, wrapped, ok) \<Rightarrow> if ok then wrapped else f) in
      if topic \<noteq> [] \<and> topic ! 0 = dollar \<and> f \<noteq> [] \<and> (f ! 0 = hash \<or> f ! 0 = plus_sign)
      then False
      else matchLevels (Split f) (Split topic))"

section \<open>Validation\<close>

definition ValidateTopicName :: "gostring \<Rightarrow> gerror + unit" where
  "ValidateTopicName s =
     (if s = [] then Inl ErrProtocolViolation
      else if int (length s) > maxTopicLen then Inl ErrProtocolViolation
      else if \<not> utf8Valid s then Inl ErrProtocolViolation
      else if containsByte s 0 then Inl ErrProtocolViolation
      else if containsWildcard s then Inl ErrProtocolViolation
      else Inr ())"

fun validateFilterLevels_loop :: "nat \<Rightarrow> nat \<Rightarrow> gostring list \<Rightarrow> gerror + unit" where
  "validateFilterLevels_loop n i [] = Inr ()"
| "validateFilterLevels_loop n i (level # levels) =
     (if containsByte level hash \<and> (level \<noteq> [hash] \<or> int i \<noteq> int n - 1) then Inl ErrProtocolViolation
      else if containsByte level plus_sign \<and> level \<noteq> [plus_sign] then Inl ErrProtocolViolation
      else validateFilterLevels_loop n (Suc i) levels)"

definition validateFilterLevels :: "gostring \<Rightarrow> gerror + unit" where
  "validateFilterLevels s =
     (let levels = Split s in validateFilterLevels_loop (length levels) 0 levels)"

definition ValidateTopicFilter :: "gostring \<Rightarrow> gerror + unit" where
  "ValidateTopicFilter s =
     (if s = [] then Inl ErrProtocolViolation
      else if int (length s) > maxTopicLen then Inl ErrProtocolViolation
      else if \<not> utf8Valid s then Inl ErrProtocolViolation
      else if containsByte s 0 then Inl ErrProtocolViolation
      else
        let (rest', found) = CutPrefix s sharedPrefix in
        if found then
          (let (shareName, wrapped, split) = Cut rest' in
           if \<not> split then Inl ErrProtocolViolation
           else if shareName = [] then Inl ErrProtocolViolation
           else if containsWildcard shareName then Inl ErrProtocolViolation
           else if wrapped = [] then Inl ErrProtocolViolation
           else validateFilterLevels wrapped)
        else validateFilterLevels s)"

section \<open>Levels\<close>

text \<open>A string is its levels joined by slashes, and the levels are the slash-free pieces.\<close>

fun joinLevels :: "gostring list \<Rightarrow> gostring" where
  "joinLevels [] = []"
| "joinLevels [l] = l"
| "joinLevels (l # m # ls) = l @ slash # joinLevels (m # ls)"

lemma Split_nonempty [simp]: "Split s \<noteq> []"
  by (induction s) (auto split: list.splits)

lemma joinLevels_Cons: "ls \<noteq> [] \<Longrightarrow> joinLevels (l # ls) = l @ slash # joinLevels ls"
  by (cases ls) auto

lemma joinLevels_Split: "joinLevels (Split s) = s"
proof (induction s)
  case (Cons b s)
  then show ?case
    by (cases "Split s"; cases "tl (Split s)") (auto simp: joinLevels_Cons)
qed simp

lemma Split_slash_free: "l \<in> set (Split s) \<Longrightarrow> slash \<notin> set l"
  by (induction s arbitrary: l) (auto split: list.splits if_splits)

lemma Split_subset: "l \<in> set (Split s) \<Longrightarrow> set l \<subseteq> set s"
proof (induction s arbitrary: l)
  case (Cons b s)
  obtain m ms where m: "Split s = m # ms" by (cases "Split s") auto
  with Cons.IH have "k \<in> set (m # ms) \<Longrightarrow> set k \<subseteq> set s" for k by simp
  with Cons.prems m show ?case by (fastforce split: if_splits)
qed simp

lemma Split_append: "slash \<notin> set l \<Longrightarrow> Split (l @ slash # s) = l # Split s"
  by (induction l) auto

lemma Split_single: "slash \<notin> set l \<Longrightarrow> Split l = [l]"
  by (induction l) auto

lemma Split_inject: "Split s = Split t \<longleftrightarrow> s = t"
  using joinLevels_Split by metis

lemma Cut_append: "slash \<notin> set a \<Longrightarrow> Cut (a @ slash # b) = (a, b, True)"
  by (induction a) auto

lemma Cut_foundD: "Cut s = (a, b, True) \<Longrightarrow> s = a @ slash # b \<and> slash \<notin> set a"
proof (induction s arbitrary: a)
  case (Cons x s)
  obtain p q f where "Cut s = (p, q, f)" by (cases "Cut s")
  with Cons show ?case by (cases "x = slash") auto
qed simp

lemma Cut_found: "Cut s = (a, b, True) \<longleftrightarrow> s = a @ slash # b \<and> slash \<notin> set a"
  using Cut_append Cut_foundD by blast

lemma CutPrefix_found: "CutPrefix s p = (r, True) \<longleftrightarrow> s = p @ r"
  by (auto simp: CutPrefix_def) (metis append_take_drop_id)+

lemma CutPrefix_snd: "CutPrefix s p = (r, False) \<Longrightarrow> \<nexists>r'. s = p @ r'"
  by (auto simp: CutPrefix_def split: if_splits)


section \<open>Shared subscriptions\<close>

lemma splitShared_iff:
  "splitShared s = (name, f, True) \<longleftrightarrow>
     s = sharedPrefix @ name @ slash # f \<and> name \<noteq> [] \<and> slash \<notin> set name \<and>
     \<not> containsWildcard name \<and> f \<noteq> []"
proof
  assume *: "splitShared s = (name, f, True)"
  then obtain r where r: "CutPrefix s sharedPrefix = (r, True)" 
    by (cases "CutPrefix s sharedPrefix") (auto simp: splitShared_def split: if_splits)
  with * have "Cut r = (name, f, True)" "name \<noteq> []" "f \<noteq> []" "\<not> containsWildcard name"
    by (auto simp: splitShared_def Let_def split: if_splits prod.splits)
  with r show "s = sharedPrefix @ name @ slash # f \<and> name \<noteq> [] \<and> slash \<notin> set name \<and>
     \<not> containsWildcard name \<and> f \<noteq> []"
    by (auto simp: Cut_found CutPrefix_found)
next
  assume *: "s = sharedPrefix @ name @ slash # f \<and> name \<noteq> [] \<and> slash \<notin> set name \<and>
     \<not> containsWildcard name \<and> f \<noteq> []"
  then have "CutPrefix s sharedPrefix = (name @ slash # f, True)" by (simp add: CutPrefix_found)
  with * show "splitShared s = (name, f, True)"
    by (simp add: splitShared_def Cut_append)
qed


definition effectiveFilter :: "gostring \<Rightarrow> gostring" where
  "effectiveFilter f = (case splitShared f of (_, wrapped, ok) \<Rightarrow> if ok then wrapped else f)"

lemma effectiveFilter_shared:
  "splitShared f = (n, w, True) \<Longrightarrow> effectiveFilter f = w"
  by (simp add: effectiveFilter_def)

lemma effectiveFilter_plain:
  "(\<nexists>r. f = sharedPrefix @ r) \<Longrightarrow> effectiveFilter f = f"
  using splitShared_iff by (cases "splitShared f") (auto simp: effectiveFilter_def)

section \<open>What the validators accept\<close>

text \<open>The placement of the wildcards, read on the characters.\<close>

definition wildcardsOk :: "gostring \<Rightarrow> bool" where
  "wildcardsOk s \<longleftrightarrow>
     (\<forall>a b. s = a @ hash # b \<longrightarrow> b = [] \<and> (a = [] \<or> last a = slash)) \<and>
     (\<forall>a b. s = a @ plus_sign # b \<longrightarrow> (a = [] \<or> last a = slash) \<and> (b = [] \<or> hd b = slash))"

definition levelOk :: "gostring \<Rightarrow> bool" where
  "levelOk l \<longleftrightarrow> (hash \<in> set l \<longrightarrow> l = [hash]) \<and> (plus_sign \<in> set l \<longrightarrow> l = [plus_sign])"

definition levelsOk :: "gostring list \<Rightarrow> bool" where
  "levelsOk ls \<longleftrightarrow> (\<forall>l \<in> set ls. levelOk l) \<and> (\<forall>l \<in> set (butlast ls). hash \<notin> set l)"

lemma validateFilterLevels_loop_iff:
  "n = i + length ls \<Longrightarrow> validateFilterLevels_loop n i ls = Inr () \<longleftrightarrow> levelsOk ls"
proof (induction ls arbitrary: i)
  case (Cons l ls)
  then have IH: "validateFilterLevels_loop n (Suc i) ls = Inr () \<longleftrightarrow> levelsOk ls" by simp
  have last: "int i = int n - 1 \<longleftrightarrow> ls = []" using Cons.prems by auto
  show ?case
    unfolding validateFilterLevels_loop.simps
    using IH last by (auto simp: levelsOk_def levelOk_def containsByte_def)
qed (simp add: levelsOk_def)

lemma validateFilterLevels_iff: "validateFilterLevels s = Inr () \<longleftrightarrow> levelsOk (Split s)"
  by (simp add: validateFilterLevels_def Let_def validateFilterLevels_loop_iff)

lemma split_at_sep:
  assumes "slash \<notin> set l" "x \<noteq> slash"
  shows "l @ slash # s = a @ x # b \<longleftrightarrow>
    (\<exists>b'. l = a @ x # b' \<and> b = b' @ slash # s) \<or> (\<exists>a'. a = l @ slash # a' \<and> s = a' @ x # b)"
  using assms
  by (auto simp: append_eq_append_conv2 append_eq_Cons_conv Cons_eq_append_conv)

lemma wildcardsOk_single:
  assumes "slash \<notin> set l"
  shows "wildcardsOk l \<longleftrightarrow> levelOk l"
proof
  assume w: "wildcardsOk l"
  have no: "a = [] \<or> last a \<noteq> slash" "b = [] \<or> hd b \<noteq> slash" if "l = a @ x # b" for a x b
    using assms that by (metis Un_iff last_in_set set_append,
        metis Un_iff hd_in_set list.set_intros(2) set_append)
  show "levelOk l"
    unfolding levelOk_def
  proof (intro conjI impI)
    assume "hash \<in> set l"
    then obtain a b where l: "l = a @ hash # b" by (meson split_list)
    then have "b = [] \<and> (a = [] \<or> last a = slash)" using w unfolding wildcardsOk_def by blast
    with l no(1)[OF l] show "l = [hash]" by auto
  next
    assume "plus_sign \<in> set l"
    then obtain a b where l: "l = a @ plus_sign # b" by (meson split_list)
    then have "(a = [] \<or> last a = slash) \<and> (b = [] \<or> hd b = slash)"
      using w unfolding wildcardsOk_def by blast
    with l no[OF l] show "l = [plus_sign]" by auto
  qed
next
  assume l: "levelOk l"
  have "a = [] \<and> b = []" if "l = a @ x # b" "x = hash \<or> x = plus_sign" for a x b
  proof -
    have "l = [hash] \<or> l = [plus_sign]" using l that by (auto simp: levelOk_def)
    with that show ?thesis by (cases a) auto
  qed
  then show "wildcardsOk l" unfolding wildcardsOk_def by blast
qed


lemma wildcardsOk_append:
  assumes l: "slash \<notin> set l"
  shows "wildcardsOk (l @ slash # s) \<longleftrightarrow> hash \<notin> set l \<and> levelOk l \<and> wildcardsOk s"
proof
  assume w: "wildcardsOk (l @ slash # s)"
  have h: "hash \<notin> set l"
  proof
    assume "hash \<in> set l"
    then obtain a b where "l = a @ hash # b" by (meson split_list)
    then have "l @ slash # s = a @ hash # (b @ slash # s)" by simp
    with w show False unfolding wildcardsOk_def by blast
  qed
  have "(a = [] \<or> last a = slash) \<and> (b = [] \<or> hd b = slash)" if "l = a @ plus_sign # b" for a b
  proof -
    have "l @ slash # s = a @ plus_sign # (b @ slash # s)" using that by simp
    then have "(a = [] \<or> last a = slash) \<and> hd (b @ slash # s) = slash"
      using w unfolding wildcardsOk_def by blast
    then show ?thesis by (cases b) auto
  qed
  then have "wildcardsOk l" using h unfolding wildcardsOk_def by auto
  moreover have "wildcardsOk s"
    unfolding wildcardsOk_def
  proof (intro conjI allI impI)
    fix a b
    { assume "s = a @ hash # b"
      then have "l @ slash # s = (l @ slash # a) @ hash # b" by simp
      then have "b = [] \<and> last (l @ slash # a) = slash" using w unfolding wildcardsOk_def by blast
      then show "b = []" "a = [] \<or> last a = slash" by (auto split: if_splits) }
    { assume "s = a @ plus_sign # b"
      then have "l @ slash # s = (l @ slash # a) @ plus_sign # b" by simp
      then have "last (l @ slash # a) = slash \<and> (b = [] \<or> hd b = slash)"
        using w unfolding wildcardsOk_def by blast
      then show "a = [] \<or> last a = slash" "b = [] \<or> hd b = slash" by (auto split: if_splits) }
  qed
  ultimately show "hash \<notin> set l \<and> levelOk l \<and> wildcardsOk s"
    using h wildcardsOk_single[OF l] by blast
next
  assume r: "hash \<notin> set l \<and> levelOk l \<and> wildcardsOk s"
  then have w: "wildcardsOk l" "wildcardsOk s" using wildcardsOk_single[OF l] by auto
  show "wildcardsOk (l @ slash # s)"
    unfolding wildcardsOk_def
  proof (intro conjI allI impI)
    fix a b
    { assume "l @ slash # s = a @ hash # b"
      with r obtain a' where "a = l @ slash # a'" "s = a' @ hash # b"
        by (auto simp: split_at_sep[OF l])
      moreover from this(2) have "b = [] \<and> (a' = [] \<or> last a' = slash)"
        using w(2) unfolding wildcardsOk_def by blast
      ultimately show "b = []" "a = [] \<or> last a = slash" by auto }
    { assume "l @ slash # s = a @ plus_sign # b"
      then consider b' where "l = a @ plus_sign # b'" "b = b' @ slash # s"
        | a' where "a = l @ slash # a'" "s = a' @ plus_sign # b"
        by (auto simp: split_at_sep[OF l])
      then have "(a = [] \<or> last a = slash) \<and> (b = [] \<or> hd b = slash)"
      proof cases
        case (1 b')
        then have "(a = [] \<or> last a = slash) \<and> (b' = [] \<or> hd b' = slash)"
          using w(1) unfolding wildcardsOk_def by blast
        with 1 show ?thesis by (cases b') auto
      next
        case (2 a')
        then have "(a' = [] \<or> last a' = slash) \<and> (b = [] \<or> hd b = slash)"
          using w(2) unfolding wildcardsOk_def by blast
        with 2 show ?thesis by auto
      qed
      then show "a = [] \<or> last a = slash" "b = [] \<or> hd b = slash" by blast+ }
  qed
qed

lemma wildcardsOk_iff: "wildcardsOk s \<longleftrightarrow> levelsOk (Split s)"
proof -
  have "\<forall>l \<in> set ls. slash \<notin> set l \<Longrightarrow> ls \<noteq> [] \<Longrightarrow> wildcardsOk (joinLevels ls) \<longleftrightarrow> levelsOk ls" for ls
  proof (induction ls rule: joinLevels.induct)
    case (2 l)
    then show ?case by (simp add: wildcardsOk_single levelsOk_def)
  next
    case (3 l m ls)
    then show ?case by (auto simp: wildcardsOk_append levelsOk_def)
  qed simp
  from this[of "Split s"] show ?thesis
    using Split_slash_free joinLevels_Split by auto
qed

definition stringOk :: "gostring \<Rightarrow> bool" where
  "stringOk s \<longleftrightarrow> s \<noteq> [] \<and> length s \<le> 65535 \<and> utf8Valid s \<and> 0 \<notin> set s"

lemma ValidateTopicName_iff:
  "ValidateTopicName s = Inr () \<longleftrightarrow> stringOk s \<and> hash \<notin> set s \<and> plus_sign \<notin> set s"
  by (auto simp: ValidateTopicName_def stringOk_def maxTopicLen_def containsByte_def containsWildcard_def)

lemma ValidateTopicFilter_iff:
  "ValidateTopicFilter s = Inr () \<longleftrightarrow> stringOk s \<and>
     (case splitShared s of
        (_, f, True) \<Rightarrow> wildcardsOk f
      | (_, _, False) \<Rightarrow> wildcardsOk s \<and> (\<nexists>r. s = sharedPrefix @ r))"
proof (cases "stringOk s")
  case True
  then have eq: "ValidateTopicFilter s =
      (let (r, found) = CutPrefix s sharedPrefix in
        if found then
          (let (shareName, wrapped, split) = Cut r in
           if \<not> split then Inl ErrProtocolViolation
           else if shareName = [] then Inl ErrProtocolViolation
           else if containsWildcard shareName then Inl ErrProtocolViolation
           else if wrapped = [] then Inl ErrProtocolViolation
           else validateFilterLevels wrapped)
        else validateFilterLevels s)"
    by (simp add: ValidateTopicFilter_def stringOk_def maxTopicLen_def containsByte_def)
  show ?thesis
  proof (cases "\<exists>r. s = sharedPrefix @ r")
    case False
    then have "CutPrefix s sharedPrefix = (s, False)"
      by (auto simp: CutPrefix_def) (metis append_take_drop_id)
    with False True show ?thesis
      by (auto simp: eq splitShared_def validateFilterLevels_iff wildcardsOk_iff)
  next
    case pre: True
    then obtain r where "CutPrefix s sharedPrefix = (r, True)" by (auto simp: CutPrefix_found)
    moreover obtain n f found where "Cut r = (n, f, found)" by (cases "Cut r")
    ultimately show ?thesis
      using True pre
      by (cases found) (auto simp: eq splitShared_def validateFilterLevels_iff wildcardsOk_iff)
  qed
qed (auto simp: ValidateTopicFilter_def stringOk_def maxTopicLen_def containsByte_def split: if_splits)

text \<open>
  C36: \<^verbatim>\<open>ValidateTopicFilter\<close> accepts exactly the filters the specification allows: a non-empty
  string of at most 65535 bytes of well-formed UTF-8 without U+0000 in which \<^verbatim>\<open>#\<close> occurs only
  as the last character and \<^verbatim>\<open>+\<close> only between slashes, both occupying a whole level; a string
  starting with \<^verbatim>\<open>$share/\<close> must be a well-formed shared subscription and the wildcard rules
  then apply to the filter it wraps.
\<close>

theorem ValidateTopicFilter_exact:
  "ValidateTopicFilter s = Inr () \<longleftrightarrow> stringOk s \<and>
     ((\<exists>name f. s = sharedPrefix @ name @ slash # f \<and> name \<noteq> [] \<and> slash \<notin> set name \<and>
         \<not> containsWildcard name \<and> f \<noteq> [] \<and> wildcardsOk f) \<or>
      ((\<nexists>r. s = sharedPrefix @ r) \<and> wildcardsOk s))"
proof -
  obtain n f ok where sp: "splitShared s = (n, f, ok)" by (cases "splitShared s")
  show ?thesis
  proof (cases ok)
    case True
    with sp splitShared_iff[of s n f] have
      s: "s = sharedPrefix @ n @ slash # f" "n \<noteq> []" "slash \<notin> set n" "\<not> containsWildcard n" "f \<noteq> []"
      by auto
    have uniq: "n' = n \<and> f' = f" if "s = sharedPrefix @ n' @ slash # f'" "slash \<notin> set n'" for n' f'
    proof -
      have eq: "n' @ slash # f' = n @ slash # f" using that(1) s(1) by simp
      show ?thesis using Cut_append[OF that(2), of f'] Cut_append[OF s(3), of f] unfolding eq by simp
    qed
    have "ValidateTopicFilter s = Inr () \<longleftrightarrow> stringOk s \<and> wildcardsOk f"
      using sp True by (simp add: ValidateTopicFilter_iff)
    with s uniq show ?thesis by blast
  next
    case False
    then have "ValidateTopicFilter s = Inr () \<longleftrightarrow> stringOk s \<and> wildcardsOk s \<and> (\<nexists>r. s = sharedPrefix @ r)"
      using sp by (simp add: ValidateTopicFilter_iff)
    moreover have "\<not> (s = sharedPrefix @ n' @ slash # f' \<and> n' \<noteq> [] \<and> slash \<notin> set n' \<and>
        \<not> containsWildcard n' \<and> f' \<noteq> [])" for n' f'
      using splitShared_iff[of s n' f'] sp False by simp
    ultimately show ?thesis by blast
  qed
qed


section \<open>Matching\<close>

definition levelMatches :: "gostring \<Rightarrow> gostring \<Rightarrow> bool" where
  "levelMatches f t \<longleftrightarrow> f = [plus_sign] \<or> f = t"

text \<open>
  The matching rule of the specification: level by level, and a trailing \<^verbatim>\<open>#\<close> stands for any
  number of further levels, none included.
\<close>

definition levelsMatch :: "gostring list \<Rightarrow> gostring list \<Rightarrow> bool" where
  "levelsMatch F T \<longleftrightarrow>
     (if last F = [hash] then \<exists>ts us. T = ts @ us \<and> list_all2 levelMatches (butlast F) ts
      else list_all2 levelMatches F T)"

fun matchSuffix :: "gostring list \<Rightarrow> gostring list \<Rightarrow> bool" where
  "matchSuffix [] ts = (ts = [])"
| "matchSuffix (f # fs) ts =
     (f = [hash] \<or> (case ts of [] \<Rightarrow> False | t # ts \<Rightarrow> levelMatches f t \<and> matchSuffix fs ts))"

lemma matchLevels_loop_suffix:
  "i \<le> length T \<Longrightarrow> n = i + length fls \<Longrightarrow> matchLevels_loop n i fls T = matchSuffix fls (drop i T)"
proof (induction fls arbitrary: i)
  case (Cons f fls)
  show ?case
  proof (cases "i < length T")
    case True
    then have "drop i T = T ! i # drop (Suc i) T" by (rule Cons_nth_drop_Suc[symmetric])
    with True Cons show ?thesis by (auto simp: levelMatches_def)
  qed (use Cons in auto)
qed auto

lemma matchSuffix_iff:
  "F \<noteq> [] \<Longrightarrow> [hash] \<notin> set (butlast F) \<Longrightarrow> matchSuffix F T \<longleftrightarrow> levelsMatch F T"
proof (induction F arbitrary: T)
  case (Cons f F)
  show ?case
  proof (cases "F = []")
    case True
    then show ?thesis
      by (cases T) (auto simp: levelsMatch_def)
  next
    case False
    with Cons.prems have f: "f \<noteq> [hash]" and F: "[hash] \<notin> set (butlast F)" by auto
    from Cons.IH[OF False F] False f show ?thesis
      by (cases T) (auto simp: levelsMatch_def list_all2_Cons1 Cons_eq_append_conv)
  qed
qed simp

lemma matchLevels_iff:
  "levelsOk (Split f) \<Longrightarrow> matchLevels (Split f) T \<longleftrightarrow> levelsMatch (Split f) T"
proof -
  assume "levelsOk (Split f)"
  then have "[hash] \<notin> set (butlast (Split f))" by (auto simp: levelsOk_def)
  then show ?thesis
    by (simp add: matchLevels_def matchLevels_loop_suffix matchSuffix_iff)
qed

lemma effectiveFilter_ok:
  "ValidateTopicFilter f = Inr () \<Longrightarrow> wildcardsOk (effectiveFilter f) \<and> effectiveFilter f \<noteq> []"
  using splitShared_iff[of f]
  by (cases "splitShared f") (auto simp: ValidateTopicFilter_iff effectiveFilter_def stringOk_def split: bool.splits)

lemma MatchTopic_effective:
  "MatchTopic f t \<longleftrightarrow> \<not> (t \<noteq> [] \<and> t ! 0 = dollar \<and> effectiveFilter f \<noteq> [] \<and>
       (effectiveFilter f ! 0 = hash \<or> effectiveFilter f ! 0 = plus_sign)) \<and>
     matchLevels (Split (effectiveFilter f)) (Split t)"
  unfolding MatchTopic_def effectiveFilter_def[symmetric] Let_def by auto

lemma Split_hd: "s \<noteq> [] \<Longrightarrow> hd (Split s) = (if s ! 0 = slash then [] else takeWhile (\<lambda>b. b \<noteq> slash) s)"
proof -
  have "hd (Split s) = takeWhile (\<lambda>b. b \<noteq> slash) s" by (induction s) (auto split: list.splits)
  then show "s \<noteq> [] \<Longrightarrow> ?thesis" by (cases s) auto
qed

lemma wildcard_first_level:
  assumes "wildcardsOk s" "s \<noteq> []"
  shows "s ! 0 = hash \<longleftrightarrow> hd (Split s) = [hash]" "s ! 0 = plus_sign \<longleftrightarrow> hd (Split s) = [plus_sign]"
proof -
  obtain l ls where ls: "Split s = l # ls" by (cases "Split s") auto
  with assms(1) have ok: "levelOk l" by (simp add: wildcardsOk_iff levelsOk_def)
  obtain b s' where s: "s = b # s'" using assms(2) by (cases s) auto
  have l: "l = takeWhile (\<lambda>b. b \<noteq> slash) s"
    using Split_hd[OF assms(2)] ls s by auto
  have *: "b = x \<longleftrightarrow> l = [x]" if x: "x = hash \<or> x = plus_sign" for x
  proof
    assume "b = x"
    then have "x \<in> set l" using s l x by auto
    then show "l = [x]" using ok x unfolding levelOk_def by blast
  next
    assume "l = [x]"
    then show "b = x" using s l by (simp split: if_splits)
  qed
  show "s ! 0 = hash \<longleftrightarrow> hd (Split s) = [hash]" "s ! 0 = plus_sign \<longleftrightarrow> hd (Split s) = [plus_sign]"
    using *[of hash] *[of plus_sign] s unfolding ls by simp_all
qed

lemma MatchTopic_iff:
  assumes "ValidateTopicFilter f = Inr ()"
  shows "MatchTopic f t \<longleftrightarrow>
    levelsMatch (Split (effectiveFilter f)) (Split t) \<and>
    \<not> (t \<noteq> [] \<and> t ! 0 = dollar \<and> hd (Split (effectiveFilter f)) \<in> {[hash], [plus_sign]})"
proof -
  from effectiveFilter_ok[OF assms] have w: "wildcardsOk (effectiveFilter f)" "effectiveFilter f \<noteq> []" by auto
  then show ?thesis
    using matchLevels_iff[of "effectiveFilter f"] wildcard_first_level[OF w]
    by (auto simp: MatchTopic_effective wildcardsOk_iff)
qed

text \<open>
  C22: \<^verbatim>\<open>MatchTopic\<close> implements the matching rule of the specification. For every filter the
  validator accepts, a topic matches exactly when the levels of the effective filter (behind a
  \<^verbatim>\<open>$share/{ShareName}/\<close> prefix, if any) match its levels, except that a topic starting with
  \<^verbatim>\<open>$\<close> is never matched by a filter whose first level is a wildcard.
\<close>

theorem MatchTopic_spec:
  assumes "ValidateTopicFilter f = Inr ()"
  shows "MatchTopic f t \<longleftrightarrow>
    levelsMatch (Split (effectiveFilter f)) (Split t) \<and>
    \<not> (t \<noteq> [] \<and> t ! 0 = dollar \<and> hd (Split (effectiveFilter f)) \<in> {[hash], [plus_sign]})"
  by (rule MatchTopic_iff[OF assms])

theorem MatchTopic_spec_witness:
  "ValidateTopicFilter (str ''$share/g/a/+/#'') = Inr () \<and> MatchTopic (str ''$share/g/a/+/#'') (str ''a/b'') \<and>
   levelsMatch (Split (effectiveFilter (str ''$share/g/a/+/#''))) (Split (str ''a/b''))"
proof -
  have v: "ValidateTopicFilter (str ''$share/g/a/+/#'') = Inr ()" by code_simp
  have m: "MatchTopic (str ''$share/g/a/+/#'') (str ''a/b'')" by code_simp
  from MatchTopic_spec[OF v, of "str ''a/b''"] v m show ?thesis by blast
qed

text \<open>
  A filter without wildcards is a topic: unless it is a shared subscription it matches the
  topic of the same bytes and no other.
\<close>

theorem MatchTopic_literal:
  assumes "\<not> containsWildcard f" "\<not> snd (snd (splitShared f))"
  shows "MatchTopic f t \<longleftrightarrow> t = f"
proof -
  have e: "effectiveFilter f = f" using assms(2) by (auto simp: effectiveFilter_def split: prod.splits)
  have nw: "hash \<notin> set f" "plus_sign \<notin> set f"
    using assms(1) by (auto simp: containsWildcard_def containsByte_def)
  then have first: "f \<noteq> [] \<Longrightarrow> f ! 0 \<noteq> hash \<and> f ! 0 \<noteq> plus_sign" by (auto simp: in_set_conv_nth)
  have lv: "l \<noteq> [hash] \<and> l \<noteq> [plus_sign]" if "l \<in> set (Split f)" for l
  proof -
    have "set l \<subseteq> set f" using that by (rule Split_subset)
    with nw show ?thesis by auto
  qed
  have "wildcardsOk f" using nw by (auto simp: wildcardsOk_def)
  then have "matchLevels (Split f) (Split t) \<longleftrightarrow> levelsMatch (Split f) (Split t)"
    by (simp add: wildcardsOk_iff matchLevels_iff)
  also have "\<dots> \<longleftrightarrow> list_all2 levelMatches (Split f) (Split t)"
    using lv[of "last (Split f)"] by (simp add: levelsMatch_def)
  also have "\<dots> \<longleftrightarrow> list_all2 (=) (Split f) (Split t)"
    using lv by (intro iffI; elim list.rel_mono_strong) (auto simp: levelMatches_def)
  finally have "matchLevels (Split f) (Split t) \<longleftrightarrow> f = t" by (simp add: list.rel_eq Split_inject)
  with first show ?thesis unfolding MatchTopic_effective e by auto
qed

theorem MatchTopic_literal_witness:
  "\<not> containsWildcard (str ''$share/x'') \<and> \<not> snd (snd (splitShared (str ''$share/x''))) \<and>
   MatchTopic (str ''$share/x'') (str ''$share/x'') \<and> \<not> MatchTopic (str ''$share/x'') (str ''$share/y'')"
proof -
  have a: "\<not> containsWildcard (str ''$share/x'')" "\<not> snd (snd (splitShared (str ''$share/x'')))"
    "str ''$share/y'' \<noteq> str ''$share/x''" by code_simp+
  with MatchTopic_literal[OF a(1,2), of "str ''$share/x''"] MatchTopic_literal[OF a(1,2), of "str ''$share/y''"]
  show ?thesis by blast
qed

end
