(* ===== verification/Mqtt_Store.thy ===== *)
theory Mqtt_Store
  imports Mqtt_Publish "HOL-Library.AList" "HOL-Library.Multiset"
begin

text \<open>
  The session store (\<^verbatim>\<open>session.go\<close>): the stored messages, the contract of \<^verbatim>\<open>SessionStore\<close> as the
  locale \<open>session_store\<close>, and the in-memory store \<^verbatim>\<open>memStore\<close> as its interpretation. Every method
  runs under the store's mutex, so it is one atomic function on the store. A Go map has no order;
  it is an association list here, and what the store returns is proved not to depend on its order.
\<close>

section \<open>Stored messages\<close>

type_synonym StoredKind = "8 word"

abbreviation StoredPublish :: StoredKind where "StoredPublish \<equiv> 1"
abbreviation StoredPubrel :: StoredKind where "StoredPubrel \<equiv> 2"
abbreviation StoredInboundID :: StoredKind where "StoredInboundID \<equiv> 3"

definition StoredKind_String :: "StoredKind \<Rightarrow> string" where
  "StoredKind_String k =
     (if k = StoredPublish then ''publish''
      else if k = StoredPubrel then ''pubrel''
      else if k = StoredInboundID then ''inbound-id''
      else ''StoredKind('' @ decimal (unat k) @ '')'')"

record StoredMessage =
  sm_Publish :: "PublishPacket option"
  sm_Seq :: uint64
  sm_ID :: uint16
  sm_Kind :: StoredKind

record storeKey =
  key_id :: uint16
  key_kind :: StoredKind

section \<open>The in-memory store\<close>

record memStore =
  ms_msgs :: "(storeKey \<times> StoredMessage) list"
  ms_seq :: uint64

definition newMemStore :: memStore where
  "newMemStore = \<lparr>ms_msgs = [], ms_seq = 0\<rparr>"

definition memStore_Save :: "StoredMessage \<Rightarrow> memStore \<Rightarrow> memStore" where
  "memStore_Save m s =
     (let k = \<lparr>key_id = sm_ID m, key_kind = sm_Kind m\<rparr> in
      case map_of (ms_msgs s) k of
        Some prev \<Rightarrow> s\<lparr>ms_msgs := AList.update k (m\<lparr>sm_Seq := sm_Seq prev\<rparr>) (ms_msgs s)\<rparr>
      | None \<Rightarrow>
          let s = s\<lparr>ms_seq := ms_seq s + 1\<rparr> in
          s\<lparr>ms_msgs := AList.update k (m\<lparr>sm_Seq := ms_seq s\<rparr>) (ms_msgs s)\<rparr>)"

definition memStore_Delete :: "uint16 \<Rightarrow> StoredKind \<Rightarrow> memStore \<Rightarrow> memStore" where
  "memStore_Delete ident kind s =
     s\<lparr>ms_msgs := AList.delete \<lparr>key_id = ident, key_kind = kind\<rparr> (ms_msgs s)\<rparr>"

definition memStore_Contains :: "uint16 \<Rightarrow> StoredKind \<Rightarrow> memStore \<Rightarrow> bool" where
  "memStore_Contains ident kind s \<longleftrightarrow>
     map_of (ms_msgs s) \<lparr>key_id = ident, key_kind = kind\<rparr> \<noteq> None"

definition memStore_All :: "memStore \<Rightarrow> StoredMessage list" where
  "memStore_All s = sort_key sm_Seq (map snd (ms_msgs s))"

definition memStore_Reset :: "memStore \<Rightarrow> memStore" where
  "memStore_Reset s = s\<lparr>ms_msgs := [], ms_seq := 0\<rparr>"

section \<open>The contract of a session store\<close>

text \<open>
  A store is abstracted to its replay sequence: the entries in the order in which their keys were
  first saved. The sequence numbers are private to the store.
\<close>

type_synonym entry = "uint16 \<times> StoredKind \<times> PublishPacket option"

definition entry :: "StoredMessage \<Rightarrow> entry" where
  "entry m = (sm_ID m, sm_Kind m, sm_Publish m)"

definition ekey :: "entry \<Rightarrow> uint16 \<times> StoredKind" where
  "ekey e = (fst e, fst (snd e))"

definition upsert :: "entry \<Rightarrow> entry list \<Rightarrow> entry list" where
  "upsert e es =
     (if ekey e \<in> ekey ` set es then map (\<lambda>e'. if ekey e' = ekey e then e else e') es else es @ [e])"

lemma map_ekey_upsert:
  "map ekey (upsert e es) = (if ekey e \<in> ekey ` set es then map ekey es else map ekey es @ [ekey e])"
  by (auto simp: upsert_def)

lemma ekey_upsert: "ekey ` set (upsert e es) = insert (ekey e) (ekey ` set es)"
  using arg_cong[OF map_ekey_upsert[of e es], of set] by (auto split: if_splits)

lemma ekey_filter: "ekey ` {e \<in> set es. ekey e \<noteq> x} = ekey ` set es - {x}"
  by auto

lemma ekey_entry: "ekey (entry m) = (sm_ID m, sm_Kind m)"
  by (simp add: ekey_def entry_def)

datatype storeOp = OpSave StoredMessage | OpDelete uint16 StoredKind | OpReset

fun isSave :: "storeOp \<Rightarrow> bool" where
  "isSave (OpSave m) = True"
| "isSave _ = False"

definition absOp :: "storeOp \<Rightarrow> entry list \<Rightarrow> entry list" where
  "absOp op es =
     (case op of OpSave m \<Rightarrow> upsert (entry m) es
      | OpDelete ident kind \<Rightarrow> filter (\<lambda>e. ekey e \<noteq> (ident, kind)) es
      | OpReset \<Rightarrow> [])"

text \<open>
  \<open>room\<close> is the number of fresh sequence numbers left; a store that has handed out all of them
  makes no promise.
\<close>

locale session_store =
  fixes empty :: 's
    and save :: "StoredMessage \<Rightarrow> 's \<Rightarrow> 's"
    and delete :: "uint16 \<Rightarrow> StoredKind \<Rightarrow> 's \<Rightarrow> 's"
    and reset :: "'s \<Rightarrow> 's"
    and contains :: "uint16 \<Rightarrow> StoredKind \<Rightarrow> 's \<Rightarrow> bool"
    and entries :: "'s \<Rightarrow> entry list"
    and invar :: "'s \<Rightarrow> bool"
    and room :: "'s \<Rightarrow> nat"
  assumes invar_empty: "invar empty"
    and invar_save: "invar s \<Longrightarrow> 0 < room s \<Longrightarrow> invar (save m s)"
    and invar_delete: "invar s \<Longrightarrow> invar (delete i k s)"
    and invar_reset: "invar (reset s)"
    and entries_empty: "entries empty = []"
    and entries_save: "invar s \<Longrightarrow> 0 < room s \<Longrightarrow> entries (save m s) = upsert (entry m) (entries s)"
    and entries_delete: "invar s \<Longrightarrow> entries (delete i k s) = filter (\<lambda>e. ekey e \<noteq> (i, k)) (entries s)"
    and entries_reset: "entries (reset s) = []"
    and entries_distinct: "invar s \<Longrightarrow> distinct (map ekey (entries s))"
    and contains_entries: "invar s \<Longrightarrow> contains i k s \<longleftrightarrow> (i, k) \<in> ekey ` set (entries s)"
    and room_save: "room s \<le> Suc (room (save m s))"
    and room_delete: "room s \<le> room (delete i k s)"
    and room_reset: "room s \<le> room (reset s)"
begin

definition apply_op :: "storeOp \<Rightarrow> 's \<Rightarrow> 's" where
  "apply_op op s =
     (case op of OpSave m \<Rightarrow> save m s | OpDelete i k \<Rightarrow> delete i k s | OpReset \<Rightarrow> reset s)"

lemma contains_save:
  "invar s \<Longrightarrow> 0 < room s \<Longrightarrow>
     contains i k (save m s) \<longleftrightarrow> (i, k) = (sm_ID m, sm_Kind m) \<or> contains i k s"
  by (simp add: contains_entries invar_save entries_save ekey_upsert ekey_entry)

lemma contains_delete: "invar s \<Longrightarrow> contains i k (delete i' k' s) \<longleftrightarrow> (i, k) \<noteq> (i', k') \<and> contains i k s"
  by (auto simp: contains_entries invar_delete entries_delete ekey_filter)

lemma contains_reset: "\<not> contains i k (reset s)"
  by (simp add: contains_entries invar_reset entries_reset)

lemma run_refines:
  assumes "invar s" "length (filter isSave ops) \<le> room s"
  shows "invar (fold apply_op ops s) \<and> entries (fold apply_op ops s) = fold absOp ops (entries s)"
  using assms
proof (induction ops arbitrary: s)
  case (Cons op ops)
  show ?case
  proof (cases op)
    case (OpSave m)
    with Cons.prems have r: "0 < room s" "length (filter isSave ops) \<le> room (save m s)"
      using room_save[of s m] by auto
    with Cons.IH[of "save m s"] Cons.prems(1) OpSave show ?thesis
      by (simp add: apply_op_def absOp_def invar_save entries_save)
  next
    case (OpDelete i k)
    with Cons.prems have "length (filter isSave ops) \<le> room (delete i k s)"
      using room_delete[of s i k] by auto
    with Cons.IH[of "delete i k s"] Cons.prems(1) OpDelete show ?thesis
      by (simp add: apply_op_def absOp_def invar_delete entries_delete)
  next
    case OpReset
    with Cons.prems have "length (filter isSave ops) \<le> room (reset s)"
      using room_reset[of s] by auto
    with Cons.IH[of "reset s"] OpReset show ?thesis
      by (simp add: apply_op_def absOp_def invar_reset entries_reset)
  qed
qed simp

end


section \<open>The in-memory store keeps the contract\<close>

definition keyOf :: "StoredMessage \<Rightarrow> storeKey" where
  "keyOf m = \<lparr>key_id = sm_ID m, key_kind = sm_Kind m\<rparr>"

definition memStore_ok :: "memStore \<Rightarrow> bool" where
  "memStore_ok s \<longleftrightarrow>
     distinct (map fst (ms_msgs s)) \<and> (\<forall>(k, m) \<in> set (ms_msgs s). k = keyOf m) \<and>
     distinct (map (sm_Seq \<circ> snd) (ms_msgs s)) \<and> (\<forall>(k, m) \<in> set (ms_msgs s). sm_Seq m \<le> ms_seq s)"

definition memStore_entries :: "memStore \<Rightarrow> entry list" where
  "memStore_entries s = map entry (memStore_All s)"

definition memStore_room :: "memStore \<Rightarrow> nat" where
  "memStore_room s = 2 ^ 64 - 1 - unat (ms_seq s)"

lemma sort_key_snoc_max:
  assumes "\<forall>y \<in> set xs. f y < f x"
  shows "sort_key f (xs @ [x]) = sort_key f xs @ [x]"
proof (rule properties_for_sort_key)
  show "mset (sort_key f xs @ [x]) = mset (xs @ [x])" by simp
  show "sorted (map f (sort_key f xs @ [x]))"
    using assms by (auto simp: sorted_append less_imp_le)
  show "filter (\<lambda>y. f k = f y) (sort_key f xs @ [x]) = filter (\<lambda>y. f k = f y) (xs @ [x])"
    if "k \<in> set (sort_key f xs @ [x])" for k
    using sort_key_stable[where f = f and xs = xs and k = "f k"] by (simp add: eq_commute[of "f k"])
qed

lemma insort_key_map:
  "\<forall>y \<in> set (x # xs). f (g y) = f y \<Longrightarrow> insort_key f (g x) (map g xs) = map g (insort_key f x xs)"
  by (induction xs) auto

lemma sort_key_map:
  "\<forall>y \<in> set xs. f (g y) = f y \<Longrightarrow> sort_key f (map g xs) = map g (sort_key f xs)"
  by (induction xs) (simp_all add: insort_key_map)

lemma update_existing:
  "distinct (map fst xs) \<Longrightarrow> k \<in> fst ` set xs \<Longrightarrow>
     AList.update k v xs = map (\<lambda>p. if fst p = k then (k, v) else p) xs"
proof (induction xs)
  case (Cons p xs)
  show ?case
  proof (cases "fst p = k")
    case True
    with Cons.prems(1) have "map (\<lambda>p. if fst p = k then (k, v) else p) xs = xs"
      by (intro map_idI) (auto simp: rev_image_eqI)
    with True show ?thesis by (cases p) auto
  qed (use Cons in \<open>cases p, auto\<close>)
qed simp

lemma update_new: "k \<notin> fst ` set xs \<Longrightarrow> AList.update k v xs = xs @ [(k, v)]"
  by (induction xs) auto

lemma memStore_Save_new:
  assumes "memStore_ok s" "map_of (ms_msgs s) (keyOf m) = None" "0 < memStore_room s"
  shows "memStore_ok (memStore_Save m s)" "memStore_All (memStore_Save m s) =
    memStore_All s @ [m\<lparr>sm_Seq := ms_seq s + 1\<rparr>]"
proof -
  let ?m = "m\<lparr>sm_Seq := ms_seq s + 1\<rparr>"
  have k: "keyOf m \<notin> fst ` set (ms_msgs s)" using assms(2) by (simp add: map_of_eq_None_iff)
  have eq: "memStore_Save m s = \<lparr>ms_msgs = ms_msgs s @ [(keyOf m, ?m)], ms_seq = ms_seq s + 1\<rparr>"
    using assms(2) k by (simp add: memStore_Save_def keyOf_def[symmetric] update_new Let_def)
  from assms(3) have "unat (ms_seq s) < 2 ^ 64 - 1" by (simp add: memStore_room_def)
  then have suc: "unat (ms_seq s + 1) = Suc (unat (ms_seq s))"
    by (simp add: unat_word_ariths)
  have old: "sm_Seq m' < ms_seq s + 1" if "(k', m') \<in> set (ms_msgs s)" for k' m'
    using that assms(1) suc by (fastforce simp: memStore_ok_def word_less_nat_alt word_le_nat_alt)
  show "memStore_ok (memStore_Save m s)"
    unfolding eq using assms(1) k old
    by (fastforce simp: memStore_ok_def keyOf_def intro: less_imp_le)
  show "memStore_All (memStore_Save m s) = memStore_All s @ [?m]"
    unfolding eq memStore_All_def using old by (auto intro!: sort_key_snoc_max)
qed


lemma memStore_Save_old:
  assumes "memStore_ok s" "map_of (ms_msgs s) (keyOf m) = Some prev"
  defines "upd \<equiv> \<lambda>m'. if keyOf m' = keyOf m then m\<lparr>sm_Seq := sm_Seq prev\<rparr> else m'"
  shows "memStore_ok (memStore_Save m s)" "memStore_All (memStore_Save m s) = map upd (memStore_All s)"
proof -
  let ?m = "m\<lparr>sm_Seq := sm_Seq prev\<rparr>"
  note ok = assms(1)[unfolded memStore_ok_def]
  have k: "keyOf m \<in> fst ` set (ms_msgs s)" "(keyOf m, prev) \<in> set (ms_msgs s)"
    using assms(2) by (auto dest: map_of_SomeD intro: rev_image_eqI)
  define L where "L = map (\<lambda>(k, m'). (k, upd m')) (ms_msgs s)"
  have upd: "AList.update (keyOf m) ?m (ms_msgs s) = L"
    unfolding L_def update_existing[OF conjunct1[OF ok] k(1)]
    by (rule map_cong) (use ok in \<open>auto simp: upd_def\<close>)
  have eq: "memStore_Save m s = s\<lparr>ms_msgs := L\<rparr>"
    using assms(2) by (simp add: memStore_Save_def keyOf_def[symmetric] upd)
  have same: "sm_Seq (upd m') = sm_Seq m' \<and> keyOf (upd m') = keyOf m'" if m': "(k', m') \<in> set (ms_msgs s)" for k' m'
  proof (cases "keyOf m' = keyOf m")
    case True
    with m' ok have "map_of (ms_msgs s) (keyOf m) = Some m'" by (intro map_of_is_SomeI) auto
    with assms(2) have "m' = prev" by simp
    with True show ?thesis by (simp add: upd_def keyOf_def)
  qed (simp add: upd_def)
  have fsts: "map fst (L) = map fst (ms_msgs s)"
    and seqs: "map (sm_Seq \<circ> snd) (L) = map (sm_Seq \<circ> snd) (ms_msgs s)"
    unfolding L_def using same by auto
  have all: "\<forall>(k', m') \<in> set (L). k' = keyOf m' \<and> sm_Seq m' \<le> ms_seq s"
    unfolding L_def
  proof clarsimp
    fix k' m' assume "(k', m') \<in> set (ms_msgs s)"
    with ok same[OF this] show "k' = keyOf (upd m') \<and> sm_Seq (upd m') \<le> ms_seq s" by auto
  qed
  show "memStore_ok (memStore_Save m s)"
    using ok all fsts seqs by (auto simp: eq memStore_ok_def)
  have "map snd (L) = map upd (map snd (ms_msgs s))" unfolding L_def by auto
  moreover have "\<forall>y \<in> set (map snd (ms_msgs s)). sm_Seq (upd y) = sm_Seq y" using same by auto
  ultimately show "memStore_All (memStore_Save m s) = map upd (memStore_All s)"
    using sort_key_map[of "map snd (ms_msgs s)" sm_Seq upd] by (simp add: eq memStore_All_def)
qed

lemma memStore_keys:
  assumes "memStore_ok s"
  shows "distinct (map ekey (memStore_entries s))"
    "map_of (ms_msgs s) \<lparr>key_id = i, key_kind = k\<rparr> \<noteq> None \<longleftrightarrow> (i, k) \<in> ekey ` set (memStore_entries s)"
proof -
  have ek: "ekey (entry m) = (key_id (keyOf m), key_kind (keyOf m))" for m
    by (simp add: ekey_entry keyOf_def)
  have eq: "map (\<lambda>(k, m). ekey (entry m)) (ms_msgs s) = map (\<lambda>k. (key_id k, key_kind k)) (map fst (ms_msgs s))"
    using assms by (auto simp: memStore_ok_def ek)
  have "inj_on (\<lambda>k :: storeKey. (key_id k, key_kind k)) A" for A
    by (auto intro!: inj_onI storeKey.equality)
  then have "distinct (map (\<lambda>(k, m). ekey (entry m)) (ms_msgs s))"
    unfolding eq distinct_map[of _ "map fst (ms_msgs s)"] using assms by (simp add: memStore_ok_def)
  then have "distinct (map (ekey \<circ> entry) (map snd (ms_msgs s)))"
    by (simp add: comp_def case_prod_unfold)
  moreover have "mset (map ekey (memStore_entries s)) = mset (map (ekey \<circ> entry) (map snd (ms_msgs s)))"
    by (simp add: memStore_entries_def memStore_All_def multiset.map_comp comp_assoc)
  ultimately show "distinct (map ekey (memStore_entries s))"
    using mset_eq_imp_distinct_iff by blast
  show "map_of (ms_msgs s) \<lparr>key_id = i, key_kind = k\<rparr> \<noteq> None \<longleftrightarrow> (i, k) \<in> ekey ` set (memStore_entries s)"
    using assms
    by (force simp: map_of_eq_None_iff memStore_ok_def memStore_entries_def memStore_All_def ekey_entry keyOf_def image_iff)
qed


lemma memStore_ok_Delete: "memStore_ok s \<Longrightarrow> memStore_ok (memStore_Delete i k s)"
  by (auto simp: memStore_ok_def memStore_Delete_def AList.delete_eq distinct_map inj_on_def)

lemma memStore_entries_Save:
  assumes "memStore_ok s" "0 < memStore_room s"
  shows "memStore_ok (memStore_Save m s) \<and>
    memStore_entries (memStore_Save m s) = upsert (entry m) (memStore_entries s)"
proof (cases "map_of (ms_msgs s) (keyOf m)")
  case None
  then have "ekey (entry m) \<notin> ekey ` set (memStore_entries s)"
    using memStore_keys(2)[OF assms(1), of "sm_ID m" "sm_Kind m"] by (simp add: keyOf_def ekey_entry)
  with memStore_Save_new[OF assms(1) None assms(2)] show ?thesis
    by (simp add: memStore_entries_def upsert_def entry_def)
next
  case (Some prev)
  then have mem: "ekey (entry m) \<in> ekey ` set (memStore_entries s)"
    using memStore_keys(2)[OF assms(1), of "sm_ID m" "sm_Kind m"] by (auto simp: keyOf_def ekey_entry)
  have "keyOf m' = keyOf m \<longleftrightarrow> ekey (entry m') = ekey (entry m)" for m'
    by (auto simp: keyOf_def ekey_entry)
  with memStore_Save_old[OF assms(1) Some] mem show ?thesis
    by (simp add: memStore_entries_def upsert_def entry_def if_distrib cong: if_cong)
qed

lemma memStore_entries_Delete:
  assumes "memStore_ok s"
  shows "memStore_entries (memStore_Delete i k s) = filter (\<lambda>e. ekey e \<noteq> (i, k)) (memStore_entries s)"
proof -
  have "map snd (filter (\<lambda>(k', _). \<lparr>key_id = i, key_kind = k\<rparr> \<noteq> k') (ms_msgs s)) =
      filter (\<lambda>m. ekey (entry m) \<noteq> (i, k)) (map snd (ms_msgs s))"
    using assms by (auto simp: filter_map memStore_ok_def ekey_entry keyOf_def comp_def intro!: arg_cong[of _ _ "map snd"] filter_cong)
  then show ?thesis
    by (simp add: memStore_entries_def memStore_All_def memStore_Delete_def AList.delete_eq
        filter_map filter_sort comp_def)
qed

lemma memStore_empty:
  "memStore_ok newMemStore" "memStore_entries newMemStore = []"
  "memStore_ok (memStore_Reset s)" "memStore_entries (memStore_Reset s) = []"
  by (simp_all add: memStore_ok_def newMemStore_def memStore_Reset_def memStore_entries_def memStore_All_def)

lemma memStore_rooms:
  "memStore_room s \<le> Suc (memStore_room (memStore_Save m s))"
  "memStore_room s \<le> memStore_room (memStore_Delete i k s)"
  "memStore_room s \<le> memStore_room (memStore_Reset s)"
proof -
  have "unat (ms_seq s + 1) \<le> Suc (unat (ms_seq s))" by (simp add: unat_word_ariths)
  then show "memStore_room s \<le> Suc (memStore_room (memStore_Save m s))"
    by (auto simp: memStore_room_def memStore_Save_def Let_def split: option.split)
qed (simp_all add: memStore_room_def memStore_Delete_def memStore_Reset_def)

lemma memStore_Contains_iff:
  "memStore_ok s \<Longrightarrow> memStore_Contains i k s \<longleftrightarrow> (i, k) \<in> ekey ` set (memStore_entries s)"
  unfolding memStore_Contains_def by (rule memStore_keys(2))

interpretation mem_store: session_store newMemStore memStore_Save memStore_Delete memStore_Reset
  memStore_Contains memStore_entries memStore_ok memStore_room
  by unfold_locales
     (simp_all add: memStore_ok_Delete memStore_entries_Save memStore_entries_Delete memStore_keys
       memStore_Contains_iff memStore_empty memStore_rooms)

text \<open>The operations of the store as steps, and their effect through the interface.\<close>

definition memStore_apply :: "storeOp \<Rightarrow> memStore \<Rightarrow> memStore" where
  "memStore_apply op s =
     (case op of OpSave m \<Rightarrow> memStore_Save m s
      | OpDelete i k \<Rightarrow> memStore_Delete i k s
      | OpReset \<Rightarrow> memStore_Reset s)"

lemma memStore_apply_eq: "memStore_apply = mem_store.apply_op"
  by (simp add: memStore_apply_def[abs_def] mem_store.apply_op_def[abs_def])

text \<open>
  C21: The in-memory store implements the session-store contract. After any sequence of saves,
  deletes and resets (with fewer than \<open>2\<^sup>6\<^sup>4\<close> saves, the range of the sequence counter)
  \<^verbatim>\<open>All\<close> returns exactly the live entries in the order their keys were first saved: a re-save
  replaces the entry in place, a delete removes it, a reset empties the store.
\<close>

theorem memStore_refines:
  assumes "length (filter isSave ops) < 2 ^ 64"
  shows "map entry (memStore_All (fold memStore_apply ops newMemStore)) = fold absOp ops []"
  using mem_store.run_refines[of newMemStore ops] mem_store.invar_empty mem_store.entries_empty assms
  by (simp add: memStore_apply_eq memStore_entries_def memStore_room_def newMemStore_def)

theorem memStore_refines_witness:
  "map entry (memStore_All (fold memStore_apply
     [OpSave \<lparr>sm_Publish = None, sm_Seq = 0, sm_ID = 7, sm_Kind = StoredPubrel\<rparr>,
      OpSave \<lparr>sm_Publish = None, sm_Seq = 0, sm_ID = 3, sm_Kind = StoredInboundID\<rparr>,
      OpSave \<lparr>sm_Publish = None, sm_Seq = 0, sm_ID = 7, sm_Kind = StoredPubrel\<rparr>,
      OpDelete 9 StoredPublish] newMemStore))
   = [(7, StoredPubrel, None), (3, StoredInboundID, None)]"
  by (subst memStore_refines) (simp_all add: absOp_def upsert_def entry_def ekey_def)

end
