(* ===== verification/Mqtt_Errors.thy ===== *)
theory Mqtt_Errors
  imports Mqtt_Reason
begin

text \<open>
  The client's errors (\<^verbatim>\<open>errors.go\<close>): the sentinels, the broker's reason as \<^verbatim>\<open>ReasonError\<close>, and the
  errors that come from the context, the wire codec or the transport. As in the codec, an error
  is what \<^verbatim>\<open>errors.Is\<close> and \<^verbatim>\<open>errors.As\<close> see of it.
\<close>

record ReasonError =
  re_Packet :: gostring
  re_Code :: ReasonCode
  re_Reason :: gostring

definition ReasonError_Error :: "ReasonError \<Rightarrow> gostring" where
  "ReasonError_Error e =
     (if re_Reason e \<noteq> [] then
        str ''mqtt: '' @ re_Packet e @ str '' rejected: '' @ str (ReasonCode_String (re_Code e)) @
        str '' (0x'' @ str (hex2 (re_Code e)) @ str ''): '' @ re_Reason e
      else
        str ''mqtt: '' @ re_Packet e @ str '' rejected: '' @ str (ReasonCode_String (re_Code e)) @
        str '' (0x'' @ str (hex2 (re_Code e)) @ str '')'')"

text \<open>
  \<^verbatim>\<open>errAckTimeout\<close> (\<^verbatim>\<open>publish.go\<close>) and \<^verbatim>\<open>ErrCircuitOpen\<close> (\<^verbatim>\<open>breaker.go\<close>) are sentinels too; \<open>Transport\<close> is
  any error of the network stack, \<open>Unspecific\<close> an error that wraps no sentinel, \<open>Rejected\<close> a \<^verbatim>\<open>*ReasonError\<close>, \<open>Wire\<close> a sentinel of the codec.
\<close>

datatype cerror =
    ErrNotConnected
  | ErrAlreadyConnected
  | ErrConnectionLost
  | ErrPacketTooLarge
  | ErrPacketIDExhausted
  | ErrAckTimeout
  | ErrCircuitOpen
  | CtxCanceled
  | CtxDeadlineExceeded
  | Transport
  | Unspecific
  | Rejected ReasonError
  | Wire gerror

end
