(* ===== verification/Mqtt_Alloc.thy ===== *)
theory Mqtt_Alloc
  imports Mqtt_Errors
begin

text \<open>
  The packet-identifier allocator (\<^verbatim>\<open>session.go\<close>). Each method runs under the mutex and is one atomic
  function. Like the send quota it hands out resources stamped with a generation and ignores the
  release of an older generation: the locale \<open>generational\<close> is the contract both keep.
\<close>

section \<open>The packet-identifier allocator\<close>

definition packetIDSpace :: nat where "packetIDSpace = 65536"

text \<open>\<^verbatim>\<open>used\<close> is the array of 1024 words.\<close>

record idAllocator =
  ia_used :: "uint64 list"
  ia_next :: uint16
  ia_gen :: uint64

definition newIdAllocator :: idAllocator where
  "newIdAllocator = \<lparr>ia_used = replicate 1024 0, ia_next = 0, ia_gen = 0\<rparr>"

text \<open>The three accesses to the word and bit of an identifier: test, set and clear.\<close>

definition isUsed :: "uint16 \<Rightarrow> idAllocator \<Rightarrow> bool" where
  "isUsed ident a \<longleftrightarrow>
     (ia_used a ! unat (drop_bit 6 ident)) AND push_bit (unat (ident AND 63)) 1 \<noteq> 0"

definition markUsed :: "uint16 \<Rightarrow> idAllocator \<Rightarrow> idAllocator" where
  "markUsed ident a =
     (let word = unat (drop_bit 6 ident) in
      a\<lparr>ia_used := (ia_used a)[word := (ia_used a ! word) OR push_bit (unat (ident AND 63)) 1]\<rparr>)"

definition markFree :: "uint16 \<Rightarrow> idAllocator \<Rightarrow> idAllocator" where
  "markFree ident a =
     (let word = unat (drop_bit 6 ident) in
      a\<lparr>ia_used := (ia_used a)[word := (ia_used a ! word) AND NOT (push_bit (unat (ident AND 63)) 1)]\<rparr>)"

fun Acquire_loop :: "nat \<Rightarrow> idAllocator \<Rightarrow> (uint16 \<times> uint64 \<times> cerror option) \<times> idAllocator" where
  "Acquire_loop 0 a = ((0, ia_gen a, Some ErrPacketIDExhausted), a)"
| "Acquire_loop (Suc n) a =
     (let ident = ia_next a;
          a = a\<lparr>ia_next := ia_next a + 1\<rparr> in
      if ident = 0 then Acquire_loop n a
      else if \<not> isUsed ident a then ((ident, ia_gen a, None), markUsed ident a)
      else Acquire_loop n a)"

definition Acquire :: "idAllocator \<Rightarrow> (uint16 \<times> uint64 \<times> cerror option) \<times> idAllocator" where
  "Acquire a = Acquire_loop packetIDSpace a"

definition ReleaseAt :: "uint16 \<Rightarrow> uint64 \<Rightarrow> idAllocator \<Rightarrow> idAllocator" where
  "ReleaseAt ident gen a =
     (if ident = 0 then a else if gen = ia_gen a then markFree ident a else a)"

definition idAllocator_generation :: "idAllocator \<Rightarrow> uint64" where
  "idAllocator_generation a = ia_gen a"

definition idAllocator_Reset :: "idAllocator \<Rightarrow> idAllocator" where
  "idAllocator_Reset a = a\<lparr>ia_used := replicate 1024 0, ia_next := 0, ia_gen := ia_gen a + 1\<rparr>"

section \<open>The bitmap as a set of identifiers\<close>

definition alloc_ok :: "idAllocator \<Rightarrow> bool" where
  "alloc_ok a \<longleftrightarrow> length (ia_used a) = 1024"

definition usedIDs :: "idAllocator \<Rightarrow> uint16 set" where
  "usedIDs a = {ident. bit (ia_used a ! unat (drop_bit 6 ident)) (unat (ident AND 63))}"

lemma and_63: "(ident :: uint16) AND 63 = take_bit 6 ident"
  by (simp add: take_bit_eq_mask mask_eq_exp_minus_1)

lemma word_index:
  fixes ident :: uint16
  shows "unat (drop_bit 6 ident) = unat ident div 64" "unat (ident AND 63) = unat ident mod 64"
proof -
  show "unat (drop_bit 6 ident) = unat ident div 64"
    unfolding unat_drop_bit_eq by (simp add: drop_bit_eq_div)
  show "unat (ident AND 63) = unat ident mod 64"
    unfolding and_63 unsigned_take_bit_eq by (simp add: take_bit_eq_mod)
qed

lemma word_index_bound: "unat (drop_bit 6 (ident :: uint16)) < 1024"
  using unsigned_less[of ident, where 'a = nat] by (simp add: word_index)

lemma word_index_inject:
  "unat (drop_bit 6 i) = unat (drop_bit 6 j) \<and> unat (i AND 63) = unat (j AND 63) \<longleftrightarrow> i = (j :: uint16)"
  unfolding word_index word_unat_eq_iff[of i j] by (metis div_mult_mod_eq)

lemma and_push_bit_1: "w AND push_bit n 1 = (0 :: uint64) \<longleftrightarrow> \<not> bit w n" if "n < 64" for w
proof
  assume "w AND push_bit n 1 = 0"
  then have "\<not> bit (w AND push_bit n 1) n" by simp
  with that show "\<not> bit w n" by (simp add: bit_simps)
next
  assume "\<not> bit w n"
  then show "w AND push_bit n 1 = 0" by (intro bit_word_eqI) (auto simp: bit_simps)
qed

lemma bit_index_less: "unat ((ident :: uint16) AND 63) < 64"
  by (simp add: word_index)

lemma isUsed_iff: "isUsed ident a \<longleftrightarrow> ident \<in> usedIDs a"
  by (simp only: isUsed_def usedIDs_def mem_Collect_eq and_push_bit_1[OF bit_index_less] not_not)

lemma usedIDs_markUsed [simp]:
  assumes "alloc_ok a"
  shows "usedIDs (markUsed ident a) = insert ident (usedIDs a)"
proof (rule set_eqI)
  fix j
  show "j \<in> usedIDs (markUsed ident a) \<longleftrightarrow> j \<in> insert ident (usedIDs a)"
    using assms word_index_bound[of ident] word_index_inject[of ident j] bit_index_less[of j]
    by (cases "unat (drop_bit 6 j) = unat (drop_bit 6 ident)")
       (auto simp: usedIDs_def markUsed_def Let_def alloc_ok_def nth_list_update bit_simps)
qed

lemma usedIDs_markFree [simp]:
  assumes "alloc_ok a"
  shows "usedIDs (markFree ident a) = usedIDs a - {ident}"
proof (rule set_eqI)
  fix j
  show "j \<in> usedIDs (markFree ident a) \<longleftrightarrow> j \<in> usedIDs a - {ident}"
    using assms word_index_bound[of ident] word_index_inject[of ident j] bit_index_less[of j]
    by (cases "unat (drop_bit 6 j) = unat (drop_bit 6 ident)")
       (auto simp: usedIDs_def markFree_def Let_def alloc_ok_def nth_list_update bit_simps)
qed

lemma usedIDs_next [simp]: "usedIDs (a\<lparr>ia_next := n\<rparr>) = usedIDs a"
  by (simp add: usedIDs_def)

lemma mark_simps [simp]:
  "ia_next (markUsed i a) = ia_next a" "ia_gen (markUsed i a) = ia_gen a"
  "ia_next (markFree i a) = ia_next a" "ia_gen (markFree i a) = ia_gen a"
  "alloc_ok (markUsed i a) = alloc_ok a" "alloc_ok (markFree i a) = alloc_ok a"
  "alloc_ok (a\<lparr>ia_next := n\<rparr>) = alloc_ok a"
  by (simp_all add: markUsed_def markFree_def alloc_ok_def Let_def)

lemma usedIDs_new: "usedIDs \<lparr>ia_used = replicate 1024 0, ia_next = n, ia_gen = g\<rparr> = {}"
  using word_index_bound by (auto simp: usedIDs_def)

section \<open>What an acquisition finds\<close>

text \<open>The identifiers in the order the cursor visits them; the first that can be handed out.\<close>

definition candidate :: "idAllocator \<Rightarrow> nat \<Rightarrow> bool" where
  "candidate a k \<longleftrightarrow> ia_next a + of_nat k \<noteq> 0 \<and> ia_next a + of_nat k \<notin> usedIDs a"

lemma find_Suc:
  "find P [0..<Suc n] = (if P 0 then Some 0 else map_option Suc (find (\<lambda>k. P (Suc k)) [0..<n]))"
proof -
  have "find P (map Suc xs) = map_option Suc (find (\<lambda>k. P (Suc k)) xs)" for xs
    by (induction xs) auto
  then show ?thesis by (simp add: upt_conv_Cons map_Suc_upt[symmetric] del: upt_Suc)
qed

lemma Acquire_loop_find:
  "Acquire_loop n a =
     (case find (candidate a) [0..<n] of
        None \<Rightarrow> ((0, ia_gen a, Some ErrPacketIDExhausted), a\<lparr>ia_next := ia_next a + of_nat n\<rparr>)
      | Some k \<Rightarrow> ((ia_next a + of_nat k, ia_gen a, None),
          markUsed (ia_next a + of_nat k) (a\<lparr>ia_next := ia_next a + of_nat k + 1\<rparr>)))"
proof (induction n arbitrary: a)
  case 0
  then show ?case by simp
next
  case (Suc n)
  define b where "b = a\<lparr>ia_next := ia_next a + 1\<rparr>"
  have "isUsed (ia_next a) b \<longleftrightarrow> ia_next a \<in> usedIDs a" by (simp add: b_def isUsed_iff)
  then have step: "Acquire_loop (Suc n) a =
      (if candidate a 0 then ((ia_next a, ia_gen a, None), markUsed (ia_next a) b)
       else Acquire_loop n b)"
    by (auto simp: candidate_def Let_def b_def)
  have b: "candidate b = (\<lambda>k. candidate a (Suc k))" "ia_next b = ia_next a + 1" "ia_gen b = ia_gen a"
    "b\<lparr>ia_next := m\<rparr> = a\<lparr>ia_next := m\<rparr>" for m
    by (simp_all add: b_def candidate_def fun_eq_iff add.assoc)
  show ?case
    unfolding step Suc find_Suc b
    by (simp add: b_def add.assoc split: option.split)
qed

lemma visit: "ia_next a + of_nat (unat (j - ia_next a)) = (j :: uint16)"
  by simp

lemma visit_bound: "unat (j - i :: uint16) < packetIDSpace"
  using unsigned_less[of "j - i", where 'a = nat] by (simp add: packetIDSpace_def)

lemma candidate_visit: "candidate a (unat (j - ia_next a)) \<longleftrightarrow> j \<noteq> 0 \<and> j \<notin> usedIDs a"
  by (simp add: candidate_def)

lemma Acquire_None:
  assumes "find (candidate a) [0..<packetIDSpace] = None"
  shows "Acquire a = ((0, ia_gen a, Some ErrPacketIDExhausted), a)" "usedIDs a \<union> {0} = UNIV"
proof -
  have "ia_next a + of_nat packetIDSpace = ia_next a" by (simp add: packetIDSpace_def)
  then show "Acquire a = ((0, ia_gen a, Some ErrPacketIDExhausted), a)"
    by (simp add: Acquire_def Acquire_loop_find assms)
  have "\<not> candidate a k" if "k < packetIDSpace" for k
    using assms that by (simp add: find_None_iff)
  then show "usedIDs a \<union> {0} = UNIV"
    using visit_bound candidate_visit by fastforce
qed

lemma Acquire_Some:
  assumes "find (candidate a) [0..<packetIDSpace] = Some k"
  defines "i \<equiv> ia_next a + of_nat k"
  shows "Acquire a = ((i, ia_gen a, None), markUsed i (a\<lparr>ia_next := i + 1\<rparr>))"
    "i \<noteq> 0" "i \<notin> usedIDs a" "j \<noteq> 0 \<Longrightarrow> j \<notin> usedIDs a \<Longrightarrow> i - ia_next a \<le> j - ia_next a"
proof -
  show "Acquire a = ((i, ia_gen a, None), markUsed i (a\<lparr>ia_next := i + 1\<rparr>))"
    by (simp add: Acquire_def Acquire_loop_find assms)
  have k: "k < packetIDSpace" "candidate a k" "\<And>m. m < k \<Longrightarrow> \<not> candidate a m"
    using assms(1) by (auto simp: find_Some_iff)
  then show "i \<noteq> 0" "i \<notin> usedIDs a" by (auto simp: candidate_def i_def)
  assume "j \<noteq> 0" "j \<notin> usedIDs a"
  then have "k \<le> unat (j - ia_next a)" using k(3) candidate_visit not_le_imp_less by blast
  moreover have "unat (i - ia_next a) = k"
    using k(1) by (simp add: i_def packetIDSpace_def unsigned_of_nat take_bit_nat_eq_self)
  ultimately show "i - ia_next a \<le> j - ia_next a" by (simp add: word_le_nat_alt)
qed

text \<open>
  The allocator hands out the nearest free identifier. From any state, \<^verbatim>\<open>Acquire\<close> either
  returns a non-zero identifier that was free, marks exactly that one as used, and moves the
  cursor behind it, and no free identifier lies between the old cursor and the one returned
  (distances wrap at \<open>2\<^sup>1\<^sup>6\<close>); or it fails with \<^verbatim>\<open>ErrPacketIDExhausted\<close>, changing nothing, and
  then all 65535 non-zero identifiers are in use.
\<close>

theorem Acquire_nearest:
  assumes "alloc_ok a"
  shows "case Acquire a of ((i, g, err), a') \<Rightarrow>
    g = ia_gen a \<and> ia_gen a' = ia_gen a \<and> alloc_ok a' \<and>
    (case err of
       None \<Rightarrow> i \<noteq> 0 \<and> i \<notin> usedIDs a \<and> usedIDs a' = insert i (usedIDs a) \<and> ia_next a' = i + 1 \<and>
         (\<forall>j. j \<noteq> 0 \<longrightarrow> j \<notin> usedIDs a \<longrightarrow> i - ia_next a \<le> j - ia_next a)
     | Some e \<Rightarrow> e = ErrPacketIDExhausted \<and> i = 0 \<and> a' = a \<and> usedIDs a \<union> {0} = UNIV)"
proof (cases "find (candidate a) [0..<packetIDSpace]")
  case None
  then show ?thesis using assms Acquire_None[OF None] by simp
next
  case (Some k)
  note A = Acquire_Some[OF Some]
  show ?thesis using assms A(2,3) A(4) by (simp add: A(1))
qed

lemma Acquire_new:
  "Acquire newIdAllocator = ((1, 0, None), markUsed 1 (newIdAllocator\<lparr>ia_next := 2\<rparr>))"
proof -
  have "packetIDSpace = Suc (Suc 65534)" by (simp add: packetIDSpace_def)
  then have "Acquire newIdAllocator = Acquire_loop (Suc (Suc 65534)) newIdAllocator"
    by (simp only: Acquire_def)
  then show ?thesis
    by (simp only: Acquire_loop.simps) (simp add: isUsed_iff usedIDs_new newIdAllocator_def)
qed

lemma newIdAllocator_simps [simp]:
  "alloc_ok newIdAllocator" "usedIDs newIdAllocator = {}" "ia_gen newIdAllocator = 0"
  by (simp_all add: alloc_ok_def newIdAllocator_def usedIDs_new)

theorem Acquire_nearest_witness:
  "alloc_ok newIdAllocator \<and> usedIDs (snd (Acquire newIdAllocator)) = {1}"
  using Acquire_nearest[of newIdAllocator] by (simp add: Acquire_new)

section \<open>Generations\<close>

text \<open>
  A resource that is handed out under a generation: a release under another generation does
  nothing, and only a reset moves the generation on. \<open>others\<close> are the remaining operations.
\<close>

datatype ('r, 'c, 'o) genOp = GenRelease 'r uint64 | GenReset 'c | GenOther 'o

fun genResets :: "('r, 'c, 'o) genOp list \<Rightarrow> nat" where
  "genResets [] = 0"
| "genResets (GenReset c # ops) = Suc (genResets ops)"
| "genResets (op # ops) = genResets ops"

locale generational =
  fixes gen :: "'s \<Rightarrow> uint64"
    and release :: "'r \<Rightarrow> uint64 \<Rightarrow> 's \<Rightarrow> 's"
    and reset :: "'c \<Rightarrow> 's \<Rightarrow> 's"
    and others :: "'o \<Rightarrow> 's \<Rightarrow> 's"
  assumes stale: "g \<noteq> gen s \<Longrightarrow> release r g s = s"
    and gen_release: "gen (release r g s) = gen s"
    and gen_reset: "gen (reset c s) = gen s + 1"
    and gen_others: "gen (others x s) = gen s"
begin

fun apply_gen :: "('r, 'c, 'o) genOp \<Rightarrow> 's \<Rightarrow> 's" where
  "apply_gen (GenRelease r g) s = release r g s"
| "apply_gen (GenReset c) s = reset c s"
| "apply_gen (GenOther x) s = others x s"

definition run_gen :: "('r, 'c, 'o) genOp list \<Rightarrow> 's \<Rightarrow> 's" where
  "run_gen ops s = fold apply_gen ops s"

lemma gen_run: "gen (run_gen ops s) = gen s + of_nat (genResets ops)"
  unfolding run_gen_def
proof (induction ops arbitrary: s)
  case Nil
  then show ?case by simp
next
  case (Cons op ops)
  then show ?case by (cases op) (simp_all add: gen_release gen_reset gen_others add.assoc)
qed

lemma stale_after_reset:
  assumes "0 < genResets ops" "genResets ops < 2 ^ 64"
  shows "release r (gen s) (run_gen ops s) = run_gen ops s"
proof (rule stale)
  have "(of_nat (genResets ops) :: uint64) \<noteq> 0"
    using assms by (simp add: word_of_nat_eq_0_iff nat_dvd_not_less)
  then show "gen s \<noteq> gen (run_gen ops s)" by (simp add: gen_run)
qed

end

lemma alloc_release_simps [simp]:
  "ia_gen (ReleaseAt i g a) = ia_gen a" "alloc_ok (ReleaseAt i g a) = alloc_ok a"
  by (simp_all add: ReleaseAt_def)

lemma Acquire_gen: "ia_gen (snd (Acquire a)) = ia_gen a"
  by (cases "find (candidate a) [0..<packetIDSpace]") (simp_all add: Acquire_None Acquire_Some(1))

lemma alloc_reset_simps [simp]:
  "ia_gen (idAllocator_Reset a) = ia_gen a + 1" "alloc_ok (idAllocator_Reset a)"
  "usedIDs (idAllocator_Reset a) = {}"
  using word_index_bound by (auto simp: idAllocator_Reset_def alloc_ok_def usedIDs_def)

interpretation alloc_gen: generational idAllocator_generation ReleaseAt
  "\<lambda>_ :: unit. idAllocator_Reset" "\<lambda>_ :: unit. \<lambda>a. snd (Acquire a)"
  by unfold_locales (simp_all add: idAllocator_generation_def ReleaseAt_def Acquire_gen)

section \<open>No two exchanges share an identifier\<close>

text \<open>
  The allocator together with the identifiers its clients hold, each with the generation it was
  acquired under. Any of them may be released at any time, also long after a reset; the only
  assumption is that the 64-bit generation does not come round to one that is still held.
\<close>

inductive alloc_step ::
  "idAllocator \<times> (uint16 \<times> uint64) set \<Rightarrow> idAllocator \<times> (uint16 \<times> uint64) set \<Rightarrow> bool" where
  acquired: "Acquire a = ((i, g, None), a') \<Longrightarrow> alloc_step (a, H) (a', insert (i, g) H)"
| exhausted: "Acquire a = ((i, g, Some e), a') \<Longrightarrow> alloc_step (a, H) (a', H)"
| released: "(i, g) \<in> H \<Longrightarrow> alloc_step (a, H) (ReleaseAt i g a, H - {(i, g)})"
| discarded: "ia_gen a + 1 \<notin> snd ` H \<Longrightarrow> alloc_step (a, H) (idAllocator_Reset a, H)"

definition alloc_inv :: "idAllocator \<times> (uint16 \<times> uint64) set \<Rightarrow> bool" where
  "alloc_inv = (\<lambda>(a, H). alloc_ok a \<and> usedIDs a = {i. (i, ia_gen a) \<in> H} \<and> 0 \<notin> fst ` H)"

lemma Acquire_cases:
  assumes "alloc_ok a" "Acquire a = ((i, g, err), a')"
  obtains (fresh) "err = None" "i \<noteq> 0" "i \<notin> usedIDs a" "usedIDs a' = insert i (usedIDs a)"
      "g = ia_gen a" "ia_gen a' = ia_gen a" "alloc_ok a'"
    | (full) "err = Some ErrPacketIDExhausted" "a' = a"
proof (cases "find (candidate a) [0..<packetIDSpace]")
  case None
  then show ?thesis using assms Acquire_None(1)[OF None] by (intro full) auto
next
  case (Some k)
  then show ?thesis using assms Acquire_Some(1-3)[OF Some] by (intro fresh) auto
qed

lemma alloc_inv_step:
  assumes "alloc_step s s'" "alloc_inv s"
  shows "alloc_inv s'"
  using assms
proof cases
  case (acquired a i g a' H)
  then have "alloc_ok a" using assms(2) by (simp add: alloc_inv_def)
  then show ?thesis
    using acquired assms(2) by (cases rule: Acquire_cases[OF _ acquired(3)]) (auto simp: alloc_inv_def)
next
  case (exhausted a i g e a' H)
  then have "alloc_ok a" using assms(2) by (simp add: alloc_inv_def)
  then show ?thesis
    using exhausted assms(2) by (cases rule: Acquire_cases[OF _ exhausted(3)]) auto
next
  case (released i g H a)
  then show ?thesis using assms(2) by (force simp: alloc_inv_def ReleaseAt_def)
next
  case (discarded a H)
  then show ?thesis using assms(2) by (force simp: alloc_inv_def)
qed

lemma alloc_inv_reachable: "alloc_step\<^sup>*\<^sup>* s s' \<Longrightarrow> alloc_inv s \<Longrightarrow> alloc_inv s'"
  by (induction rule: rtranclp_induct) (auto intro: alloc_inv_step)

lemma alloc_inv_new: "alloc_inv (newIdAllocator, {})"
  by (simp add: alloc_inv_def)

text \<open>
  C9: No two live exchanges of a session share a packet identifier. In every state reachable by
  any interleaving of acquisitions, releases (stale ones included) and session resets, the
  identifiers marked in the bitmap are exactly those held under the current generation, so an
  identifier that is acquired next is non-zero and held by nobody else in this session.
\<close>

theorem identifiers_unique:
  assumes "alloc_step\<^sup>*\<^sup>* (newIdAllocator, {}) (a, H)"
  shows "usedIDs a = {i. (i, ia_gen a) \<in> H} \<and>
    (\<forall>i g a'. Acquire a = ((i, g, None), a') \<longrightarrow> i \<noteq> 0 \<and> g = ia_gen a \<and> (i, g) \<notin> H)"
proof -
  have inv: "alloc_inv (a, H)" using alloc_inv_reachable[OF assms alloc_inv_new] .
  then have "alloc_ok a" "usedIDs a = {i. (i, ia_gen a) \<in> H}" by (auto simp: alloc_inv_def)
  then show ?thesis by (auto elim: Acquire_cases)
qed

theorem identifiers_unique_witness:
  "alloc_step\<^sup>*\<^sup>* (newIdAllocator, {}) (snd (Acquire newIdAllocator), {(1, 0)}) \<and>
   usedIDs (snd (Acquire newIdAllocator)) = {1}"
proof -
  have "alloc_step (newIdAllocator, {}) (snd (Acquire newIdAllocator), {(1, 0)})"
    using acquired[OF Acquire_new, of "{}"] by (simp add: Acquire_new)
  then have "alloc_step\<^sup>*\<^sup>* (newIdAllocator, {}) (snd (Acquire newIdAllocator), {(1, 0)})" by simp
  with identifiers_unique[OF this] show ?thesis by (auto simp: Acquire_gen)
qed

end
