(* ===== verification/Mqtt_Quota.thy ===== *)
theory Mqtt_Quota
  imports Mqtt_Alloc "HOL-Library.Multiset"
begin

text \<open>
  The send quota (\<^verbatim>\<open>session.go\<close>). The wake channel is a number: \<^verbatim>\<open>broadcast\<close> closes the current
  channel and installs the next one, so the channels below \<open>qu_wake\<close> are exactly the closed ones.
  \<^verbatim>\<open>acquire\<close> is a loop around one critical section, \<open>acquire_try\<close>, and a wait; the loop is a small
  state machine whose runs interleave with releases, resets, failures and other acquirers.
\<close>

record quota =
  qu_wake :: nat
  qu_avail :: int
  qu_gen :: uint64
  qu_failed :: bool

definition newQuota :: "int \<Rightarrow> quota" where
  "newQuota n = \<lparr>qu_wake = 0, qu_avail = n, qu_gen = 0, qu_failed = False\<rparr>"

definition broadcast :: "quota \<Rightarrow> quota" where
  "broadcast q = q\<lparr>qu_wake := Suc (qu_wake q)\<rparr>"

definition closedChan :: "quota \<Rightarrow> nat \<Rightarrow> bool" where
  "closedChan q w \<longleftrightarrow> w < qu_wake q"

datatype acquirer = Trying | Parked nat | Returned uint64 "cerror option"

definition acquire_try :: "quota \<Rightarrow> acquirer \<times> quota" where
  "acquire_try q =
     (if qu_failed q then (Returned (qu_gen q) (Some ErrConnectionLost), q)
      else if qu_avail q > 0 then (Returned (qu_gen q) None, q\<lparr>qu_avail := qu_avail q - 1\<rparr>)
      else (Parked (qu_wake q), q))"

definition releaseAt :: "uint64 \<Rightarrow> quota \<Rightarrow> quota" where
  "releaseAt gen q =
     (if gen = qu_gen q then broadcast (q\<lparr>qu_avail := qu_avail q + 1\<rparr>) else q)"

definition quota_reset :: "int \<Rightarrow> quota \<Rightarrow> quota" where
  "quota_reset n q = broadcast (q\<lparr>qu_avail := n, qu_gen := qu_gen q + 1, qu_failed := False\<rparr>)"

definition quota_generation :: "quota \<Rightarrow> uint64" where
  "quota_generation q = qu_gen q"

definition quota_fail :: "quota \<Rightarrow> quota" where
  "quota_fail q = broadcast (q\<lparr>qu_failed := True\<rparr>)"

text \<open>
  \<^verbatim>\<open>acquire\<close>: the critical section, or a step of the \<^verbatim>\<open>select\<close> of a parked caller, which has two
  ready cases when the context is done and the channel closed.
\<close>

inductive acquire_step :: "acquirer \<Rightarrow> quota \<Rightarrow> acquirer \<Rightarrow> quota \<Rightarrow> bool" where
  attempt: "acquire_try q = (p, q') \<Longrightarrow> acquire_step Trying q p q'"
| woken: "closedChan q w \<Longrightarrow> acquire_step (Parked w) q Trying q"
| cancelled: "e \<in> {CtxCanceled, CtxDeadlineExceeded} \<Longrightarrow> acquire_step (Parked w) q (Returned 0 (Some e)) q"

inductive_cases acquire_stepE: "acquire_step p q p' q'"

lemmas quota_defs = broadcast_def releaseAt_def quota_reset_def quota_fail_def

text \<open>Both resources keep the contract of generations.\<close>

interpretation quota_gen: generational quota_generation "\<lambda>_ :: unit. releaseAt" quota_reset
  "\<lambda>failing q. if failing then quota_fail q else snd (acquire_try q)"
  by unfold_locales (simp_all add: quota_generation_def quota_defs acquire_try_def)

text \<open>
  A release that comes too late is ignored. When the session was discarded (for an
  identifier) or the quota re-seeded (for a permit) in between, at least once and fewer than
  \<open>2\<^sup>6\<^sup>4\<close> times, returning what was acquired before changes nothing, whatever acquisitions and
  releases happened meanwhile: it can neither free an identifier that now belongs to another
  exchange nor raise the number of permits.
\<close>

theorem stale_release_ignored:
  assumes "0 < genResets ops" "genResets ops < 2 ^ 64"
    and "0 < genResets qops" "genResets qops < 2 ^ 64"
  shows "ReleaseAt i (idAllocator_generation a) (alloc_gen.run_gen ops a) = alloc_gen.run_gen ops a \<and>
    releaseAt (quota_generation q) (quota_gen.run_gen qops q) = quota_gen.run_gen qops q"
  using alloc_gen.stale_after_reset[OF assms(1,2)] quota_gen.stale_after_reset[OF assms(3,4)]
  by simp

theorem stale_release_ignored_witness:
  "releaseAt 0 (quota_gen.run_gen [GenReset 3, GenOther False] (newQuota 5))
     = quota_gen.run_gen [GenReset 3, GenOther False] (newQuota 5) \<and>
   ReleaseAt 7 0 (alloc_gen.run_gen [GenReset (), GenOther ()] newIdAllocator)
     = alloc_gen.run_gen [GenReset (), GenOther ()] newIdAllocator"
  using stale_release_ignored[of "[GenReset (), GenOther ()]" "[GenReset 3, GenOther False]" 7
      newIdAllocator "newQuota 5"]
  by (simp add: quota_generation_def idAllocator_generation_def newQuota_def)

section \<open>The quota and its users\<close>

text \<open>
  The quota with the callers of \<^verbatim>\<open>acquire\<close>, the permits granted and not yet returned (by their
  generation), and the ceiling the current generation was seeded with. A reconnect re-seeds the
  quota with the Receive Maximum less the exchanges that are replayed, whose permits belong to
  the new generation.
\<close>

record qsys =
  qs_q :: quota
  qs_procs :: "acquirer list"
  qs_held :: "uint64 multiset"
  qs_limit :: int

definition qsys_init :: qsys where
  "qsys_init = \<lparr>qs_q = newQuota 0, qs_procs = [], qs_held = {#}, qs_limit = 0\<rparr>"

definition grantOf :: "acquirer \<Rightarrow> acquirer \<Rightarrow> uint64 multiset" where
  "grantOf p p' = (case p' of Returned g None \<Rightarrow> if p = Trying then {#g#} else {#} | _ \<Rightarrow> {#})"

inductive quota_step :: "qsys \<Rightarrow> qsys \<Rightarrow> bool" where
  call: "quota_step s (s\<lparr>qs_procs := qs_procs s @ [Trying]\<rparr>)"
| run: "i < length (qs_procs s) \<Longrightarrow> acquire_step (qs_procs s ! i) (qs_q s) p' q' \<Longrightarrow>
    quota_step s (s\<lparr>qs_q := q', qs_procs := (qs_procs s)[i := p'],
      qs_held := qs_held s + grantOf (qs_procs s ! i) p'\<rparr>)"
| release: "g \<in># qs_held s \<Longrightarrow>
    quota_step s (s\<lparr>qs_q := releaseAt g (qs_q s), qs_held := qs_held s - {#g#}\<rparr>)"
| connect: "qu_gen (qs_q s) + 1 \<notin># qs_held s \<Longrightarrow> 0 \<le> maximum \<Longrightarrow>
    quota_step s (s\<lparr>qs_q := quota_reset (max (maximum - int inflight) 0) (qs_q s),
      qs_held := qs_held s + replicate_mset inflight (qu_gen (qs_q s) + 1),
      qs_limit := max maximum (int inflight)\<rparr>)"
| lost: "quota_step s (s\<lparr>qs_q := quota_fail (qs_q s)\<rparr>)"

definition quota_inv :: "qsys \<Rightarrow> bool" where
  "quota_inv s \<longleftrightarrow>
     qu_avail (qs_q s) + int (count (qs_held s) (qu_gen (qs_q s))) = qs_limit s \<and>
     0 \<le> qu_avail (qs_q s) \<and>
     (\<forall>w. Parked w \<in> set (qs_procs s) \<longrightarrow>
        closedChan (qs_q s) w \<or> (w = qu_wake (qs_q s) \<and> qu_avail (qs_q s) \<le> 0 \<and> \<not> qu_failed (qs_q s)))"

lemma quota_inv_init: "quota_inv qsys_init"
  by (simp add: quota_inv_def qsys_init_def newQuota_def)

lemma acquire_step_inv:
  assumes "acquire_step p q p' q'" "0 \<le> qu_avail q"
  shows "qu_gen q' = qu_gen q" "qu_wake q' = qu_wake q" "qu_failed q' = qu_failed q"
    "qu_avail q' + int (count (grantOf p p') (qu_gen q)) = qu_avail q" "0 \<le> qu_avail q'"
    "p' = Parked w \<Longrightarrow> w = qu_wake q \<and> qu_avail q \<le> 0 \<and> \<not> qu_failed q"
    "qu_avail q' \<le> qu_avail q"
  using assms by (auto elim!: acquire_stepE simp: acquire_try_def grantOf_def split: if_splits)

lemma quota_inv_step:
  assumes "quota_step s s'" "quota_inv s"
  shows "quota_inv s'"
  using assms
proof (induction rule: quota_step.induct)
  case (call s)
  then show ?case by (auto simp: quota_inv_def)
next
  case (run i s p' q')
  note A = acquire_step_inv[OF run(2)]
  have "Parked w \<in> set ((qs_procs s)[i := p']) \<Longrightarrow> Parked w \<in> set (qs_procs s) \<or> p' = Parked w" for w
    using set_update_subset_insert[of "qs_procs s" i p'] by auto
  then show ?case
    using run A by (fastforce simp: quota_inv_def closedChan_def)
next
  case (release g s)
  then show ?case
    by (auto simp: quota_inv_def quota_defs closedChan_def less_Suc_eq)
next
  case (connect s maximum inflight)
  then show ?case
    by (auto simp: quota_inv_def quota_defs closedChan_def less_Suc_eq not_in_iff)
next
  case (lost s)
  then show ?case by (auto simp: quota_inv_def quota_defs closedChan_def less_Suc_eq)
qed

lemma quota_inv_reachable: "quota_step\<^sup>*\<^sup>* s s' \<Longrightarrow> quota_inv s \<Longrightarrow> quota_inv s'"
  by (induction rule: rtranclp_induct) (auto intro: quota_inv_step)

text \<open>
  C8: The number of unacknowledged sends never exceeds what the connection was seeded with. In
  every reachable state, whatever the interleaving of callers, late releases, connection losses
  and reconnects, the permits of the current generation that are out and the permits available
  add up to the ceiling, which is the Receive Maximum unless more exchanges than that are being
  replayed; the count of available permits is never negative.
\<close>

theorem quota_ceiling:
  assumes "quota_step\<^sup>*\<^sup>* qsys_init s"
  shows "int (count (qs_held s) (qu_gen (qs_q s))) + qu_avail (qs_q s) = qs_limit s \<and>
    0 \<le> qu_avail (qs_q s) \<and> int (count (qs_held s) (qu_gen (qs_q s))) \<le> qs_limit s"
  using quota_inv_reachable[OF assms quota_inv_init] by (auto simp: quota_inv_def)

lemma quota_run_try:
  assumes "i < length (qs_procs s)" "qs_procs s ! i = Trying" "acquire_try (qs_q s) = (Returned g e, q')"
  shows "\<exists>s'. quota_step s s' \<and> qs_procs s' ! i = Returned g e"
proof -
  define s' where "s' = s\<lparr>qs_q := q', qs_procs := (qs_procs s)[i := Returned g e],
      qs_held := qs_held s + grantOf (qs_procs s ! i) (Returned g e)\<rparr>"
  have "quota_step s s'" unfolding s'_def using assms by (intro quota_step.run) (simp_all add: attempt)
  moreover have "qs_procs s' ! i = Returned g e"
    using assms(1) by (simp add: s'_def)
  ultimately show ?thesis by blast
qed

lemma quota_run_wake:
  assumes "i < length (qs_procs s)" "qs_procs s ! i = Parked w" "closedChan (qs_q s) w"
  shows "\<exists>s'. quota_step s s' \<and> qs_procs s' ! i = Trying \<and> qs_q s' = qs_q s \<and>
    length (qs_procs s') = length (qs_procs s)"
proof -
  define s' where "s' = s\<lparr>qs_q := qs_q s, qs_procs := (qs_procs s)[i := Trying],
      qs_held := qs_held s + grantOf (qs_procs s ! i) Trying\<rparr>"
  have "quota_step s s'" unfolding s'_def using assms by (intro quota_step.run) (simp_all add: woken)
  moreover have "qs_procs s' ! i = Trying \<and> qs_q s' = qs_q s \<and> length (qs_procs s') = length (qs_procs s)"
    using assms(1) by (simp add: s'_def)
  ultimately show ?thesis by blast
qed


text \<open>A run in which a caller parks on an empty quota and the connection then drops.\<close>

definition parkedRun :: qsys where
  "parkedRun = \<lparr>qs_q = quota_fail (newQuota 0), qs_procs = [Parked 0], qs_held = {#}, qs_limit = 0\<rparr>"

lemma parkedRun_reachable: "quota_step\<^sup>*\<^sup>* qsys_init parkedRun"
proof -
  define s1 s2 where "s1 = qsys_init\<lparr>qs_procs := [Trying]\<rparr>" and "s2 = qsys_init\<lparr>qs_procs := [Parked 0]\<rparr>"
  have "quota_step qsys_init s1" using call[of qsys_init] by (simp add: s1_def qsys_init_def)
  moreover have "quota_step s1 s2"
    using quota_step.run[of 0 s1 "Parked 0" "newQuota 0"] attempt[of "newQuota 0" "Parked 0" "newQuota 0"]
    by (simp add: s1_def s2_def qsys_init_def acquire_try_def newQuota_def grantOf_def)
  moreover have "quota_step s2 parkedRun"
    using lost[of s2] by (simp add: s2_def parkedRun_def qsys_init_def)
  ultimately show ?thesis by (meson converse_rtranclp_into_rtranclp rtranclp.rtrancl_refl)
qed

theorem quota_ceiling_witness:
  "quota_step\<^sup>*\<^sup>* qsys_init parkedRun \<and> qu_avail (qs_q parkedRun) = 0"
  using parkedRun_reachable quota_ceiling[of parkedRun] by (simp add: parkedRun_def)


end
