(* ===== verification/Mqtt_Breaker.thy ===== *)
theory Mqtt_Breaker
  imports Mqtt_Errors "HOL-Library.Multiset"
begin

text \<open>
  The circuit breaker (\<^verbatim>\<open>breaker.go\<close>). The critical sections of \<^verbatim>\<open>admit\<close>, \<^verbatim>\<open>record\<close> and
  \<^verbatim>\<open>fireStateChanges\<close> are functions on the breaker's state; \<open>breaker_step\<close> interleaves them the way
  concurrent publishes do. Times are readings of one clock, in nanoseconds.
\<close>

type_synonym BreakerState = int

abbreviation BreakerClosed :: BreakerState where "BreakerClosed \<equiv> 0"
abbreviation BreakerOpen :: BreakerState where "BreakerOpen \<equiv> 1"
abbreviation BreakerHalfOpen :: BreakerState where "BreakerHalfOpen \<equiv> 2"

definition BreakerState_String :: "BreakerState \<Rightarrow> string" where
  "BreakerState_String s =
     (if s = BreakerClosed then ''closed''
      else if s = BreakerOpen then ''open''
      else if s = BreakerHalfOpen then ''half-open''
      else ''unknown'')"

text \<open>\<open>bc_OnStateChange\<close> tells whether a callback is configured.\<close>

record BreakerConfig =
  bc_FailureThreshold :: int
  bc_RecoveryTimeout :: int
  bc_HalfOpenMax :: int
  bc_OnStateChange :: bool

record stateChange =
  sc_from :: BreakerState
  sc_to :: BreakerState

record admission =
  adm_epoch :: uint64
  adm_probe :: bool

record Breaker =
  br_cfg :: BreakerConfig
  br_state :: BreakerState
  br_epoch :: uint64
  br_failures :: int
  br_openedAt :: int
  br_probes :: int
  br_pending :: "stateChange list"
  br_draining :: bool

definition NewBreaker :: "BreakerConfig \<Rightarrow> Breaker" where
  "NewBreaker cfg =
     (let cfg = (if bc_FailureThreshold cfg \<le> 0 then cfg\<lparr>bc_FailureThreshold := 5\<rparr> else cfg);
          cfg = (if bc_RecoveryTimeout cfg \<le> 0 then cfg\<lparr>bc_RecoveryTimeout := 30 * 1000000000\<rparr> else cfg);
          cfg = (if bc_HalfOpenMax cfg \<le> 0 then cfg\<lparr>bc_HalfOpenMax := 1\<rparr> else cfg)
      in \<lparr>br_cfg = cfg, br_state = BreakerClosed, br_epoch = 0, br_failures = 0, br_openedAt = 0,
          br_probes = 0, br_pending = [], br_draining = False\<rparr>)"

text \<open>The returned flag says whether the caller has to run \<^verbatim>\<open>fireStateChanges\<close>.\<close>

definition transitionLocked :: "BreakerState \<Rightarrow> Breaker \<Rightarrow> bool \<times> Breaker" where
  "transitionLocked to b =
     (let from = br_state b in
      if from = to then (False, b)
      else
        let b = b\<lparr>br_state := to, br_epoch := br_epoch b + 1\<rparr> in
        if \<not> bc_OnStateChange (br_cfg b) then (False, b)
        else (True, b\<lparr>br_pending := br_pending b @ [\<lparr>sc_from = from, sc_to = to\<rparr>]\<rparr>))"

definition admit :: "int \<Rightarrow> Breaker \<Rightarrow> (admission \<times> bool \<times> bool) \<times> Breaker" where
  "admit now b =
     (if br_state b = BreakerClosed then
        ((\<lparr>adm_epoch = br_epoch b, adm_probe = False\<rparr>, True, False), b)
      else if br_state b = BreakerOpen then
        (if now - br_openedAt b < bc_RecoveryTimeout (br_cfg b) then
           ((\<lparr>adm_epoch = 0, adm_probe = False\<rparr>, False, False), b)
         else
           let (fire, b) = transitionLocked BreakerHalfOpen b;
               b = b\<lparr>br_probes := 1\<rparr>
           in ((\<lparr>adm_epoch = br_epoch b, adm_probe = True\<rparr>, True, fire), b))
      else if br_state b = BreakerHalfOpen then
        (if br_probes b \<ge> bc_HalfOpenMax (br_cfg b) then
           ((\<lparr>adm_epoch = 0, adm_probe = False\<rparr>, False, False), b)
         else
           let b = b\<lparr>br_probes := br_probes b + 1\<rparr>
           in ((\<lparr>adm_epoch = br_epoch b, adm_probe = True\<rparr>, True, False), b))
      else ((\<lparr>adm_epoch = br_epoch b, adm_probe = False\<rparr>, True, False), b))"

definition recordSuccess :: "admission \<Rightarrow> Breaker \<Rightarrow> bool \<times> Breaker" where
  "recordSuccess adm b =
     (if adm_epoch adm \<noteq> br_epoch b then (False, b)
      else
        let b = b\<lparr>br_failures := 0\<rparr> in
        if br_state b = BreakerHalfOpen then
          let (fire, b) = transitionLocked BreakerClosed b in (fire, b\<lparr>br_probes := 0\<rparr>)
        else (False, b))"

definition recordFailure :: "int \<Rightarrow> admission \<Rightarrow> Breaker \<Rightarrow> bool \<times> Breaker" where
  "recordFailure now adm b =
     (if adm_epoch adm \<noteq> br_epoch b then (False, b)
      else if br_state b = BreakerHalfOpen then
        let (fire, b) = transitionLocked BreakerOpen b in
        (fire, b\<lparr>br_openedAt := now, br_probes := 0, br_failures := 0\<rparr>)
      else if br_state b = BreakerClosed then
        let b = b\<lparr>br_failures := br_failures b + 1\<rparr> in
        if br_failures b \<ge> bc_FailureThreshold (br_cfg b) then
          let (fire, b) = transitionLocked BreakerOpen b in
          (fire, b\<lparr>br_openedAt := now, br_failures := 0\<rparr>)
        else (False, b)
      else (False, b))"

text \<open>\<open>ctx\<close> is \<^verbatim>\<open>ctx.Err()\<close>.\<close>

definition countableFailure :: "cerror option \<Rightarrow> cerror \<Rightarrow> bool" where
  "countableFailure ctx err =
     (if err \<in> {ErrAckTimeout, ErrConnectionLost, ErrNotConnected} then True
      else if err \<in> {ErrPacketTooLarge, ErrPacketIDExhausted} then False
      else if err \<in> {Wire ErrProtocolViolation, Wire ErrMalformedPacket, Wire ErrStringTooLong} then False
      else if ctx \<noteq> None \<and> ctx = Some err then False
      else case err of
        Rejected re \<Rightarrow> IsError (re_Code re)
      | _ \<Rightarrow> True)"

definition record_outcome :: "int \<Rightarrow> cerror option \<Rightarrow> admission \<Rightarrow> cerror option \<Rightarrow> Breaker \<Rightarrow> bool \<times> Breaker" where
  "record_outcome now ctx adm err b =
     (case err of
        None \<Rightarrow> recordSuccess adm b
      | Some e \<Rightarrow>
          if countableFailure ctx e then recordFailure now adm b
          else if adm_epoch adm \<noteq> br_epoch b then (False, b)
          else if adm_probe adm \<and> br_state b = BreakerHalfOpen \<and> br_probes b > 0
            then (False, b\<lparr>br_probes := br_probes b - 1\<rparr>)
          else (False, b))"

text \<open>
  \<^verbatim>\<open>fireStateChanges\<close>: the entry section, the section that takes the next transition off the queue,
  and the callback between two of the latter, which may panic.
\<close>

datatype firer = Entering | Draining | InCallback stateChange | Finished

definition fire_enter :: "Breaker \<Rightarrow> firer \<times> Breaker" where
  "fire_enter b = (if br_draining b then (Finished, b) else (Draining, b\<lparr>br_draining := True\<rparr>))"

definition fire_next :: "Breaker \<Rightarrow> firer \<times> Breaker" where
  "fire_next b =
     (case br_pending b of
        [] \<Rightarrow> (Finished, b\<lparr>br_draining := False\<rparr>)
      | c # cs \<Rightarrow> (InCallback c, b\<lparr>br_pending := cs\<rparr>))"

definition fire_panic :: "Breaker \<Rightarrow> firer \<times> Breaker" where
  "fire_panic b = (Finished, b\<lparr>br_draining := False\<rparr>)"

section \<open>Concurrent publishes\<close>

text \<open>
  The breaker with the publishes it admitted and that have not reported yet, the runs of
  \<^verbatim>\<open>fireStateChanges\<close>, and the callbacks made so far. A publish is \<^verbatim>\<open>admit\<close>, then the inner
  \<^verbatim>\<open>Publish\<close>, whose outcome is arbitrary and arrives at any later time, then \<^verbatim>\<open>record\<close>. The 64-bit
  epoch is assumed not to come round to that of a publish still in flight.
\<close>

record bsys =
  bs_b :: Breaker
  bs_inflight :: "admission multiset"
  bs_firers :: "firer list"
  bs_log :: "stateChange list"
  bs_panicked :: bool

definition bsys_init :: "BreakerConfig \<Rightarrow> bsys" where
  "bsys_init cfg = \<lparr>bs_b = NewBreaker cfg, bs_inflight = {#}, bs_firers = [], bs_log = [], bs_panicked = False\<rparr>"

definition freshEpoch :: "bsys \<Rightarrow> Breaker \<Rightarrow> bool" where
  "freshEpoch s b' \<longleftrightarrow>
     br_epoch b' = br_epoch (bs_b s) \<or> (\<forall>adm \<in># bs_inflight s. adm_epoch adm \<noteq> br_epoch b')"

definition newFirer :: "bool \<Rightarrow> firer list" where
  "newFirer fire = (if fire then [Entering] else [])"

inductive breaker_step :: "bsys \<Rightarrow> bsys \<Rightarrow> bool" where
  admitted: "admit now (bs_b s) = ((adm, True, fire), b') \<Longrightarrow> freshEpoch s b' \<Longrightarrow>
    breaker_step s (s\<lparr>bs_b := b', bs_inflight := add_mset adm (bs_inflight s),
      bs_firers := bs_firers s @ newFirer fire\<rparr>)"
| rejected: "admit now (bs_b s) = ((adm, False, fire), b') \<Longrightarrow> breaker_step s (s\<lparr>bs_b := b'\<rparr>)"
| reported: "adm \<in># bs_inflight s \<Longrightarrow> record_outcome now ctx adm err (bs_b s) = (fire, b') \<Longrightarrow>
    freshEpoch s b' \<Longrightarrow>
    breaker_step s (s\<lparr>bs_b := b', bs_inflight := bs_inflight s - {#adm#},
      bs_firers := bs_firers s @ newFirer fire\<rparr>)"
| entering: "i < length (bs_firers s) \<Longrightarrow> bs_firers s ! i = Entering \<Longrightarrow> fire_enter (bs_b s) = (f', b') \<Longrightarrow>
    breaker_step s (s\<lparr>bs_b := b', bs_firers := (bs_firers s)[i := f']\<rparr>)"
| draining: "i < length (bs_firers s) \<Longrightarrow> bs_firers s ! i = Draining \<Longrightarrow> fire_next (bs_b s) = (f', b') \<Longrightarrow>
    breaker_step s (s\<lparr>bs_b := b', bs_firers := (bs_firers s)[i := f'],
      bs_log := bs_log s @ (case f' of InCallback c \<Rightarrow> [c] | _ \<Rightarrow> [])\<rparr>)"
| returned: "i < length (bs_firers s) \<Longrightarrow> bs_firers s ! i = InCallback c \<Longrightarrow>
    breaker_step s (s\<lparr>bs_firers := (bs_firers s)[i := Draining]\<rparr>)"
| panicked: "i < length (bs_firers s) \<Longrightarrow> bs_firers s ! i = InCallback c \<Longrightarrow> fire_panic (bs_b s) = (f', b') \<Longrightarrow>
    breaker_step s (s\<lparr>bs_b := b', bs_firers := (bs_firers s)[i := f'], bs_panicked := True\<rparr>)"

text \<open>Every transition leaves the state the previous one entered.\<close>

fun chain :: "BreakerState \<Rightarrow> stateChange list \<Rightarrow> BreakerState \<Rightarrow> bool" where
  "chain a [] z \<longleftrightarrow> a = z"
| "chain a (c # cs) z \<longleftrightarrow> sc_from c = a \<and> sc_to c \<noteq> a \<and> chain (sc_to c) cs z"

lemma chain_append: "chain a (cs @ ds) z \<longleftrightarrow> (\<exists>m. chain a cs m \<and> chain m ds z)"
  by (induction cs arbitrary: a) auto

definition active :: "firer \<Rightarrow> bool" where
  "active f \<longleftrightarrow> f = Draining \<or> (\<exists>c. f = InCallback c)"

definition activeCount :: "firer list \<Rightarrow> nat" where
  "activeCount fs = length (filter active fs)"

lemma activeCount_append: "activeCount (fs @ newFirer b) = activeCount fs"
  by (simp add: activeCount_def newFirer_def active_def)

lemma activeCount_Entering [simp]: "activeCount (fs @ [Entering]) = activeCount fs"
  by (simp add: activeCount_def active_def)

lemma activeCount_update:
  assumes "i < length fs"
  shows "activeCount (fs[i := f]) + (if active (fs ! i) then 1 else 0) =
    activeCount fs + (if active f then 1 else 0)"
  using assms
proof (induction fs arbitrary: i)
  case Nil
  then show ?case by simp
next
  case (Cons g fs)
  then show ?case by (cases i) (auto simp: activeCount_def)
qed

section \<open>Admission control\<close>

text \<open>The probes in flight that the breaker still accounts for: those of the current epoch.\<close>

definition probesOut :: "bsys \<Rightarrow> nat" where
  "probesOut s = size (filter_mset (\<lambda>adm. adm_epoch adm = br_epoch (bs_b s) \<and> adm_probe adm) (bs_inflight s))"

definition admission_inv :: "bsys \<Rightarrow> bool" where
  "admission_inv s \<longleftrightarrow>
     (let b = bs_b s in
      br_state b \<in> {BreakerClosed, BreakerOpen, BreakerHalfOpen} \<and>
      1 \<le> bc_HalfOpenMax (br_cfg b) \<and> 0 \<le> br_failures b \<and> br_failures b < bc_FailureThreshold (br_cfg b) \<and>
      (if br_state b = BreakerHalfOpen then int (probesOut s) = br_probes b \<and> br_probes b \<le> bc_HalfOpenMax (br_cfg b)
       else probesOut s = 0) \<and>
      (br_state b = BreakerOpen \<longrightarrow> (\<forall>adm \<in># bs_inflight s. adm_epoch adm \<noteq> br_epoch b)))"

lemma admission_inv_init: "admission_inv (bsys_init cfg)"
  by (auto simp: admission_inv_def bsys_init_def NewBreaker_def probesOut_def Let_def)

lemma filter_fresh:
  "\<forall>adm \<in># M. adm_epoch adm \<noteq> e \<Longrightarrow> filter_mset (\<lambda>adm. adm_epoch adm = e \<and> adm_probe adm) M = {#}"
  by (induction M) auto

lemma admission_inv_admitted:
  assumes "admit now (bs_b s) = ((adm, ok, fire), b')" "ok \<longrightarrow> freshEpoch s b'" "admission_inv s"
  shows "admission_inv (s\<lparr>bs_b := b', bs_inflight := bs_inflight s + (if ok then {#adm#} else {#}),
      bs_firers := fs\<rparr>)"
proof -
  consider "br_state (bs_b s) = BreakerClosed" | "br_state (bs_b s) = BreakerOpen"
    | "br_state (bs_b s) = BreakerHalfOpen" using assms(3) by (auto simp: admission_inv_def Let_def)
  then show ?thesis
  proof cases
    case 1
    then show ?thesis using assms by (auto simp: admit_def admission_inv_def probesOut_def Let_def)
  next
    case 2
    then show ?thesis using assms
      by (auto simp: admit_def admission_inv_def probesOut_def Let_def transitionLocked_def
          freshEpoch_def filter_fresh split: if_splits)
  next
    case 3
    then show ?thesis using assms
      by (auto simp: admit_def admission_inv_def probesOut_def Let_def split: if_splits)
  qed
qed

lemma admission_inv_reported:
  assumes "adm \<in># bs_inflight s" "record_outcome now ctx adm err (bs_b s) = (fire, b')"
    "freshEpoch s b'" "admission_inv s"
  shows "admission_inv (s\<lparr>bs_b := b', bs_inflight := bs_inflight s - {#adm#}, bs_firers := fs\<rparr>)"
proof -
  obtain M where M: "bs_inflight s = add_mset adm M" using assms(1) by (auto dest: multi_member_split)
  consider (stale) "adm_epoch adm \<noteq> br_epoch (bs_b s)"
    | (closed) "adm_epoch adm = br_epoch (bs_b s)" "br_state (bs_b s) = BreakerClosed"
    | (halfopen) "adm_epoch adm = br_epoch (bs_b s)" "br_state (bs_b s) = BreakerHalfOpen"
    using assms(1,4) by (auto simp: admission_inv_def Let_def)
  then show ?thesis
  proof cases
    case stale
    then show ?thesis using assms(2-4) M
      by (auto simp: record_outcome_def recordSuccess_def recordFailure_def admission_inv_def
          probesOut_def Let_def split: option.splits if_splits)
  next
    case closed
    then show ?thesis using assms(2-4) M
      by (auto simp: record_outcome_def recordSuccess_def recordFailure_def admission_inv_def
          probesOut_def Let_def transitionLocked_def freshEpoch_def filter_fresh
          split: option.splits if_splits)
  next
    case halfopen
    then show ?thesis using assms(2-4) M
      by (auto simp: record_outcome_def recordSuccess_def recordFailure_def admission_inv_def
          probesOut_def Let_def transitionLocked_def freshEpoch_def filter_fresh
          split: option.splits if_splits)
  qed
qed

lemma fire_simps:
  "fire_enter b = (f', b') \<Longrightarrow> br_cfg b' = br_cfg b \<and> br_state b' = br_state b \<and> br_epoch b' = br_epoch b \<and>
     br_failures b' = br_failures b \<and> br_probes b' = br_probes b \<and> br_pending b' = br_pending b"
  "fire_next b = (f', b') \<Longrightarrow> br_cfg b' = br_cfg b \<and> br_state b' = br_state b \<and> br_epoch b' = br_epoch b \<and>
     br_failures b' = br_failures b \<and> br_probes b' = br_probes b"
  "fire_panic b = (f', b') \<Longrightarrow> br_cfg b' = br_cfg b \<and> br_state b' = br_state b \<and> br_epoch b' = br_epoch b \<and>
     br_failures b' = br_failures b \<and> br_probes b' = br_probes b \<and> br_pending b' = br_pending b"
  by (auto simp: fire_enter_def fire_next_def fire_panic_def split: if_splits list.splits)

lemma admission_inv_frame:
  assumes "admission_inv s" "br_cfg b' = br_cfg (bs_b s)" "br_state b' = br_state (bs_b s)"
    "br_epoch b' = br_epoch (bs_b s)" "br_failures b' = br_failures (bs_b s)"
    "br_probes b' = br_probes (bs_b s)"
    "bs_b s' = b'" "bs_inflight s' = bs_inflight s"
  shows "admission_inv s'"
  using assms(1) unfolding admission_inv_def probesOut_def Let_def assms(7,8) assms(2-6) .

lemma admission_inv_step:
  assumes "breaker_step s s'" "admission_inv s"
  shows "admission_inv s'"
  using assms
proof (induction rule: breaker_step.induct)
  case (admitted now s adm fire b')
  then show ?case using admission_inv_admitted[of now s adm True] by simp
next
  case (rejected now s adm fire b')
  then show ?case using admission_inv_admitted[of now s adm False fire b' "bs_firers s"] by simp
next
  case (reported adm s now ctx err fire b')
  show ?case by (rule admission_inv_reported[OF reported])
next
  case (entering i s f' b')
  show ?case using fire_simps(1)[OF entering(3)] by (intro admission_inv_frame[OF entering(4), of b']) simp_all
next
  case (draining i s f' b')
  show ?case using fire_simps(2)[OF draining(3)] by (intro admission_inv_frame[OF draining(4), of b']) simp_all
next
  case (returned i s c)
  show ?case by (intro admission_inv_frame[OF returned(3), of "bs_b s"]) simp_all
next
  case (panicked i s c f' b')
  show ?case using fire_simps(3)[OF panicked(3)] by (intro admission_inv_frame[OF panicked(4), of b']) simp_all
qed

lemma admission_inv_reachable: "breaker_step\<^sup>*\<^sup>* s s' \<Longrightarrow> admission_inv s \<Longrightarrow> admission_inv s'"
  by (induction rule: rtranclp_induct) (auto intro: admission_inv_step)

section \<open>Callbacks\<close>

definition callback_inv :: "bsys \<Rightarrow> bool" where
  "callback_inv s \<longleftrightarrow>
     (let b = bs_b s in
      activeCount (bs_firers s) = (if br_draining b then 1 else 0) \<and>
      (if bc_OnStateChange (br_cfg b) then chain BreakerClosed (bs_log s @ br_pending b) (br_state b)
       else bs_log s = [] \<and> br_pending b = []) \<and>
      (br_pending b \<noteq> [] \<longrightarrow> bs_panicked s \<or> br_draining b \<or> Entering \<in> set (bs_firers s)))"

lemma callback_inv_init: "callback_inv (bsys_init cfg)"
  by (simp add: callback_inv_def bsys_init_def NewBreaker_def activeCount_def)

text \<open>What \<^verbatim>\<open>admit\<close> and \<^verbatim>\<open>record\<close> do to the queue: nothing, or they append the transition they make.\<close>

definition queues :: "Breaker \<Rightarrow> bool \<Rightarrow> Breaker \<Rightarrow> bool" where
  "queues b fire b' \<longleftrightarrow> br_cfg b' = br_cfg b \<and> br_draining b' = br_draining b \<and>
     (if fire then bc_OnStateChange (br_cfg b) \<and> br_state b' \<noteq> br_state b \<and>
        br_pending b' = br_pending b @ [\<lparr>sc_from = br_state b, sc_to = br_state b'\<rparr>]
      else br_pending b' = br_pending b \<and> (bc_OnStateChange (br_cfg b) \<longrightarrow> br_state b' = br_state b))"

lemma admit_queues: "admit now b = ((adm, ok, fire), b') \<Longrightarrow> queues b fire b'"
  by (auto simp: admit_def queues_def transitionLocked_def Let_def split: if_splits)

lemma record_queues: "record_outcome now ctx adm err b = (fire, b') \<Longrightarrow> queues b fire b'"
  by (auto simp: record_outcome_def recordSuccess_def recordFailure_def queues_def
      transitionLocked_def Let_def split: if_splits option.splits)

lemma callback_inv_queues:
  assumes "queues (bs_b s) fire b'" "callback_inv s"
  shows "callback_inv (s\<lparr>bs_b := b', bs_inflight := M, bs_firers := bs_firers s @ newFirer fire\<rparr>)"
  using assms
  by (auto simp: callback_inv_def queues_def Let_def activeCount_append chain_append newFirer_def
      split: if_splits)

lemma rejected_no_fire: "admit now b = ((adm, False, fire), b') \<Longrightarrow> \<not> fire"
  by (auto simp: admit_def Let_def split: if_splits prod.splits)

lemma Entering_update:
  assumes "Entering \<in> set fs" "fs ! i \<noteq> Entering" "i < length fs"
  shows "Entering \<in> set (fs[i := f])"
  using assms by (metis in_set_conv_nth length_list_update nth_list_update_neq)

lemma callback_inv_firer:
  assumes "i < length (bs_firers s)" "callback_inv s"
  shows "bs_firers s ! i = Entering \<Longrightarrow> fire_enter (bs_b s) = (f', b') \<Longrightarrow>
      callback_inv (s\<lparr>bs_b := b', bs_firers := (bs_firers s)[i := f']\<rparr>)"
    and "bs_firers s ! i = Draining \<Longrightarrow> fire_next (bs_b s) = (f', b') \<Longrightarrow>
      callback_inv (s\<lparr>bs_b := b', bs_firers := (bs_firers s)[i := f'],
        bs_log := bs_log s @ (case f' of InCallback c \<Rightarrow> [c] | _ \<Rightarrow> [])\<rparr>)"
    and "bs_firers s ! i = InCallback c \<Longrightarrow>
      callback_inv (s\<lparr>bs_firers := (bs_firers s)[i := Draining]\<rparr>)"
    and "bs_firers s ! i = InCallback c \<Longrightarrow> fire_panic (bs_b s) = (f', b') \<Longrightarrow>
      callback_inv (s\<lparr>bs_b := b', bs_firers := (bs_firers s)[i := f'], bs_panicked := True\<rparr>)"
proof -
  note A = activeCount_update[OF assms(1)]
  {
    assume "bs_firers s ! i = Entering" "fire_enter (bs_b s) = (f', b')"
    then show "callback_inv (s\<lparr>bs_b := b', bs_firers := (bs_firers s)[i := f']\<rparr>)"
      using assms A[of f'] by (auto simp: callback_inv_def fire_enter_def Let_def active_def split: if_splits)
  next
    assume "bs_firers s ! i = Draining" "fire_next (bs_b s) = (f', b')"
    then show "callback_inv (s\<lparr>bs_b := b', bs_firers := (bs_firers s)[i := f'],
        bs_log := bs_log s @ (case f' of InCallback c \<Rightarrow> [c] | _ \<Rightarrow> [])\<rparr>)"
      using assms A[of f'] Entering_update[OF _ _ assms(1)]
      by (auto simp: callback_inv_def fire_next_def Let_def active_def split: if_splits list.splits)
  next
    assume "bs_firers s ! i = InCallback c"
    then show "callback_inv (s\<lparr>bs_firers := (bs_firers s)[i := Draining]\<rparr>)"
      using assms A[of Draining] Entering_update[OF _ _ assms(1)]
      by (auto simp: callback_inv_def Let_def active_def split: if_splits)
  next
    assume "bs_firers s ! i = InCallback c" "fire_panic (bs_b s) = (f', b')"
    then show "callback_inv (s\<lparr>bs_b := b', bs_firers := (bs_firers s)[i := f'], bs_panicked := True\<rparr>)"
      using assms A[of f'] by (auto simp: callback_inv_def fire_panic_def Let_def active_def split: if_splits)
  }
qed

lemma callback_inv_step:
  assumes "breaker_step s s'" "callback_inv s"
  shows "callback_inv s'"
  using assms
proof (induction rule: breaker_step.induct)
  case (admitted now s adm fire b')
  then show ?case using callback_inv_queues[OF admit_queues] by blast
next
  case (rejected now s adm fire b')
  then show ?case
    using callback_inv_queues[OF admit_queues[OF rejected(1)], of "bs_inflight s"]
      rejected_no_fire[OF rejected(1)] by (simp add: newFirer_def)
next
  case (reported adm s now ctx err fire b')
  then show ?case using callback_inv_queues[OF record_queues] by blast
next
  case (entering i s f' b')
  then show ?case using callback_inv_firer(1) by blast
next
  case (draining i s f' b')
  then show ?case using callback_inv_firer(2) by blast
next
  case (returned i s c)
  then show ?case using callback_inv_firer(3) by blast
next
  case (panicked i s c f' b')
  then show ?case using callback_inv_firer(4) by blast
qed

lemma callback_inv_reachable: "breaker_step\<^sup>*\<^sup>* s s' \<Longrightarrow> callback_inv s \<Longrightarrow> callback_inv s'"
  by (induction rule: rtranclp_induct) (auto intro: callback_inv_step)

text \<open>
  C18: The breaker never has more probes in flight than configured. In every state reachable by
  concurrent publishes whose outcomes arrive late and in any order, at most \<^verbatim>\<open>HalfOpenMax\<close> probes
  of the current epoch are outstanding, none outside the half-open state; while the circuit is
  open no outstanding publish belongs to the current epoch, so no straggler can close it.
\<close>

theorem breaker_probe_bound:
  assumes "breaker_step\<^sup>*\<^sup>* (bsys_init cfg) s"
  shows "int (probesOut s) \<le> bc_HalfOpenMax (br_cfg (bs_b s)) \<and>
    (br_state (bs_b s) \<noteq> BreakerHalfOpen \<longrightarrow> probesOut s = 0) \<and>
    (br_state (bs_b s) = BreakerOpen \<longrightarrow> (\<forall>adm \<in># bs_inflight s. adm_epoch adm \<noteq> br_epoch (bs_b s)))"
  using admission_inv_reachable[OF assms admission_inv_init]
  by (auto simp: admission_inv_def Let_def split: if_splits)

text \<open>
  C28: Callbacks report the true history. With a callback configured, in every reachable state the
  transitions reported so far followed by those still queued form an unbroken chain from closed to
  the current state; at most one run of \<^verbatim>\<open>fireStateChanges\<close> is delivering; and unless a callback
  panicked, a queued transition always has a run that is delivering or about to start.
\<close>

theorem breaker_callbacks:
  assumes "breaker_step\<^sup>*\<^sup>* (bsys_init cfg) s" "bc_OnStateChange (br_cfg (bs_b s))"
  shows "chain BreakerClosed (bs_log s @ br_pending (bs_b s)) (br_state (bs_b s)) \<and>
    activeCount (bs_firers s) \<le> 1 \<and>
    (br_pending (bs_b s) \<noteq> [] \<and> \<not> bs_panicked s \<longrightarrow>
       activeCount (bs_firers s) = 1 \<or> Entering \<in> set (bs_firers s))"
  using callback_inv_reachable[OF assms(1) callback_inv_init] assms(2)
  by (auto simp: callback_inv_def Let_def split: if_splits)

text \<open>A run: one publish is admitted and times out, which trips a breaker with threshold one.\<close>

definition exampleCfg :: BreakerConfig where
  "exampleCfg = \<lparr>bc_FailureThreshold = 1, bc_RecoveryTimeout = 10, bc_HalfOpenMax = 1, bc_OnStateChange = True\<rparr>"

definition exampleTripped :: bsys where
  "exampleTripped = \<lparr>
     bs_b = \<lparr>br_cfg = exampleCfg, br_state = BreakerOpen, br_epoch = 1, br_failures = 0, br_openedAt = 7,
       br_probes = 0, br_pending = [\<lparr>sc_from = BreakerClosed, sc_to = BreakerOpen\<rparr>], br_draining = False\<rparr>,
     bs_inflight = {#}, bs_firers = [Entering], bs_log = [], bs_panicked = False\<rparr>"

lemma exampleTripped_reachable: "breaker_step\<^sup>*\<^sup>* (bsys_init exampleCfg) exampleTripped"
proof -
  define adm :: admission where "adm = \<lparr>adm_epoch = 0, adm_probe = False\<rparr>"
  define s1 where "s1 = (bsys_init exampleCfg)\<lparr>bs_inflight := {#adm#}\<rparr>"
  have "breaker_step (bsys_init exampleCfg) s1"
    using admitted[of 0 "bsys_init exampleCfg" adm False "bs_b (bsys_init exampleCfg)"]
    by (simp add: s1_def adm_def bsys_init_def NewBreaker_def exampleCfg_def admit_def freshEpoch_def
        newFirer_def)
  moreover have "breaker_step s1 exampleTripped"
    using reported[of adm s1 7 None "Some ErrAckTimeout" True "bs_b exampleTripped"]
    by (simp add: s1_def adm_def bsys_init_def NewBreaker_def exampleCfg_def exampleTripped_def
        record_outcome_def countableFailure_def recordFailure_def transitionLocked_def
        freshEpoch_def newFirer_def)
  ultimately show ?thesis by (meson converse_rtranclp_into_rtranclp rtranclp.rtrancl_refl)
qed

theorem breaker_probe_bound_witness:
  "breaker_step\<^sup>*\<^sup>* (bsys_init exampleCfg) exampleTripped \<and> probesOut exampleTripped = 0"
  using exampleTripped_reachable breaker_probe_bound[OF exampleTripped_reachable]
  by (simp add: exampleTripped_def)

theorem breaker_callbacks_witness:
  "chain BreakerClosed [\<lparr>sc_from = BreakerClosed, sc_to = BreakerOpen\<rparr>] (br_state (bs_b exampleTripped)) \<and>
   Entering \<in> set (bs_firers exampleTripped)"
  using breaker_callbacks[OF exampleTripped_reachable]
  by (simp add: exampleTripped_def exampleCfg_def)

section \<open>One publish after another\<close>

text \<open>\<^verbatim>\<open>fireStateChanges\<close> with nobody else around, and the callbacks it makes.\<close>

function fire_drain :: "Breaker \<Rightarrow> stateChange list \<times> Breaker" where
  "fire_drain b =
     (case fire_next b of
        (InCallback c, b') \<Rightarrow> let (cs, b'') = fire_drain b' in (c # cs, b'')
      | (_, b') \<Rightarrow> ([], b'))"
  by auto
termination
  by (relation "measure (\<lambda>b. length (br_pending b))") (auto simp: fire_next_def split: list.splits)

declare fire_drain.simps [simp del]

definition fireStateChanges :: "Breaker \<Rightarrow> stateChange list \<times> Breaker" where
  "fireStateChanges b =
     (case fire_enter b of
        (Draining, b') \<Rightarrow> fire_drain b'
      | (_, b') \<Rightarrow> ([], b'))"

text \<open>\<open>now\<close> and \<open>later\<close> are the clock at admission and at the report; \<open>res\<close> is what the inner publisher returns.\<close>

definition Breaker_Publish ::
  "int \<Rightarrow> int \<Rightarrow> cerror option \<Rightarrow> cerror option \<Rightarrow> Breaker \<Rightarrow> (cerror option \<times> stateChange list) \<times> Breaker" where
  "Breaker_Publish now later ctx res b =
     (let ((adm, admitted, transition), b) = admit now b in
      if \<not> admitted then ((Some ErrCircuitOpen, []), b)
      else
        let (cs1, b) = (if transition then fireStateChanges b else ([], b));
            err = res;
            (fire, b) = record_outcome later ctx adm err b;
            (cs2, b) = (if fire then fireStateChanges b else ([], b))
        in ((err, cs1 @ cs2), b))"

lemma fire_drain_eq: "fire_drain b = (br_pending b, b\<lparr>br_pending := [], br_draining := False\<rparr>)"
proof (induction "br_pending b" arbitrary: b)
  case Nil
  then show ?case by (subst fire_drain.simps) (simp add: fire_next_def)
next
  case (Cons c cs)
  have "fire_drain (b\<lparr>br_pending := cs\<rparr>) = (cs, b\<lparr>br_pending := [], br_draining := False\<rparr>)"
    using Cons(1)[of "b\<lparr>br_pending := cs\<rparr>"] by simp
  then show ?case
    using Cons(2)[symmetric] by (subst fire_drain.simps) (simp add: fire_next_def)
qed

lemma fireStateChanges_idle:
  "\<not> br_draining b \<Longrightarrow> fireStateChanges b = (br_pending b, b\<lparr>br_pending := [], br_draining := False\<rparr>)"
  by (simp add: fireStateChanges_def fire_enter_def fire_drain_eq)

text \<open>The contract the documentation states, as a machine with three states.\<close>

datatype circuit = Healthy int | Tripped int | Probing

definition abs_circuit :: "Breaker \<Rightarrow> circuit" where
  "abs_circuit b =
     (if br_state b = BreakerClosed then Healthy (br_failures b)
      else if br_state b = BreakerOpen then Tripped (br_openedAt b)
      else Probing)"

definition failed :: "cerror option \<Rightarrow> cerror option \<Rightarrow> bool" where
  "failed ctx res = (case res of None \<Rightarrow> False | Some e \<Rightarrow> countableFailure ctx e)"

definition circuit_probe :: "int \<Rightarrow> cerror option \<Rightarrow> cerror option \<Rightarrow> circuit" where
  "circuit_probe later ctx res =
     (if res = None then Healthy 0 else if failed ctx res then Tripped later else Probing)"

definition circuit_publish ::
  "BreakerConfig \<Rightarrow> int \<Rightarrow> int \<Rightarrow> cerror option \<Rightarrow> cerror option \<Rightarrow> circuit \<Rightarrow> cerror option \<times> circuit" where
  "circuit_publish cfg now later ctx res c =
     (case c of
        Healthy k \<Rightarrow>
          (res, if res = None then Healthy 0
                else if \<not> failed ctx res then Healthy k
                else if k + 1 \<ge> bc_FailureThreshold cfg then Tripped later
                else Healthy (k + 1))
      | Tripped t \<Rightarrow>
          if now - t < bc_RecoveryTimeout cfg then (Some ErrCircuitOpen, Tripped t)
          else (res, circuit_probe later ctx res)
      | Probing \<Rightarrow> (res, circuit_probe later ctx res))"

definition idle :: "Breaker \<Rightarrow> bool" where
  "idle b \<longleftrightarrow> br_state b \<in> {BreakerClosed, BreakerOpen, BreakerHalfOpen} \<and>
     (br_state b = BreakerHalfOpen \<longrightarrow> br_probes b = 0) \<and> 1 \<le> bc_HalfOpenMax (br_cfg b) \<and>
     \<not> br_draining b \<and> br_pending b = []"

lemma idle_new: "idle (NewBreaker cfg)"
  by (simp add: idle_def NewBreaker_def Let_def)

lemmas breaker_defs = admit_def record_outcome_def recordSuccess_def recordFailure_def
  transitionLocked_def fireStateChanges_idle

lemma Breaker_Publish_step:
  assumes "idle b"
  shows "case Breaker_Publish now later ctx res b of ((r, cs), b') \<Rightarrow>
    idle b' \<and> br_cfg b' = br_cfg b \<and>
    (r, abs_circuit b') = circuit_publish (br_cfg b) now later ctx res (abs_circuit b) \<and>
    (bc_OnStateChange (br_cfg b) \<longrightarrow> chain (br_state b) cs (br_state b'))"
proof -
  consider "br_state b = BreakerClosed" | "br_state b = BreakerOpen" | "br_state b = BreakerHalfOpen"
    using assms by (auto simp: idle_def)
  then show ?thesis
  proof cases
    case 1
    then show ?thesis
      using assms
      by (simp add: Breaker_Publish_def breaker_defs idle_def abs_circuit_def circuit_publish_def
          failed_def Let_def split: option.split)
  next
    case 2
    then show ?thesis
      using assms
      by (simp add: Breaker_Publish_def breaker_defs idle_def abs_circuit_def circuit_publish_def
          circuit_probe_def failed_def Let_def split: option.split)
  next
    case 3
    then show ?thesis
      using assms
      by (simp add: Breaker_Publish_def breaker_defs idle_def abs_circuit_def circuit_publish_def
          circuit_probe_def failed_def Let_def split: option.split)
  qed
qed

text \<open>A sequence of publishes: for each the clock readings, \<^verbatim>\<open>ctx.Err()\<close> and the inner result.\<close>

type_synonym publishCall = "int \<times> int \<times> cerror option \<times> cerror option"

fun runBreaker :: "publishCall list \<Rightarrow> Breaker \<Rightarrow> cerror option list \<times> Breaker" where
  "runBreaker [] b = ([], b)"
| "runBreaker ((now, later, ctx, res) # calls) b =
     (let ((r, cs), b) = Breaker_Publish now later ctx res b; (rs, b) = runBreaker calls b in (r # rs, b))"

fun runCircuit :: "BreakerConfig \<Rightarrow> publishCall list \<Rightarrow> circuit \<Rightarrow> cerror option list \<times> circuit" where
  "runCircuit cfg [] c = ([], c)"
| "runCircuit cfg ((now, later, ctx, res) # calls) c =
     (let (r, c) = circuit_publish cfg now later ctx res c; (rs, c) = runCircuit cfg calls c in (r # rs, c))"

lemma runBreaker_refines:
  assumes "idle b"
  shows "apsnd abs_circuit (runBreaker calls b) = runCircuit (br_cfg b) calls (abs_circuit b)"
  using assms
proof (induction calls arbitrary: b)
  case Nil
  then show ?case by simp
next
  case (Cons call calls)
  obtain now later ctx res where call: "call = (now, later, ctx, res)" by (cases call)
  obtain r cs b' where B: "Breaker_Publish now later ctx res b = ((r, cs), b')" by (metis prod.collapse)
  then have S: "idle b'" "br_cfg b' = br_cfg b"
    "circuit_publish (br_cfg b) now later ctx res (abs_circuit b) = (r, abs_circuit b')"
    using Breaker_Publish_step[OF Cons.prems, of now later ctx res] by simp_all
  have "apsnd abs_circuit (runBreaker calls b') = runCircuit (br_cfg b) calls (abs_circuit b')"
    using Cons.IH[OF S(1)] S(2) by simp
  then show ?case
    by (auto simp: call B S(3) split: prod.splits)
qed

text \<open>
  C19: The breaker implements its documented contract. For every sequence of publishes, with any
  clock readings, contexts and inner results, the errors returned and the final state are those of
  the three-state machine: \<^verbatim>\<open>FailureThreshold\<close> consecutive countable failures trip it, a success
  clears the streak, neutral errors leave it, a tripped circuit answers \<^verbatim>\<open>ErrCircuitOpen\<close> until
  \<^verbatim>\<open>RecoveryTimeout\<close> has passed, and then one probe decides (zero or negative settings mean the
  defaults 5, 30 seconds, 1).
\<close>

theorem breaker_refines:
  "apsnd abs_circuit (runBreaker calls (NewBreaker cfg)) =
     runCircuit (br_cfg (NewBreaker cfg)) calls (Healthy 0)"
  using runBreaker_refines[OF idle_new, of calls cfg]
  by (simp add: abs_circuit_def NewBreaker_def Let_def)

end
