(* ===== verification/Mqtt_Lifecycle.thy ===== *)
theory Mqtt_Lifecycle
  imports Mqtt_Errors
begin

text \<open>
  The reconnect loop (\<^verbatim>\<open>lifecycle.go\<close>). Durations and clock readings are \<^verbatim>\<open>int64\<close> nanoseconds,
  kept as integers with the wrap-around written out. The connector, the clock, the context and
  the random numbers are inputs: their values are arguments of the definitions that read them.
\<close>

definition wrap64 :: "int \<Rightarrow> int" where
  "wrap64 x = (x + 2 ^ 63) mod 2 ^ 64 - 2 ^ 63"

definition maxInt64 :: int where "maxInt64 = 2 ^ 63 - 1"

abbreviation second :: int where "second \<equiv> 1000000000"

lemma wrap64_id: "- (2 ^ 63) \<le> x \<Longrightarrow> x < 2 ^ 63 \<Longrightarrow> wrap64 x = x"
  by (simp add: wrap64_def)

section \<open>Configuration\<close>

record LifecycleConfig =
  lc_InitialBackoff :: int
  lc_MaxBackoff :: int
  lc_Jitter :: int
  lc_FlapWindow :: int

definition DefaultLifecycle :: LifecycleConfig where
  "DefaultLifecycle = \<lparr>lc_InitialBackoff = 1 * second, lc_MaxBackoff = 30 * second,
     lc_Jitter = 500 * 1000000, lc_FlapWindow = 10 * second\<rparr>"

text \<open>The part of \<^verbatim>\<open>NewLifecycle\<close> that is not construction: the configuration it stores.\<close>

definition NewLifecycle_cfg :: "LifecycleConfig \<Rightarrow> LifecycleConfig" where
  "NewLifecycle_cfg cfg =
     (let cfg = (if lc_InitialBackoff cfg \<le> 0
                 then cfg\<lparr>lc_InitialBackoff := lc_InitialBackoff DefaultLifecycle\<rparr> else cfg);
          cfg = (if lc_MaxBackoff cfg \<le> 0
                 then cfg\<lparr>lc_MaxBackoff := lc_MaxBackoff DefaultLifecycle\<rparr> else cfg);
          cfg = (if lc_FlapWindow cfg = 0
                 then cfg\<lparr>lc_FlapWindow := lc_FlapWindow DefaultLifecycle\<rparr> else cfg)
      in if lc_MaxBackoff cfg < lc_InitialBackoff cfg
         then cfg\<lparr>lc_MaxBackoff := lc_InitialBackoff cfg\<rparr> else cfg)"

section \<open>Delays\<close>

text \<open>\<open>draw\<close> is the number \<^verbatim>\<open>rand.Int63n(int64(j * 2))\<close> returns; division truncates.\<close>

definition jittered :: "LifecycleConfig \<Rightarrow> int \<Rightarrow> int \<Rightarrow> int" where
  "jittered cfg draw d =
     (let j = lc_Jitter cfg in
      if j \<le> 0 \<or> j > maxInt64 div 2 then d
      else
        let delta = draw;
            out = wrap64 (wrap64 (d + delta) - j);
            floor = (if d < 0 then - ((- d) div 2) else d div 2)
        in if out < floor then floor else out)"

text \<open>The doubling loop of a flap: \<open>n\<close> rounds remain, at most \<open>streak - 1\<close>.\<close>

fun flapDoubling :: "LifecycleConfig \<Rightarrow> nat \<Rightarrow> int \<Rightarrow> int" where
  "flapDoubling cfg 0 delay = delay"
| "flapDoubling cfg (Suc n) delay =
     (if delay < lc_MaxBackoff cfg then flapDoubling cfg n (wrap64 (delay * 2)) else delay)"

definition flapDelay :: "LifecycleConfig \<Rightarrow> nat \<Rightarrow> int" where
  "flapDelay cfg streak =
     (let delay = flapDoubling cfg (streak - 1) (lc_InitialBackoff cfg) in
      if delay > lc_MaxBackoff cfg then lc_MaxBackoff cfg else delay)"

section \<open>The loop\<close>

record loopState =
  ls_backoff :: int
  ls_lastSuccess :: int
  ls_flapStreak :: nat

definition loop_init :: "LifecycleConfig \<Rightarrow> int \<Rightarrow> loopState" where
  "loop_init cfg now = \<lparr>ls_backoff = lc_InitialBackoff cfg, ls_lastSuccess = now, ls_flapStreak = 0\<rparr>"

text \<open>
  What ends the \<^verbatim>\<open>select\<close>: the context, a connection loss seen at a time \<open>now\<close> (where the wait of a
  flap may in turn be ended by the context), or the timer. \<open>draw\<close> is the random number of the
  jitter.
\<close>

datatype wake = CtxDone | Lost int int bool | Timer int

text \<open>
  Up to the reconnect attempt: \<^const>\<open>None\<close> when the loop returns, otherwise the time slept before
  the attempt (\<^const>\<open>None\<close> when it is immediate) and the state.
\<close>

definition loop_wait :: "LifecycleConfig \<Rightarrow> wake \<Rightarrow> loopState \<Rightarrow> (int option \<times> loopState) option" where
  "loop_wait cfg w s =
     (case w of
        CtxDone \<Rightarrow> None
      | Lost now draw ctxDone \<Rightarrow>
          if lc_FlapWindow cfg > 0 \<and> now - ls_lastSuccess s < lc_FlapWindow cfg then
            let s = s\<lparr>ls_flapStreak := Suc (ls_flapStreak s)\<rparr>;
                delay = flapDelay cfg (ls_flapStreak s)
            in if ctxDone then None else Some (Some (jittered cfg draw delay), s)
          else Some (None, s\<lparr>ls_flapStreak := 0, ls_backoff := lc_InitialBackoff cfg\<rparr>)
      | Timer draw \<Rightarrow> Some (Some (jittered cfg draw (ls_backoff s)), s))"

text \<open>After the attempt, which ended with \<open>err\<close> at the time \<open>now\<close>.\<close>

definition loop_connected :: "LifecycleConfig \<Rightarrow> cerror option \<Rightarrow> int \<Rightarrow> loopState \<Rightarrow> loopState" where
  "loop_connected cfg err now s =
     (case err of
        Some e \<Rightarrow>
          if e = ErrAlreadyConnected then s\<lparr>ls_backoff := lc_MaxBackoff cfg\<rparr>
          else
            let s = s\<lparr>ls_backoff := wrap64 (ls_backoff s * 2)\<rparr> in
            if ls_backoff s > lc_MaxBackoff cfg then s\<lparr>ls_backoff := lc_MaxBackoff cfg\<rparr> else s
      | None \<Rightarrow> s\<lparr>ls_lastSuccess := now, ls_backoff := lc_InitialBackoff cfg\<rparr>)"

fun loop_run :: "LifecycleConfig \<Rightarrow> (wake \<times> cerror option \<times> int) list \<Rightarrow> loopState \<Rightarrow> int option list \<times> loopState" where
  "loop_run cfg [] s = ([], s)"
| "loop_run cfg ((w, err, now) # evs) s =
     (case loop_wait cfg w s of
        None \<Rightarrow> ([], s)
      | Some (slept, s) \<Rightarrow>
          let (ds, s) = loop_run cfg evs (loop_connected cfg err now s) in (slept # ds, s))"

section \<open>Every delay is paced\<close>

text \<open>
  What the bounds rest on: sane backoffs, below \<open>2\<^sup>6\<^sup>2\<close> nanoseconds (146 years) so that doubling
  does not overflow, and random numbers in the documented range of \<^verbatim>\<open>rand.Int63n\<close>.
\<close>

definition backoffs_ok :: "LifecycleConfig \<Rightarrow> bool" where
  "backoffs_ok cfg \<longleftrightarrow> 0 < lc_InitialBackoff cfg \<and> lc_InitialBackoff cfg \<le> lc_MaxBackoff cfg \<and>
     lc_MaxBackoff cfg < 2 ^ 62"

definition draw_ok :: "LifecycleConfig \<Rightarrow> wake \<Rightarrow> bool" where
  "draw_ok cfg w = (case w of
     CtxDone \<Rightarrow> True
   | Lost _ draw _ \<Rightarrow> 0 \<le> draw \<and> (0 < lc_Jitter cfg \<longrightarrow> draw < 2 * lc_Jitter cfg)
   | Timer draw \<Rightarrow> 0 \<le> draw \<and> (0 < lc_Jitter cfg \<longrightarrow> draw < 2 * lc_Jitter cfg))"

lemma NewLifecycle_ok:
  assumes "lc_InitialBackoff cfg < 2 ^ 62" "lc_MaxBackoff cfg < 2 ^ 62"
  shows "backoffs_ok (NewLifecycle_cfg cfg)"
  using assms by (auto simp: backoffs_ok_def NewLifecycle_cfg_def DefaultLifecycle_def Let_def)

lemma wrap64_sub: "wrap64 (wrap64 a - b) = wrap64 (a - b)"
  unfolding wrap64_def by (simp add: mod_simps algebra_simps)

lemma jittered_bounds:
  assumes "0 < d" "d < 2 ^ 62" "0 \<le> draw" "0 < lc_Jitter cfg \<longrightarrow> draw < 2 * lc_Jitter cfg"
  shows "d div 2 \<le> jittered cfg draw d" "jittered cfg draw d \<le> d + max 0 (lc_Jitter cfg)"
proof -
  have "d div 2 \<le> d" using assms(1) by linarith
  then show "d div 2 \<le> jittered cfg draw d" using assms(1) by (simp add: jittered_def Let_def)
  show "jittered cfg draw d \<le> d + max 0 (lc_Jitter cfg)"
  proof (cases "lc_Jitter cfg \<le> 0 \<or> lc_Jitter cfg > maxInt64 div 2")
    case True
    then show ?thesis by (auto simp: jittered_def Let_def)
  next
    case False
    then have "wrap64 (wrap64 (d + draw) - lc_Jitter cfg) = d + draw - lc_Jitter cfg"
      using assms unfolding wrap64_sub by (intro wrap64_id) (auto simp: maxInt64_def)
    then show ?thesis using False assms by (auto simp: jittered_def Let_def)
  qed
qed

lemma flapDoubling_min:
  assumes "0 < d" "lc_MaxBackoff cfg < 2 ^ 62"
  shows "min (flapDoubling cfg n d) (lc_MaxBackoff cfg) = min (d * 2 ^ n) (lc_MaxBackoff cfg)"
  using assms(1)
proof (induction n arbitrary: d)
  case 0
  then show ?case by simp
next
  case (Suc n)
  show ?case
  proof (cases "d < lc_MaxBackoff cfg")
    case True
    then have "wrap64 (d * 2) = d * 2" using Suc.prems assms(2) by (intro wrap64_id) auto
    then show ?thesis using True Suc.IH[of "d * 2"] Suc.prems by (simp add: mult.assoc)
  next
    case False
    moreover have "d \<le> d * 2 ^ Suc n" using Suc.prems by (simp del: power_Suc)
    ultimately show ?thesis by auto
  qed
qed

lemma flapDelay_eq:
  assumes "backoffs_ok cfg"
  shows "flapDelay cfg streak = min (lc_InitialBackoff cfg * 2 ^ (streak - 1)) (lc_MaxBackoff cfg)"
  using flapDoubling_min[of "lc_InitialBackoff cfg" cfg "streak - 1"] assms
  by (auto simp: backoffs_ok_def flapDelay_def Let_def min_def split: if_splits)

lemma flapDelay_bounds:
  assumes "backoffs_ok cfg"
  shows "lc_InitialBackoff cfg \<le> flapDelay cfg streak" "flapDelay cfg streak \<le> lc_MaxBackoff cfg"
proof -
  have "lc_InitialBackoff cfg * 1 \<le> lc_InitialBackoff cfg * 2 ^ (streak - 1)"
    using assms by (intro mult_left_mono) (auto simp: backoffs_ok_def)
  then show "lc_InitialBackoff cfg \<le> flapDelay cfg streak" "flapDelay cfg streak \<le> lc_MaxBackoff cfg"
    using assms by (auto simp: flapDelay_eq backoffs_ok_def)
qed

definition paced :: "LifecycleConfig \<Rightarrow> int \<Rightarrow> bool" where
  "paced cfg d \<longleftrightarrow> lc_InitialBackoff cfg div 2 \<le> d \<and> d \<le> lc_MaxBackoff cfg + max 0 (lc_Jitter cfg)"

definition backoff_ok :: "LifecycleConfig \<Rightarrow> loopState \<Rightarrow> bool" where
  "backoff_ok cfg s \<longleftrightarrow> lc_InitialBackoff cfg \<le> ls_backoff s \<and> ls_backoff s \<le> lc_MaxBackoff cfg"

lemma jittered_paced:
  assumes "backoffs_ok cfg" "lc_InitialBackoff cfg \<le> d" "d \<le> lc_MaxBackoff cfg"
    "0 \<le> draw" "0 < lc_Jitter cfg \<longrightarrow> draw < 2 * lc_Jitter cfg"
  shows "paced cfg (jittered cfg draw d)"
proof -
  have "0 < d" "d < 2 ^ 62" "lc_InitialBackoff cfg div 2 \<le> d div 2"
    using assms(1-3) by (auto simp: backoffs_ok_def intro: zdiv_mono1)
  with jittered_bounds[OF this(1,2) assms(4,5)] show ?thesis using assms(3) by (auto simp: paced_def)
qed

lemma loop_wait_paced:
  assumes "backoffs_ok cfg" "draw_ok cfg w" "backoff_ok cfg s" "loop_wait cfg w s = Some (slept, s')"
  shows "backoff_ok cfg s'" "slept = Some d \<Longrightarrow> paced cfg d"
  using assms flapDelay_bounds[OF assms(1)]
  by (auto simp: loop_wait_def draw_ok_def backoff_ok_def backoffs_ok_def Let_def
      split: wake.splits if_splits intro!: jittered_paced[OF assms(1)])

lemma loop_connected_ok:
  assumes "backoffs_ok cfg" "backoff_ok cfg s"
  shows "backoff_ok cfg (loop_connected cfg err now s)"
proof -
  have "wrap64 (ls_backoff s * 2) = ls_backoff s * 2"
    using assms by (intro wrap64_id) (auto simp: backoffs_ok_def backoff_ok_def)
  then show ?thesis
    using assms by (auto simp: loop_connected_def backoffs_ok_def backoff_ok_def Let_def split: option.split)
qed

lemma loop_run_paced:
  assumes "backoffs_ok cfg" "\<forall>(w, _) \<in> set evs. draw_ok cfg w" "backoff_ok cfg s"
    "loop_run cfg evs s = (ds, s')"
  shows "backoff_ok cfg s' \<and> (\<forall>d. Some d \<in> set ds \<longrightarrow> paced cfg d)"
  using assms(2-4)
proof (induction evs arbitrary: s ds)
  case Nil
  then show ?case by simp
next
  case (Cons ev evs)
  obtain w err now where ev: "ev = (w, err, now)" by (cases ev)
  show ?case
  proof (cases "loop_wait cfg w s")
    case None
    then show ?thesis using Cons.prems by (simp add: ev)
  next
    case (Some p)
    obtain slept s1 where p: "p = (slept, s1)" by (cases p)
    obtain ds1 where ds: "ds = slept # ds1" "loop_run cfg evs (loop_connected cfg err now s1) = (ds1, s')"
      using Cons.prems Some p by (auto simp: ev split: prod.splits)
    have w: "draw_ok cfg w" using Cons.prems(1) by (simp add: ev)
    note W = loop_wait_paced[OF assms(1) w Cons.prems(2) Some[unfolded p]]
    have "backoff_ok cfg s' \<and> (\<forall>d. Some d \<in> set ds1 \<longrightarrow> paced cfg d)"
      using Cons.prems(1) by (intro Cons.IH[OF _ loop_connected_ok[OF assms(1) W(1)] ds(2)]) simp
    then show ?thesis using W(2) by (auto simp: ds(1))
  qed
qed

text \<open>
  C30: The loop never hammers the broker and never stalls. Whatever the configuration (backoffs
  below \<open>2\<^sup>6\<^sup>2\<close> nanoseconds), whatever sequence of losses, flaps, timer ticks and connect results, every
  sleep is at least half the initial backoff and at most the maximal backoff plus the jitter, and
  the backoff itself stays between the two configured values.
\<close>

theorem loop_paced:
  assumes "lc_InitialBackoff cfg < 2 ^ 62" "lc_MaxBackoff cfg < 2 ^ 62"
    and "\<forall>(w, _) \<in> set evs. draw_ok (NewLifecycle_cfg cfg) w"
    and "loop_run (NewLifecycle_cfg cfg) evs (loop_init (NewLifecycle_cfg cfg) now) = (ds, s)"
  shows "(\<forall>d. Some d \<in> set ds \<longrightarrow> paced (NewLifecycle_cfg cfg) d) \<and>
    lc_InitialBackoff (NewLifecycle_cfg cfg) \<le> ls_backoff s \<and>
    ls_backoff s \<le> lc_MaxBackoff (NewLifecycle_cfg cfg)"
proof -
  note ok = NewLifecycle_ok[OF assms(1,2)]
  have "backoff_ok (NewLifecycle_cfg cfg) (loop_init (NewLifecycle_cfg cfg) now)"
    using ok by (simp add: backoff_ok_def backoffs_ok_def loop_init_def)
  from loop_run_paced[OF ok assms(3) this assms(4)] show ?thesis by (simp add: backoff_ok_def)
qed

text \<open>
  Consecutive flaps back off exponentially: the \<open>k\<close>-th connection in a row that dies within the
  flap window is retried after \<open>2\<^sup>k\<^sup>-\<^sup>1\<close> times the initial backoff, capped at the maximum (before
  jitter); a loss after a stable connection reconnects at once and clears the streak.
\<close>

theorem flap_backoff:
  assumes "backoffs_ok cfg"
  shows "loop_wait cfg (Lost now draw False) s =
    (if lc_FlapWindow cfg > 0 \<and> now - ls_lastSuccess s < lc_FlapWindow cfg then
       Some (Some (jittered cfg draw
           (min (lc_InitialBackoff cfg * 2 ^ ls_flapStreak s) (lc_MaxBackoff cfg))),
         s\<lparr>ls_flapStreak := Suc (ls_flapStreak s)\<rparr>)
     else Some (None, s\<lparr>ls_flapStreak := 0, ls_backoff := lc_InitialBackoff cfg\<rparr>))"
  using flapDelay_eq[OF assms, of "Suc (ls_flapStreak s)"] by (simp add: loop_wait_def Let_def)

text \<open>A flap, then a failed attempt, then a timer tick, with the default configuration.\<close>

theorem loop_paced_witness:
  "paced (NewLifecycle_cfg DefaultLifecycle) 500000000 \<and>
   fst (loop_run (NewLifecycle_cfg DefaultLifecycle)
     [(Lost 5 0 False, Some Transport, 6), (Timer 500000000, None, 9)]
     (loop_init (NewLifecycle_cfg DefaultLifecycle) 0)) = [Some 500000000, Some 2000000000]"
proof -
  have r: "loop_run (NewLifecycle_cfg DefaultLifecycle)
     [(Lost 5 0 False, Some Transport, 6), (Timer 500000000, None, 9)]
     (loop_init (NewLifecycle_cfg DefaultLifecycle) 0) =
     ([Some 500000000, Some 2000000000], \<lparr>ls_backoff = second, ls_lastSuccess = 9, ls_flapStreak = 1\<rparr>)"
    by code_simp
  moreover have "\<forall>(w, _) \<in> set [(Lost 5 0 False, Some Transport, 6 :: int), (Timer 500000000, None, 9)].
      draw_ok (NewLifecycle_cfg DefaultLifecycle) w"
    by (simp add: draw_ok_def NewLifecycle_cfg_def DefaultLifecycle_def)
  ultimately show ?thesis
    using loop_paced[OF _ _ _ r] by (simp add: DefaultLifecycle_def)
qed

theorem flap_backoff_witness:
  "loop_wait DefaultLifecycle (Lost 5 0 False) \<lparr>ls_backoff = second, ls_lastSuccess = 0, ls_flapStreak = 2\<rparr>
     = Some (Some (4 * second - 500000000), \<lparr>ls_backoff = second, ls_lastSuccess = 0, ls_flapStreak = 3\<rparr>)"
proof -
  have "backoffs_ok DefaultLifecycle" by (simp add: backoffs_ok_def DefaultLifecycle_def)
  note F = flap_backoff[OF this, of 5 0 "\<lparr>ls_backoff = second, ls_lastSuccess = 0, ls_flapStreak = 2\<rparr>"]
  show ?thesis
    unfolding F by (simp add: DefaultLifecycle_def jittered_def maxInt64_def wrap64_def)
qed

section \<open>Retrying the first connect\<close>

record RetryConfig =
  rc_InitialBackoff :: int
  rc_MaxBackoff :: int
  rc_MaxAttempts :: int

text \<open>
  What the loop meets at its \<open>k\<close>-th attempt: the result of \<^verbatim>\<open>Start\<close>, \<^verbatim>\<open>ctx.Err()\<close> after a failure, and
  the error of a context that ends the wait that follows.
\<close>

record attempts =
  at_Start :: "nat \<Rightarrow> cerror option"
  at_ctxErr :: "nat \<Rightarrow> cerror option"
  at_ctxWait :: "nat \<Rightarrow> cerror option"

text \<open>The loop from an attempt on, with the times slept; it may run forever.\<close>

partial_function (option) retry_loop ::
  "attempts \<Rightarrow> int \<Rightarrow> int \<Rightarrow> nat \<Rightarrow> int \<Rightarrow> (cerror option \<times> int list) option" where
  "retry_loop w maxAttempts maxBackoff attempt backoff =
     (case at_Start w attempt of
        None \<Rightarrow> Some (None, [])
      | Some err \<Rightarrow>
          (case at_ctxErr w attempt of
             Some ctxErr \<Rightarrow> Some (Some ctxErr, [])
           | None \<Rightarrow>
               if maxAttempts > 0 \<and> int attempt \<ge> maxAttempts then Some (Some err, [])
               else
                 (case at_ctxWait w attempt of
                    Some ctxErr \<Rightarrow> Some (Some ctxErr, [])
                  | None \<Rightarrow>
                      Option.bind
                        (retry_loop w maxAttempts maxBackoff (attempt + 1)
                          (min (wrap64 (2 * backoff)) maxBackoff))
                        (\<lambda>(r, slept). Some (r, backoff # slept)))))"

definition retryInitial :: "RetryConfig \<Rightarrow> int" where
  "retryInitial cfg = (if rc_InitialBackoff cfg \<le> 0 then second else rc_InitialBackoff cfg)"

definition retryMax :: "RetryConfig \<Rightarrow> int" where
  "retryMax cfg =
     (let maxBackoff = (if rc_MaxBackoff cfg \<le> 0 then 30 * second else rc_MaxBackoff cfg)
      in if maxBackoff < retryInitial cfg then retryInitial cfg else maxBackoff)"

definition ConnectWithRetry :: "attempts \<Rightarrow> RetryConfig \<Rightarrow> (cerror option \<times> int list) option" where
  "ConnectWithRetry w cfg = retry_loop w (rc_MaxAttempts cfg) (retryMax cfg) 1 (retryInitial cfg)"

text \<open>The attempts that end the loop, and what it then returns.\<close>

definition retryEnds :: "attempts \<Rightarrow> int \<Rightarrow> nat \<Rightarrow> bool" where
  "retryEnds w maxAttempts k \<longleftrightarrow> at_Start w k = None \<or> at_ctxErr w k \<noteq> None \<or>
     (maxAttempts > 0 \<and> int k \<ge> maxAttempts) \<or> at_ctxWait w k \<noteq> None"

definition retryResult :: "attempts \<Rightarrow> int \<Rightarrow> nat \<Rightarrow> cerror option" where
  "retryResult w maxAttempts k =
     (if at_Start w k = None then None
      else if at_ctxErr w k \<noteq> None then at_ctxErr w k
      else if maxAttempts > 0 \<and> int k \<ge> maxAttempts then at_Start w k
      else at_ctxWait w k)"

lemma retry_loop_ends:
  "retryEnds w m k \<Longrightarrow> retry_loop w m mb k b = Some (retryResult w m k, [])"
  by (subst retry_loop.simps) (auto simp: retryEnds_def retryResult_def split: option.splits)

lemma retry_loop_continues:
  "\<not> retryEnds w m k \<Longrightarrow> retry_loop w m mb k b =
     map_option (apsnd (Cons b)) (retry_loop w m mb (Suc k) (min (wrap64 (2 * b)) mb))"
  by (subst retry_loop.simps) (auto simp: retryEnds_def split: option.splits bind_splits)

lemma min_double:
  assumes "0 < a" "b = min (a * 2 ^ i) mb" "0 < mb" "mb < 2 ^ 62"
  shows "min (wrap64 (2 * b)) mb = min (a * 2 ^ Suc i) mb"
proof -
  have "0 < a * 2 ^ i" using assms(1) by simp
  then have "0 < b" "b \<le> mb" using assms by auto
  then have "wrap64 (2 * b) = 2 * b" using assms(4) by (intro wrap64_id) auto
  then show ?thesis using assms(2,3) \<open>0 < a * 2 ^ i\<close> by (auto simp: min_def)
qed

lemma retry_loop_run:
  assumes "0 < a" "0 < mb" "mb < 2 ^ 62"
    and "retryEnds w m (k + n)" "\<And>j. k \<le> j \<Longrightarrow> j < k + n \<Longrightarrow> \<not> retryEnds w m j"
  shows "retry_loop w m mb k (min (a * 2 ^ i) mb) =
    Some (retryResult w m (k + n), map (\<lambda>j. min (a * 2 ^ j) mb) [i..<i + n])"
  using assms(4,5)
proof (induction n arbitrary: k i)
  case 0
  then show ?case by (simp add: retry_loop_ends)
next
  case (Suc n)
  have "retry_loop w m mb (Suc k) (min (a * 2 ^ Suc i) mb) =
      Some (retryResult w m (Suc k + n), map (\<lambda>j. min (a * 2 ^ j) mb) [Suc i..<Suc i + n])"
    using Suc.prems by (intro Suc.IH) auto
  moreover have "\<not> retryEnds w m k" using Suc.prems(2)[of k] by simp
  ultimately show ?case
    using min_double[OF assms(1) refl assms(2,3), of i]
    by (simp add: retry_loop_continues upt_conv_Cons del: upt_Suc)
qed

lemma retry_cfg: "0 < retryInitial cfg" "0 < retryMax cfg" "retryInitial cfg \<le> retryMax cfg"
  by (auto simp: retryInitial_def retryMax_def Let_def)

lemma retry_run:
  assumes "retryMax cfg < 2 ^ 62" "retryEnds w (rc_MaxAttempts cfg) (Suc n)"
    "\<And>j. 1 \<le> j \<Longrightarrow> j \<le> n \<Longrightarrow> \<not> retryEnds w (rc_MaxAttempts cfg) j"
  shows "ConnectWithRetry w cfg = Some (retryResult w (rc_MaxAttempts cfg) (Suc n),
    map (\<lambda>j. min (retryInitial cfg * 2 ^ j) (retryMax cfg)) [0..<n])"
  using retry_loop_run[OF retry_cfg(1)[of cfg] retry_cfg(2) assms(1), where w = w and m = "rc_MaxAttempts cfg"
      and k = 1 and n = n and i = 0] assms(2,3) retry_cfg(3)
  by (simp add: ConnectWithRetry_def min_absorb1)

text \<open>
  \<^verbatim>\<open>ConnectWithRetry\<close> stops at the first attempt that succeeds, is the last one allowed, or is
  followed by the end of the context, and reports that attempt: success, the context's error
  (which outranks the connect error), or the last connect error. Before it, it sleeps after every
  failure, \<open>2\<^sup>j\<close> times the initial backoff capped at the maximum.
\<close>

theorem retry_schedule:
  assumes "retryMax cfg < 2 ^ 62" "retryEnds w (rc_MaxAttempts cfg) (Suc n)"
    and "\<forall>j. 1 \<le> j \<longrightarrow> j \<le> n \<longrightarrow> \<not> retryEnds w (rc_MaxAttempts cfg) j"
  shows "ConnectWithRetry w cfg = Some (retryResult w (rc_MaxAttempts cfg) (Suc n),
    map (\<lambda>j. min (retryInitial cfg * 2 ^ j) (retryMax cfg)) [0..<n])"
  using retry_run[OF assms(1,2)] assms(3) by blast

text \<open>
  C38: With a positive \<^verbatim>\<open>MaxAttempts\<close> the call always returns, after at most that many attempts,
  whatever the broker and the context do.
\<close>

theorem retry_terminates:
  assumes "retryMax cfg < 2 ^ 62" "0 < rc_MaxAttempts cfg"
  shows "\<exists>r slept. ConnectWithRetry w cfg = Some (r, slept) \<and> int (length slept) < rc_MaxAttempts cfg"
proof -
  define m where "m = rc_MaxAttempts cfg"
  define n where "n = (LEAST k. retryEnds w m (Suc k))"
  have last: "retryEnds w m (Suc (nat m - 1))" using assms(2) by (simp add: retryEnds_def m_def)
  have "retryEnds w m (Suc n)" unfolding n_def using last by (rule LeastI)
  moreover have "n \<le> nat m - 1" unfolding n_def using last by (rule Least_le)
  moreover have "\<not> retryEnds w m j" if "1 \<le> j" "j \<le> n" for j
    using that not_less_Least[of "j - 1" "\<lambda>k. retryEnds w m (Suc k)"] by (simp add: n_def)
  ultimately show ?thesis
    using retry_run[OF assms(1), of w n] assms(2) by (auto simp: m_def)
qed

text \<open>Two failures and a success, under the defaults.\<close>

definition exampleAttempts :: attempts where
  "exampleAttempts = \<lparr>at_Start = (\<lambda>k. if k < 3 then Some Transport else None),
     at_ctxErr = (\<lambda>_. None), at_ctxWait = (\<lambda>_. None)\<rparr>"

definition exampleRetry :: RetryConfig where
  "exampleRetry = \<lparr>rc_InitialBackoff = 0, rc_MaxBackoff = 0, rc_MaxAttempts = 5\<rparr>"

theorem retry_schedule_witness:
  "ConnectWithRetry exampleAttempts exampleRetry = Some (None, [second, 2 * second])"
proof -
  have "retryEnds exampleAttempts (rc_MaxAttempts exampleRetry) (Suc 2)"
    "\<forall>j. 1 \<le> j \<longrightarrow> j \<le> 2 \<longrightarrow> \<not> retryEnds exampleAttempts (rc_MaxAttempts exampleRetry) j"
    by (auto simp: exampleAttempts_def exampleRetry_def retryEnds_def)
  then show ?thesis
    using retry_schedule[of exampleRetry exampleAttempts 2]
    by (simp add: exampleRetry_def exampleAttempts_def retryMax_def retryInitial_def retryResult_def
        numeral_2_eq_2)
qed

theorem retry_terminates_witness:
  "\<exists>r slept. ConnectWithRetry exampleAttempts exampleRetry = Some (r, slept) \<and> int (length slept) < 5"
  using retry_terminates[of exampleRetry exampleAttempts]
  by (simp add: exampleRetry_def retryMax_def retryInitial_def)

text \<open>
  Beyond the bound the doubling overflows: from \<open>2\<^sup>6\<^sup>2\<close> nanoseconds on, \<^verbatim>\<open>2*backoff\<close> is negative and the
  next wait is over at once.
\<close>

lemma retry_overflow:
  "ConnectWithRetry \<lparr>at_Start = (\<lambda>_. Some Transport), at_ctxErr = (\<lambda>_. None), at_ctxWait = (\<lambda>_. None)\<rparr>
     \<lparr>rc_InitialBackoff = 2 ^ 62, rc_MaxBackoff = maxInt64, rc_MaxAttempts = 3\<rparr>
   = Some (Some Transport, [2 ^ 62, - (2 ^ 63)])"
  by (simp add: ConnectWithRetry_def retryInitial_def retryMax_def retry_loop_continues
      retry_loop_ends retryEnds_def retryResult_def wrap64_def maxInt64_def)

section \<open>Callbacks\<close>

text \<open>\<^verbatim>\<open>OnConnect\<close> appends to the list; \<^verbatim>\<open>connectOnce\<close> returns the callbacks it runs, in order.\<close>

definition OnConnect :: "'cb \<Rightarrow> 'cb list \<Rightarrow> 'cb list" where
  "OnConnect fn onConnect = onConnect @ [fn]"

definition connectOnce :: "cerror option \<Rightarrow> 'cb list \<Rightarrow> cerror option \<times> 'cb list" where
  "connectOnce connect onConnect =
     (case connect of
        Some err \<Rightarrow> (Some err, [])
      | None \<Rightarrow> (None, onConnect))"

section \<open>Start and Stop\<close>

text \<open>
  The state under the lifecycle's mutex. A call of \<^verbatim>\<open>Start\<close> is identified by a number, which also
  stands for its cancel function and its done channel.
\<close>

record lifecycle =
  lf_started :: bool
  lf_cancel :: "nat option"
  lf_loopDone :: "nat option"

definition Start_enter :: "nat \<Rightarrow> lifecycle \<Rightarrow> bool \<times> lifecycle" where
  "Start_enter r l =
     (if lf_started l then (False, l) else (True, l\<lparr>lf_cancel := Some r, lf_started := True\<rparr>))"

definition Start_failed :: "lifecycle \<Rightarrow> lifecycle" where
  "Start_failed l = l\<lparr>lf_started := False\<rparr>"

definition Start_commit :: "nat \<Rightarrow> lifecycle \<Rightarrow> bool \<times> lifecycle" where
  "Start_commit r l = (if \<not> lf_started l then (False, l) else (True, l\<lparr>lf_loopDone := Some r\<rparr>))"

definition Stop_enter :: "lifecycle \<Rightarrow> (nat option \<times> nat option) \<times> lifecycle" where
  "Stop_enter l =
     (let cancel = lf_cancel l; done' = lf_loopDone l in
      ((cancel, done'), l\<lparr>lf_started := False, lf_cancel := None, lf_loopDone := None\<rparr>))"

text \<open>
  The calls in progress. A \<^verbatim>\<open>Start\<close> that passed its check is connecting; it then fails, runs its
  loop, or finds the lifecycle stopped and disconnects. A loop exits once its context is cancelled,
  by \<^verbatim>\<open>Stop\<close>, by the failure of its own \<^verbatim>\<open>Start\<close>, or by the caller. With \<open>serial\<close>, a \<^verbatim>\<open>Start\<close> is only
  entered while no other one is connecting.
\<close>

datatype phase = Unused | Connecting | Looping | Ended

record lsys =
  lc_l :: lifecycle
  lc_phase :: "nat \<Rightarrow> phase"
  lc_cancelled :: "nat set"

definition lsys_init :: lsys where
  "lsys_init = \<lparr>lc_l = \<lparr>lf_started = False, lf_cancel = None, lf_loopDone = None\<rparr>,
     lc_phase = (\<lambda>_. Unused), lc_cancelled = {}\<rparr>"

inductive lifecycle_step :: "bool \<Rightarrow> lsys \<Rightarrow> lsys \<Rightarrow> bool" where
  starts: "Start_enter r (lc_l s) = (True, l') \<Longrightarrow> lc_phase s r = Unused \<Longrightarrow>
    serial \<longrightarrow> (\<forall>q. lc_phase s q \<noteq> Connecting) \<Longrightarrow>
    lifecycle_step serial s (s\<lparr>lc_l := l', lc_phase := (lc_phase s)(r := Connecting)\<rparr>)"
| fails: "lc_phase s r = Connecting \<Longrightarrow>
    lifecycle_step serial s (s\<lparr>lc_l := Start_failed (lc_l s), lc_phase := (lc_phase s)(r := Ended),
      lc_cancelled := insert r (lc_cancelled s)\<rparr>)"
| commits: "lc_phase s r = Connecting \<Longrightarrow> Start_commit r (lc_l s) = (ok, l') \<Longrightarrow>
    lifecycle_step serial s (s\<lparr>lc_l := l', lc_phase := (lc_phase s)(r := if ok then Looping else Ended)\<rparr>)"
| stops: "Stop_enter (lc_l s) = ((cancel, done'), l') \<Longrightarrow>
    lifecycle_step serial s (s\<lparr>lc_l := l', lc_cancelled := lc_cancelled s \<union> set_option cancel\<rparr>)"
| exits: "lc_phase s r = Looping \<Longrightarrow> r \<in> lc_cancelled s \<Longrightarrow>
    lifecycle_step serial s (s\<lparr>lc_phase := (lc_phase s)(r := Ended)\<rparr>)"
| abandons: "lifecycle_step serial s (s\<lparr>lc_cancelled := insert r (lc_cancelled s)\<rparr>)"

text \<open>The reconnect loops that keep running.\<close>

definition liveLoops :: "lsys \<Rightarrow> nat set" where
  "liveLoops s = {r. lc_phase s r = Looping \<and> r \<notin> lc_cancelled s}"

definition pendingRuns :: "lsys \<Rightarrow> nat set" where
  "pendingRuns s = {r. lc_phase s r \<in> {Connecting, Looping} \<and> r \<notin> lc_cancelled s}"

definition lifecycle_inv :: "lsys \<Rightarrow> bool" where
  "lifecycle_inv s \<longleftrightarrow>
     pendingRuns s \<subseteq> (if lf_started (lc_l s) then set_option (lf_cancel (lc_l s)) else {}) \<and>
     (\<forall>q r. lc_phase s q = Connecting \<longrightarrow> r \<in> pendingRuns s \<longrightarrow> r = q) \<and>
     (\<forall>q r. lc_phase s q = Connecting \<longrightarrow> lc_phase s r = Connecting \<longrightarrow> r = q)"

lemma lifecycle_inv_init: "lifecycle_inv lsys_init"
  by (simp add: lifecycle_inv_def lsys_init_def pendingRuns_def)

lemma lifecycle_inv_step:
  assumes "lifecycle_step True s s'" "lifecycle_inv s"
  shows "lifecycle_inv s'"
  using assms
proof (cases rule: lifecycle_step.cases)
  case (starts r l')
  then have "\<not> lf_started (lc_l s)" "lf_started l'" "lf_cancel l' = Some r"
    by (auto simp: Start_enter_def split: if_splits)
  then show ?thesis using starts assms(2) by (auto simp: lifecycle_inv_def pendingRuns_def split: if_splits)
next
  case (fails r)
  then show ?thesis
    using assms(2) by (auto simp: lifecycle_inv_def pendingRuns_def Start_failed_def split: if_splits)
next
  case (commits r ok l')
  then show ?thesis
    using assms(2) by (auto simp: lifecycle_inv_def pendingRuns_def Start_commit_def split: if_splits)
next
  case (stops cancel done' l')
  then show ?thesis
    using assms(2) by (auto simp: lifecycle_inv_def pendingRuns_def Stop_enter_def Let_def split: if_splits)
next
  case (exits r)
  then show ?thesis
    using assms(2) by (auto simp: lifecycle_inv_def pendingRuns_def split: if_splits)
next
  case (abandons r)
  then show ?thesis
    using assms(2) by (auto simp: lifecycle_inv_def pendingRuns_def split: if_splits)
qed

lemma lifecycle_inv_reachable:
  "(lifecycle_step True)\<^sup>*\<^sup>* s s' \<Longrightarrow> lifecycle_inv s \<Longrightarrow> lifecycle_inv s'"
  by (induction rule: rtranclp_induct) (auto intro: lifecycle_inv_step)

text \<open>
  C25: At most one reconnect loop is alive, and \<^verbatim>\<open>Stop\<close> ends it. As long as no \<^verbatim>\<open>Start\<close> is entered while
  another is still connecting, in every interleaving with stops, failed connects and cancelled
  contexts there is at most one loop whose context is live, and after the first section of
  \<^verbatim>\<open>Stop\<close> with its cancellation there is none, nor can a \<^verbatim>\<open>Start\<close> still connecting become one.
\<close>

theorem lifecycle_single_loop:
  assumes "(lifecycle_step True)\<^sup>*\<^sup>* lsys_init s"
  shows "(\<forall>q r. q \<in> liveLoops s \<longrightarrow> r \<in> liveLoops s \<longrightarrow> q = r) \<and>
    (\<forall>cancel done' l'. Stop_enter (lc_l s) = ((cancel, done'), l') \<longrightarrow>
       pendingRuns (s\<lparr>lc_l := l', lc_cancelled := lc_cancelled s \<union> set_option cancel\<rparr>) = {})"
proof -
  have inv: "lifecycle_inv s" using lifecycle_inv_reachable[OF assms lifecycle_inv_init] .
  then have "liveLoops s \<subseteq> set_option (lf_cancel (lc_l s))"
    by (auto simp: lifecycle_inv_def liveLoops_def pendingRuns_def split: if_splits)
  then have "q \<in> liveLoops s \<Longrightarrow> r \<in> liveLoops s \<Longrightarrow> q = r" for q r
    by (cases "lf_cancel (lc_l s)") auto
  with inv show ?thesis
    by (auto simp: lifecycle_inv_def pendingRuns_def Stop_enter_def Let_def split: if_splits)
qed

lemma starts_from:
  "\<not> lf_started (lc_l s) \<Longrightarrow> lc_phase s r = Unused \<Longrightarrow> serial \<longrightarrow> (\<forall>q. lc_phase s q \<noteq> Connecting) \<Longrightarrow>
   lifecycle_step serial s (s\<lparr>lc_l := (lc_l s)\<lparr>lf_cancel := Some r, lf_started := True\<rparr>,
     lc_phase := (lc_phase s)(r := Connecting)\<rparr>)"
  by (rule starts) (simp_all add: Start_enter_def)

lemma stops_from:
  "lifecycle_step serial s (s\<lparr>lc_l := \<lparr>lf_started = False, lf_cancel = None, lf_loopDone = None\<rparr>,
     lc_cancelled := lc_cancelled s \<union> set_option (lf_cancel (lc_l s))\<rparr>)"
  by (rule stops) (simp add: Stop_enter_def Let_def)

lemma commits_from:
  "lc_phase s r = Connecting \<Longrightarrow> lf_started (lc_l s) \<Longrightarrow>
   lifecycle_step serial s (s\<lparr>lc_l := (lc_l s)\<lparr>lf_loopDone := Some r\<rparr>,
     lc_phase := (lc_phase s)(r := Looping)\<rparr>)"
  using commits[of s r True] by (simp add: Start_commit_def)

text \<open>A session that was started.\<close>

definition startedRun :: lsys where
  "startedRun = \<lparr>lc_l = \<lparr>lf_started = True, lf_cancel = Some 0, lf_loopDone = Some 0\<rparr>,
     lc_phase = (\<lambda>_. Unused)(0 := Looping), lc_cancelled = {}\<rparr>"

lemma startedRun_reachable: "(lifecycle_step True)\<^sup>*\<^sup>* lsys_init startedRun"
proof -
  define s1 where "s1 = lsys_init\<lparr>lc_l := \<lparr>lf_started = True, lf_cancel = Some 0, lf_loopDone = None\<rparr>,
    lc_phase := (\<lambda>_. Unused)(0 := Connecting)\<rparr>"
  have "lifecycle_step True lsys_init s1"
    using starts_from[of lsys_init 0 True] by (simp add: s1_def lsys_init_def)
  moreover have "lifecycle_step True s1 startedRun"
    using commits_from[of s1 0 True] by (simp add: s1_def lsys_init_def startedRun_def)
  ultimately show ?thesis by (meson converse_rtranclp_into_rtranclp rtranclp.rtrancl_refl)
qed

theorem lifecycle_single_loop_witness:
  "(lifecycle_step True)\<^sup>*\<^sup>* lsys_init startedRun \<and> 0 \<in> liveLoops startedRun \<and>
   pendingRuns (startedRun\<lparr>lc_l := snd (Stop_enter (lc_l startedRun)), lc_cancelled := {0}\<rparr>) = {}"
proof -
  have stop: "Stop_enter (lc_l startedRun) =
      ((Some 0, Some 0), \<lparr>lf_started = False, lf_cancel = None, lf_loopDone = None\<rparr>)"
    by (simp add: Stop_enter_def startedRun_def)
  have "pendingRuns (startedRun\<lparr>lc_l := snd (Stop_enter (lc_l startedRun)), lc_cancelled := {0}\<rparr>) = {}"
    using conjunct2[OF lifecycle_single_loop[OF startedRun_reachable], rule_format, OF stop]
    by (simp add: Stop_enter_def startedRun_def)
  moreover have "0 \<in> liveLoops startedRun" by (simp add: startedRun_def liveLoops_def)
  ultimately show ?thesis using startedRun_reachable by blast
qed

text \<open>
  When starts do overlap, two loops can be alive: a failing \<^verbatim>\<open>Start\<close> clears the started mark without
  looking whether it is still its own. Here the first start is stopped, a second one begins, the
  first one fails, and a third one is let in.
\<close>

definition overlapRun :: "nat \<Rightarrow> lsys" where
  "overlapRun n = \<lparr>
     lc_l = (if n = 0 then \<lparr>lf_started = True, lf_cancel = Some 0, lf_loopDone = None\<rparr>
       else if n = 1 then \<lparr>lf_started = False, lf_cancel = None, lf_loopDone = None\<rparr>
       else if n = 2 then \<lparr>lf_started = True, lf_cancel = Some 1, lf_loopDone = None\<rparr>
       else if n = 3 then \<lparr>lf_started = False, lf_cancel = Some 1, lf_loopDone = None\<rparr>
       else if n = 4 then \<lparr>lf_started = True, lf_cancel = Some 2, lf_loopDone = None\<rparr>
       else if n = 5 then \<lparr>lf_started = True, lf_cancel = Some 2, lf_loopDone = Some 1\<rparr>
       else \<lparr>lf_started = True, lf_cancel = Some 2, lf_loopDone = Some 2\<rparr>),
     lc_phase = (\<lambda>_. Unused)
       (0 := if n < 3 then Connecting else Ended,
        1 := if n < 2 then Unused else if n < 5 then Connecting else Looping,
        2 := if n < 4 then Unused else if n < 6 then Connecting else Looping),
     lc_cancelled = (if n = 0 then {} else {0})\<rparr>"

lemma overlapRun_steps:
  "lifecycle_step False lsys_init (overlapRun 0)"
  "lifecycle_step False (overlapRun 0) (overlapRun 1)"
  "lifecycle_step False (overlapRun 1) (overlapRun 2)"
  "lifecycle_step False (overlapRun 2) (overlapRun 3)"
  "lifecycle_step False (overlapRun 3) (overlapRun 4)"
  "lifecycle_step False (overlapRun 4) (overlapRun 5)"
  "lifecycle_step False (overlapRun 5) (overlapRun 6)"
proof -
  show "lifecycle_step False lsys_init (overlapRun 0)"
    by (rule back_subst[where P = "lifecycle_step False lsys_init", OF starts_from[of lsys_init 0 False]])
       (auto simp: overlapRun_def lsys_init_def fun_eq_iff)
  show "lifecycle_step False (overlapRun 0) (overlapRun 1)"
    by (rule back_subst[where P = "lifecycle_step False (overlapRun 0)", OF stops_from[of False "overlapRun 0"]])
       (auto simp: overlapRun_def fun_eq_iff)
  show "lifecycle_step False (overlapRun 1) (overlapRun 2)"
    by (rule back_subst[where P = "lifecycle_step False (overlapRun 1)", OF starts_from[of "overlapRun 1" 1 False]])
       (auto simp: overlapRun_def fun_eq_iff)
  show "lifecycle_step False (overlapRun 2) (overlapRun 3)"
    by (rule back_subst[where P = "lifecycle_step False (overlapRun 2)", OF fails[of "overlapRun 2" 0 False]])
       (auto simp: overlapRun_def Start_failed_def fun_eq_iff)
  show "lifecycle_step False (overlapRun 3) (overlapRun 4)"
    by (rule back_subst[where P = "lifecycle_step False (overlapRun 3)", OF starts_from[of "overlapRun 3" 2 False]])
       (auto simp: overlapRun_def fun_eq_iff)
  show "lifecycle_step False (overlapRun 4) (overlapRun 5)"
    by (rule back_subst[where P = "lifecycle_step False (overlapRun 4)", OF commits_from[of "overlapRun 4" 1 False]])
       (auto simp: overlapRun_def fun_eq_iff)
  show "lifecycle_step False (overlapRun 5) (overlapRun 6)"
    by (rule back_subst[where P = "lifecycle_step False (overlapRun 5)", OF commits_from[of "overlapRun 5" 2 False]])
       (auto simp: overlapRun_def fun_eq_iff)
qed

lemma lifecycle_two_loops:
  "(lifecycle_step False)\<^sup>*\<^sup>* lsys_init (overlapRun 6) \<and> {1, 2} \<subseteq> liveLoops (overlapRun 6)"
proof
  show "(lifecycle_step False)\<^sup>*\<^sup>* lsys_init (overlapRun 6)"
    using overlapRun_steps by (meson converse_rtranclp_into_rtranclp rtranclp.rtrancl_refl)
  show "{1, 2} \<subseteq> liveLoops (overlapRun 6)" by (simp add: liveLoops_def overlapRun_def)
qed

end
