(* ===== verification/Mqtt_Options.thy ===== *)
theory Mqtt_Options
  imports Mqtt_Publish Mqtt_Connect Mqtt_Subscribe Mqtt_Topic Mqtt_Errors Mqtt_Lifecycle
begin

text \<open>
  What the client builds packets from and makes of the broker's answers: messages and options
  (\<^verbatim>\<open>client.go\<close>, \<^verbatim>\<open>options.go\<close>), the property block of a PUBLISH (\<^verbatim>\<open>publish.go\<close>), the configuration, the
  CONNECT packet, and the negotiated session (\<^verbatim>\<open>adapter_tcp.go\<close>). A functional option is the function
  on the options record that the closure applies.
\<close>

section \<open>Messages and options\<close>

type_synonym QoS = byte

abbreviation QoS0 :: QoS where "QoS0 \<equiv> 0"
abbreviation QoS1 :: QoS where "QoS1 \<equiv> 1"
abbreviation QoS2 :: QoS where "QoS2 \<equiv> 2"

definition maxSubscriptionID :: uint32 where "maxSubscriptionID = 268435455"

record Message =
  msg_Topic :: gostring
  msg_Payload :: "byte list"
  msg_QoS :: QoS
  msg_Retain :: bool
  msg_Dup :: bool
  msg_ContentType :: gostring
  msg_ResponseTopic :: gostring
  msg_CorrelationData :: "byte list"
  msg_MessageExpirySeconds :: uint32
  msg_PayloadFormatUTF8 :: bool
  msg_SubscriptionIdentifiers :: "uint32 list"
  msg_UserProperties :: "UserProperty list"

definition LegacyHandler :: "(gostring \<Rightarrow> byte list \<Rightarrow> bool \<Rightarrow> 'r) \<Rightarrow> Message \<Rightarrow> 'r" where
  "LegacyHandler fn msg = fn (msg_Topic msg) (msg_Payload msg) (msg_Retain msg)"

record publishOptions =
  po_messageExpiry :: "uint32 option"
  po_contentType :: gostring
  po_responseTopic :: gostring
  po_correlationData :: "byte list"
  po_payloadFormatUTF8 :: bool
  po_userProperties :: "UserProperty list"

text \<open>\<^verbatim>\<open>var po publishOptions\<close>\<close>

definition noPublishOptions :: publishOptions where
  "noPublishOptions = \<lparr>po_messageExpiry = None, po_contentType = [], po_responseTopic = [],
     po_correlationData = [], po_payloadFormatUTF8 = False, po_userProperties = []\<rparr>"

type_synonym PublishOption = "publishOptions \<Rightarrow> publishOptions"

definition WithMessageExpiry :: "uint32 \<Rightarrow> PublishOption" where
  "WithMessageExpiry seconds o' = o'\<lparr>po_messageExpiry := Some seconds\<rparr>"

definition WithContentType :: "gostring \<Rightarrow> PublishOption" where
  "WithContentType ct o' = o'\<lparr>po_contentType := ct\<rparr>"

definition WithResponseTopic :: "gostring \<Rightarrow> PublishOption" where
  "WithResponseTopic topic o' = o'\<lparr>po_responseTopic := topic\<rparr>"

definition WithCorrelationData :: "byte list \<Rightarrow> PublishOption" where
  "WithCorrelationData data o' = o'\<lparr>po_correlationData := data\<rparr>"

definition WithPayloadFormatUTF8 :: PublishOption where
  "WithPayloadFormatUTF8 o' = o'\<lparr>po_payloadFormatUTF8 := True\<rparr>"

definition WithUserProperties :: "UserProperty list \<Rightarrow> PublishOption" where
  "WithUserProperties props o' = o'\<lparr>po_userProperties := po_userProperties o' @ props\<rparr>"

type_synonym RetainHandling = byte

abbreviation SendRetained :: RetainHandling where "SendRetained \<equiv> 0"
abbreviation SendRetainedIfNew :: RetainHandling where "SendRetainedIfNew \<equiv> 1"
abbreviation DontSendRetained :: RetainHandling where "DontSendRetained \<equiv> 2"

record subscribeOptions =
  sopt_noLocal :: bool
  sopt_retainAsPublished :: bool
  sopt_retainHandling :: RetainHandling
  sopt_subscriptionID :: uint32

definition noSubscribeOptions :: subscribeOptions where
  "noSubscribeOptions = \<lparr>sopt_noLocal = False, sopt_retainAsPublished = False,
     sopt_retainHandling = 0, sopt_subscriptionID = 0\<rparr>"

type_synonym SubscribeOption = "subscribeOptions \<Rightarrow> subscribeOptions"

definition WithNoLocal :: SubscribeOption where
  "WithNoLocal o' = o'\<lparr>sopt_noLocal := True\<rparr>"

definition WithRetainAsPublished :: SubscribeOption where
  "WithRetainAsPublished o' = o'\<lparr>sopt_retainAsPublished := True\<rparr>"

definition WithRetainHandling :: "RetainHandling \<Rightarrow> SubscribeOption" where
  "WithRetainHandling h o' = o'\<lparr>sopt_retainHandling := h\<rparr>"

definition WithSubscriptionID :: "uint32 \<Rightarrow> SubscribeOption" where
  "WithSubscriptionID ident o' = o'\<lparr>sopt_subscriptionID := ident\<rparr>"

record SubscribeResult =
  sr_GrantedQoS :: QoS
  sr_ReasonCode :: ReasonCode

record ConnectResult =
  cr_SessionPresent :: bool
  cr_ReasonCode :: ReasonCode
  cr_AssignedClientID :: gostring
  cr_ServerKeepAlive :: int
  cr_ServerKeepAliveSet :: bool
  cr_ReceiveMaximum :: uint16
  cr_MaximumQoS :: QoS
  cr_RetainAvailable :: bool
  cr_MaximumPacketSize :: uint32
  cr_TopicAliasMaximum :: uint16
  cr_UserProperties :: "UserProperty list"

record ClientWill =
  cw_Topic :: gostring
  cw_ContentType :: gostring
  cw_ResponseTopic :: gostring
  cw_Payload :: "byte list"
  cw_CorrelationData :: "byte list"
  cw_QoS :: QoS
  cw_Retain :: bool
  cw_PayloadFormatUTF8 :: bool
  cw_DelayIntervalSeconds :: uint32
  cw_MessageExpirySeconds :: uint32
  cw_UserProperties :: "UserProperty list"

definition SessionExpiryNever :: uint32 where "SessionExpiryNever = 0xFFFFFFFF"

section \<open>The properties of a PUBLISH\<close>

definition buildPublishProps :: "Version \<Rightarrow> publishOptions \<Rightarrow> Properties option" where
  "buildPublishProps v po =
     (if v \<noteq> V50 then None
      else
        let p = emptyProperties\<lparr>ContentType := po_contentType po, ResponseTopic := po_responseTopic po,
                  CorrelationData := po_correlationData po, UserProperties := po_userProperties po\<rparr>;
            empty = (po_contentType po = [] \<and> po_responseTopic po = [] \<and>
                  length (po_correlationData po) = 0 \<and> length (po_userProperties po) = 0);
            (p, empty) = (if po_messageExpiry po \<noteq> None
                  then (p\<lparr>MessageExpiryInterval := po_messageExpiry po\<rparr>, False) else (p, empty));
            (p, empty) = (if po_payloadFormatUTF8 po
                  then (p\<lparr>PayloadFormat := Some 1\<rparr>, False) else (p, empty))
        in if empty then None else Some p)"

definition toMessage :: "PublishPacket \<Rightarrow> Message" where
  "toMessage p =
     (let m = \<lparr>msg_Topic = pub_Topic p, msg_Payload = pub_Payload p, msg_QoS = pub_QoS p,
                msg_Retain = pub_Retain p, msg_Dup = pub_Dup p, msg_ContentType = [],
                msg_ResponseTopic = [], msg_CorrelationData = [], msg_MessageExpirySeconds = 0,
                msg_PayloadFormatUTF8 = False, msg_SubscriptionIdentifiers = [], msg_UserProperties = []\<rparr>
      in case pub_Properties p of
        None \<Rightarrow> m
      | Some pr \<Rightarrow>
          let m = m\<lparr>msg_ContentType := ContentType pr, msg_ResponseTopic := ResponseTopic pr,
                    msg_CorrelationData := CorrelationData pr,
                    msg_SubscriptionIdentifiers := SubscriptionIdentifiers pr,
                    msg_UserProperties := UserProperties pr\<rparr>;
              m = (case MessageExpiryInterval pr of
                     None \<Rightarrow> m | Some v \<Rightarrow> m\<lparr>msg_MessageExpirySeconds := v\<rparr>)
          in case PayloadFormat pr of
               None \<Rightarrow> m | Some b \<Rightarrow> m\<lparr>msg_PayloadFormatUTF8 := (b = 1)\<rparr>)"

definition reasonStringOf :: "Properties option \<Rightarrow> gostring" where
  "reasonStringOf p = (case p of None \<Rightarrow> [] | Some pr \<Rightarrow> ReasonString pr)"

section \<open>The replay copy\<close>

text \<open>
  The one place where aliasing matters: the session store must not share byte slices with the
  caller. A slice is an address into a heap of arrays, nil is \<^const>\<open>None\<close>; a packet is given with
  the addresses of its two caller-owned slices.
\<close>

record byteHeap =
  hp_next :: nat
  hp_cells :: "nat \<Rightarrow> byte list"

type_synonym slice = "nat option"

definition readSlice :: "byteHeap \<Rightarrow> slice \<Rightarrow> byte list" where
  "readSlice h s = (case s of None \<Rightarrow> [] | Some a \<Rightarrow> hp_cells h a)"

text \<open>\<^verbatim>\<open>bytes.Clone\<close>\<close>

definition Clone :: "slice \<Rightarrow> byteHeap \<Rightarrow> slice \<times> byteHeap" where
  "Clone s h =
     (case s of
        None \<Rightarrow> (None, h)
      | Some a \<Rightarrow> (Some (hp_next h),
          \<lparr>hp_next = Suc (hp_next h), hp_cells = (hp_cells h)(hp_next h := hp_cells h a)\<rparr>))"

record PublishRef =
  ref_pkt :: PublishPacket
  ref_payload :: slice
  ref_correlation :: slice

definition deref :: "byteHeap \<Rightarrow> PublishRef \<Rightarrow> PublishPacket" where
  "deref h r = (ref_pkt r)\<lparr>pub_Payload := readSlice h (ref_payload r),
     pub_Properties := map_option (CorrelationData_update (\<lambda>_. readSlice h (ref_correlation r)))
       (pub_Properties (ref_pkt r))\<rparr>"

definition storedCopy :: "PublishRef \<Rightarrow> byteHeap \<Rightarrow> PublishRef \<times> byteHeap" where
  "storedCopy pkt h =
     (let stored = pkt;
          (payload, h) = Clone (ref_payload pkt) h;
          stored = stored\<lparr>ref_payload := payload\<rparr> in
      if pub_Properties (ref_pkt pkt) \<noteq> None then
        let (correlation, h) = Clone (ref_correlation pkt) h
        in (stored\<lparr>ref_correlation := correlation\<rparr>, h)
      else (stored, h))"

text \<open>
  C39: A caller may reuse its buffers as soon as \<^verbatim>\<open>Publish\<close> returns: the copy kept for replay has the
  contents of the original packet, and keeps them when any array that existed before the call,
  the payload and the correlation data included, is overwritten.
\<close>

theorem storedCopy_isolated:
  assumes "storedCopy pkt h = (stored, h')"
    and "set_option (ref_payload pkt) \<union> set_option (ref_correlation pkt) \<subseteq> {..<hp_next h}"
  shows "deref h' stored = deref h pkt \<and>
    (\<forall>a bs. a < hp_next h \<longrightarrow> deref (h'\<lparr>hp_cells := (hp_cells h')(a := bs)\<rparr>) stored = deref h pkt)"
  using assms
  by (cases "ref_payload pkt"; cases "ref_correlation pkt"; cases "pub_Properties (ref_pkt pkt)")
     (auto simp: storedCopy_def Clone_def deref_def readSlice_def)

section \<open>Configuration\<close>

abbreviation defaultMaxPacketSize :: uint32 where "defaultMaxPacketSize \<equiv> 0x100000"
abbreviation keepAliveFloor :: int where "keepAliveFloor \<equiv> 30 * second"
abbreviation defaultDialTimeout :: int where "defaultDialTimeout \<equiv> 10 * second"
abbreviation defaultAckTimeout :: int where "defaultAckTimeout \<equiv> 20 * second"
abbreviation defaultReceiveMaximum :: uint16 where "defaultReceiveMaximum \<equiv> 65535"

record TCPConfig =
  cfg_ClientID :: gostring
  cfg_Username :: gostring
  cfg_Password :: gostring
  cfg_ProtocolVersion :: Version
  cfg_CleanStart :: bool
  cfg_SessionExpirySeconds :: uint32
  cfg_ReceiveMaximum :: uint16
  cfg_MaximumPacketSize :: uint32
  cfg_TopicAliasMaximum :: uint16
  cfg_UserProperties :: "UserProperty list"
  cfg_KeepAlive :: int
  cfg_DialTimeout :: int
  cfg_AckTimeout :: int
  cfg_MaxInflight :: uint16
  cfg_Will :: "ClientWill option"

text \<open>The configuration and the inbound limit that \<^verbatim>\<open>NewTCPClient\<close> stores.\<close>

definition NewTCPClient_cfg :: "TCPConfig \<Rightarrow> TCPConfig \<times> uint32" where
  "NewTCPClient_cfg cfg =
     (let cfg = (if cfg_ProtocolVersion cfg = 0 then cfg\<lparr>cfg_ProtocolVersion := V50\<rparr> else cfg);
          cfg = (if cfg_KeepAlive cfg < keepAliveFloor then cfg\<lparr>cfg_KeepAlive := keepAliveFloor\<rparr> else cfg);
          cfg = (if cfg_DialTimeout cfg = 0 then cfg\<lparr>cfg_DialTimeout := defaultDialTimeout\<rparr> else cfg);
          cfg = (if cfg_AckTimeout cfg = 0 then cfg\<lparr>cfg_AckTimeout := defaultAckTimeout\<rparr> else cfg);
          inboundMax = (if cfg_MaximumPacketSize cfg = 0 then defaultMaxPacketSize
                        else cfg_MaximumPacketSize cfg)
      in (cfg, inboundMax))"

definition keepAliveSeconds :: "TCPConfig \<Rightarrow> uint16" where
  "keepAliveSeconds cfg =
     (let s = cfg_KeepAlive cfg div second in
      if s > 0xFFFF then 0xFFFF else of_int s)"

definition buildWill :: "Version \<Rightarrow> ClientWill \<Rightarrow> Will" where
  "buildWill v w =
     (let pw = \<lparr>will_Topic = cw_Topic w, will_Payload = cw_Payload w, will_QoS = cw_QoS w,
                 will_Retain = cw_Retain w, will_Properties = None\<rparr> in
      if v \<noteq> V50 then pw
      else
        let props = emptyProperties\<lparr>ContentType := cw_ContentType w, ResponseTopic := cw_ResponseTopic w,
                      CorrelationData := cw_CorrelationData w, UserProperties := cw_UserProperties w\<rparr>;
            props = (if cw_PayloadFormatUTF8 w then props\<lparr>PayloadFormat := Some 1\<rparr> else props);
            props = (if cw_MessageExpirySeconds w \<noteq> 0
                     then props\<lparr>MessageExpiryInterval := Some (cw_MessageExpirySeconds w)\<rparr> else props);
            props = (if cw_DelayIntervalSeconds w \<noteq> 0
                     then props\<lparr>WillDelayInterval := Some (cw_DelayIntervalSeconds w)\<rparr> else props)
        in pw\<lparr>will_Properties := Some props\<rparr>)"

definition buildConnectPacket :: "TCPConfig \<Rightarrow> uint32 \<Rightarrow> ConnectPacket" where
  "buildConnectPacket cfg inboundMax =
     (let version = cfg_ProtocolVersion cfg;
          pkt = \<lparr>con_Version = version, con_ClientID = cfg_ClientID cfg,
                 con_KeepAlive = keepAliveSeconds cfg, con_Username = cfg_Username cfg,
                 con_Password = cfg_Password cfg, con_CleanStart = cfg_CleanStart cfg,
                 con_Will = None, con_Properties = None\<rparr>;
          pkt = (case cfg_Will cfg of
                   None \<Rightarrow> pkt
                 | Some w \<Rightarrow> pkt\<lparr>con_Will := Some (buildWill version w)\<rparr>) in
      if version = V50 then
        let props = emptyProperties;
            props = (if cfg_SessionExpirySeconds cfg \<noteq> 0
                     then props\<lparr>SessionExpiryInterval := Some (cfg_SessionExpirySeconds cfg)\<rparr> else props);
            props = (if cfg_ReceiveMaximum cfg \<noteq> 0
                     then props\<lparr>ReceiveMaximum := Some (cfg_ReceiveMaximum cfg)\<rparr> else props);
            props = props\<lparr>MaximumPacketSize := Some inboundMax\<rparr>;
            props = (if cfg_TopicAliasMaximum cfg \<noteq> 0
                     then props\<lparr>TopicAliasMaximum := Some (cfg_TopicAliasMaximum cfg)\<rparr> else props);
            props = props\<lparr>UserProperties := cfg_UserProperties cfg\<rparr>
        in pkt\<lparr>con_Properties := Some props\<rparr>
      else pkt)"

section \<open>The negotiated session\<close>

definition validateConnackLimits :: "Version \<Rightarrow> ConnackPacket \<Rightarrow> gerror + unit" where
  "validateConnackLimits v ack =
     (if v \<noteq> V50 then Inr ()
      else case ca_Properties ack of
        None \<Rightarrow> Inr ()
      | Some p \<Rightarrow>
          if ReceiveMaximum p = Some 0 then Inl ErrProtocolViolation
          else if MaximumPacketSize p = Some 0 then Inl ErrProtocolViolation
          else Inr ())"

definition buildConnectResult :: "ConnackPacket \<Rightarrow> ConnectResult" where
  "buildConnectResult ack =
     (let res = \<lparr>cr_SessionPresent = ca_SessionPresent ack, cr_ReasonCode = ca_ReasonCode ack,
                 cr_AssignedClientID = [], cr_ServerKeepAlive = 0, cr_ServerKeepAliveSet = False,
                 cr_ReceiveMaximum = defaultReceiveMaximum, cr_MaximumQoS = QoS2,
                 cr_RetainAvailable = True, cr_MaximumPacketSize = 0, cr_TopicAliasMaximum = 0,
                 cr_UserProperties = []\<rparr> in
      case ca_Properties ack of
        None \<Rightarrow> res
      | Some p \<Rightarrow>
          let res = res\<lparr>cr_AssignedClientID := AssignedClientID p\<rparr>;
              res = (case ServerKeepAlive p of None \<Rightarrow> res
                     | Some v \<Rightarrow> res\<lparr>cr_ServerKeepAlive := uint v * second, cr_ServerKeepAliveSet := True\<rparr>);
              res = (case ReceiveMaximum p of None \<Rightarrow> res | Some v \<Rightarrow> res\<lparr>cr_ReceiveMaximum := v\<rparr>);
              res = (case MaximumQoS p of None \<Rightarrow> res | Some v \<Rightarrow> res\<lparr>cr_MaximumQoS := v\<rparr>);
              res = (case RetainAvailable p of None \<Rightarrow> res | Some v \<Rightarrow> res\<lparr>cr_RetainAvailable := (v \<noteq> 0)\<rparr>);
              res = (case MaximumPacketSize p of None \<Rightarrow> res | Some v \<Rightarrow> res\<lparr>cr_MaximumPacketSize := v\<rparr>);
              res = (case TopicAliasMaximum p of None \<Rightarrow> res | Some v \<Rightarrow> res\<lparr>cr_TopicAliasMaximum := v\<rparr>)
          in res\<lparr>cr_UserProperties := UserProperties p\<rparr>)"

text \<open>\<open>override\<close> is the field \<^verbatim>\<open>pingInterval\<close> of the client, zero outside the package's tests.\<close>

definition effectivePingInterval :: "TCPConfig \<Rightarrow> int \<Rightarrow> ConnectResult \<Rightarrow> int" where
  "effectivePingInterval cfg override result =
     (if cr_ServerKeepAliveSet result \<and> cr_ServerKeepAlive result = 0 then 0
      else if override > 0 then override
      else
        let ka = cfg_KeepAlive cfg;
            ka = (if cr_ServerKeepAlive result > 0 then cr_ServerKeepAlive result else ka)
        in ka div 2)"

definition quotaSize :: "TCPConfig \<Rightarrow> ConnectResult \<Rightarrow> int" where
  "quotaSize cfg result =
     (if cfg_ProtocolVersion cfg = V50 then uint (cr_ReceiveMaximum result)
      else if cfg_MaxInflight cfg \<noteq> 0 then uint (cfg_MaxInflight cfg)
      else uint defaultReceiveMaximum)"

definition connectAbortCause :: "cerror option \<Rightarrow> cerror \<Rightarrow> cerror" where
  "connectAbortCause ctx err = (case ctx of Some cause \<Rightarrow> cause | None \<Rightarrow> err)"

section \<open>The endpoint\<close>

text \<open>The accessors of a parsed \<^verbatim>\<open>*url.URL\<close>.\<close>

record brokerURL =
  url_Scheme :: gostring
  url_Host :: gostring
  url_Hostname :: gostring
  url_Port :: gostring

text \<open>\<^verbatim>\<open>net.JoinHostPort\<close>\<close>

definition JoinHostPort :: "gostring \<Rightarrow> gostring \<Rightarrow> gostring" where
  "JoinHostPort host port =
     (if containsByte host 0x3A then [0x5B] @ host @ [0x5D, 0x3A] @ port else host @ [0x3A] @ port)"

text \<open>The decision of \<^verbatim>\<open>dial\<close>: whether to speak TLS, and the address to connect to.\<close>

definition dialTarget :: "brokerURL \<Rightarrow> (bool \<times> gostring) option" where
  "dialTarget u =
     (let scheme = (if url_Scheme u \<in> {str ''tls'', str ''ssl'', str ''mqtts''} then Some True
                    else if url_Scheme u \<in> {str ''tcp'', str ''mqtt'', []} then Some False
                    else None) in
      case scheme of
        None \<Rightarrow> None
      | Some tlsScheme \<Rightarrow>
          Some (tlsScheme,
            if url_Port u = [] then
              let port = (if tlsScheme then str ''8883'' else str ''1883'')
              in JoinHostPort (url_Hostname u) port
            else url_Host u))"

section \<open>What a CONNACK can negotiate\<close>

text \<open>The value ranges the property decoder enforces and the client relies on.\<close>

definition limitsOk :: "Properties \<Rightarrow> bool" where
  "limitsOk p \<longleftrightarrow> ReceiveMaximum p \<noteq> Some 0 \<and> MaximumPacketSize p \<noteq> Some 0 \<and> TopicAlias p \<noteq> Some 0 \<and>
     (\<forall>q. MaximumQoS p = Some q \<longrightarrow> q \<le> 1)"

definition yields :: "('a \<Rightarrow> bool) \<Rightarrow> gerror + ('a \<times> cursor) \<Rightarrow> bool" where
  "yields P m \<longleftrightarrow> (\<forall>x c. m = Inr (x, c) \<longrightarrow> P x)"

lemma yields_Inl: "yields P (Inl e)"
  and yields_Inr: "P x \<Longrightarrow> yields P (Inr (x, c))"
  and yields_if: "(b \<Longrightarrow> yields P m) \<Longrightarrow> (\<not> b \<Longrightarrow> yields P m') \<Longrightarrow> yields P (if b then m else m')"
  and yields_andthen: "(\<And>v c. m = Inr (v, c) \<Longrightarrow> yields P (f (v, c))) \<Longrightarrow> yields P (andthen m f)"
  by (auto simp: yields_def andthen_Inr_iff)

lemmas yields_intros = yields_Inl yields_if yields_andthen

lemma ucast_limits:
  "ucast (v :: uint16) = (0 :: uint32) \<longleftrightarrow> v = 0" "(1 :: uint32) < ucast (b :: byte) \<longleftrightarrow> 1 < b"
proof -
  have "unat v < 2 ^ 32" "unat b < 2 ^ 32"
    using unsigned_less[of v, where 'a = nat] unsigned_less[of b, where 'a = nat] by simp_all
  then show "ucast v = (0 :: uint32) \<longleftrightarrow> v = 0" "(1 :: uint32) < ucast b \<longleftrightarrow> 1 < b"
    by (simp_all add: word_unat_eq_iff unsigned_ucast_eq take_bit_nat_eq_self word_less_nat_alt)
qed

lemma limits_readProp:
  "readPropUint16 c 0x21 = Inr (v, c') \<Longrightarrow> v \<noteq> 0"
  "readPropUint16 c 0x23 = Inr (v, c') \<Longrightarrow> v \<noteq> 0"
  "readPropUint32 c 0x27 = Inr (u, c') \<Longrightarrow> u \<noteq> 0"
  "readPropByte c 0x24 = Inr (b, c') \<Longrightarrow> b \<le> 1"
  by (auto simp: readPropUint16_def readPropUint32_def readPropByte_def propertyValueViolation_def
      andthen_Inr_iff ucast_limits not_less split: if_splits)

lemma decodeOne_limits:
  assumes "limitsOk p"
  shows "yields limitsOk (decodeOne p c ident)"
  unfolding decodeOne_def prod.case
  by (intro yields_intros)
     (use assms in \<open>auto simp: yields_def limitsOk_def andthen_Inr_iff limits_readProp
        dest: limits_readProp split: if_splits\<close>)

lemma propLoop_limits:
  "propLoop target sub p seen = Inr p' \<Longrightarrow> limitsOk p \<Longrightarrow> limitsOk p'"
proof (induction target sub p seen rule: propLoop.induct)
  case (1 target sub p seen)
  show ?case
  proof (cases "remaining sub > 0")
    case False
    then show ?thesis using "1.prems" by (subst (asm) propLoop.simps) simp
  next
    case True
    obtain ident sub1 where rb: "readByte sub = Inr (ident, sub1)"
      using "1.prems"(1) True by (subst (asm) propLoop.simps) (auto simp: andthen_Inr_iff)
    have one: "decodeOne p sub1 ident = Inr (q, sub2) \<Longrightarrow> limitsOk q" for q sub2
      using decodeOne_limits[OF "1.prems"(2), of sub1 ident] by (simp add: yields_def)
    from "1.prems"(1) show ?thesis
      using "1.IH"[OF True rb refl] one
      by (subst (asm) propLoop.simps)
         (auto simp: rb True Let_def andthen_Inr_iff split: if_splits option.splits)
  qed
qed

lemma limits_empty: "limitsOk emptyProperties"
  by (simp add: limitsOk_def emptyProperties_def)

lemma decodeProperties_limits: "decodeProperties c target = Inr (Some p, c') \<Longrightarrow> limitsOk p"
  unfolding decodeProperties_def Let_def
  by (auto simp: andthen_Inr_iff intro: propLoop_limits[OF _ limits_empty] split: if_splits)

lemma DecodeConnack_limits:
  assumes "DecodeConnack v body = Inr ack" "ca_Properties ack = Some p"
  shows "v = V50" "limitsOk p"
  using assms decodeProperties_limits
  by (auto simp: DecodeConnack_def Let_def andthen_Inr_iff split: if_splits)

lemma buildConnectResult_simps:
  assumes "ca_Properties ack = Some p"
  shows "cr_ReceiveMaximum (buildConnectResult ack) = case_option defaultReceiveMaximum (\<lambda>v. v) (ReceiveMaximum p)"
    "cr_MaximumQoS (buildConnectResult ack) = case_option QoS2 (\<lambda>v. v) (MaximumQoS p)"
    "cr_ServerKeepAlive (buildConnectResult ack) = case_option 0 (\<lambda>v. uint v * second) (ServerKeepAlive p)"
    "cr_ServerKeepAliveSet (buildConnectResult ack) \<longleftrightarrow> ServerKeepAlive p \<noteq> None"
    "cr_MaximumPacketSize (buildConnectResult ack) = case_option 0 (\<lambda>v. v) (MaximumPacketSize p)"
  using assms unfolding buildConnectResult_def Let_def
  by (simp_all split: option.split)

text \<open>
  C29: No CONNACK can corrupt the session's limits. For every answer the decoder accepts, the
  defence-in-depth check of \<^verbatim>\<open>Connect\<close> never fires, the send quota is between 1 and 65535, and the
  maximum QoS is a QoS; the ping interval is zero exactly when the broker switched keep-alive
  off, and otherwise at least half a second.
\<close>

theorem negotiated_session:
  assumes "NewTCPClient_cfg cfg0 = (cfg, inboundMax)"
    and "DecodeConnack (cfg_ProtocolVersion cfg) body = Inr ack"
  defines "res \<equiv> buildConnectResult ack"
  shows "validateConnackLimits (cfg_ProtocolVersion cfg) ack = Inr () \<and>
    1 \<le> quotaSize cfg res \<and> quotaSize cfg res \<le> 65535 \<and> cr_MaximumQoS res \<le> QoS2 \<and>
    (cr_ServerKeepAliveSet res \<and> cr_ServerKeepAlive res = 0 \<longleftrightarrow> effectivePingInterval cfg 0 res = 0) \<and>
    (effectivePingInterval cfg 0 res \<noteq> 0 \<longrightarrow> second div 2 \<le> effectivePingInterval cfg 0 res)"
proof -
  have ka: "keepAliveFloor \<le> cfg_KeepAlive cfg"
    using assms(1) by (auto simp: NewTCPClient_cfg_def Let_def split: if_splits)
  have nz: "1 \<le> uint w" "uint w \<le> 65535" if "w \<noteq> 0" for w :: uint16
  proof -
    have "uint w \<noteq> 0" "uint w < 65536" using that uint_lt2p[of w] by (simp_all add: word_uint_eq_iff)
    then show "1 \<le> uint w" "uint w \<le> 65535" using uint_ge_0[of w] by linarith+
  qed
  show ?thesis
  proof (cases "ca_Properties ack")
    case None
    then show ?thesis
      using ka nz(1)[of "cfg_MaxInflight cfg"] nz(2)[of "cfg_MaxInflight cfg"]
      by (auto simp: validateConnackLimits_def res_def buildConnectResult_def quotaSize_def
          effectivePingInterval_def Let_def)
  next
    case (Some p)
    note L = DecodeConnack_limits[OF assms(2) Some]
    have q: "\<And>q. q \<le> (1 :: byte) \<Longrightarrow> q \<le> 2" by (simp add: word_le_nat_alt)
    have "validateConnackLimits (cfg_ProtocolVersion cfg) ack = Inr ()"
      using L(2) Some by (simp add: validateConnackLimits_def limitsOk_def)
    moreover have "1 \<le> quotaSize cfg res \<and> quotaSize cfg res \<le> 65535"
      using L nz by (auto simp: quotaSize_def res_def buildConnectResult_simps[OF Some] limitsOk_def split: option.split)
    moreover have "cr_MaximumQoS res \<le> QoS2"
      using L(2) q by (auto simp: res_def buildConnectResult_simps[OF Some] limitsOk_def split: option.split)
    moreover have "uint v = 0 \<or> 1 \<le> uint v" for v :: uint16 using uint_ge_0[of v] by linarith
    then have "(cr_ServerKeepAliveSet res \<and> cr_ServerKeepAlive res = 0 \<longleftrightarrow> effectivePingInterval cfg 0 res = 0) \<and>
      (effectivePingInterval cfg 0 res \<noteq> 0 \<longrightarrow> second div 2 \<le> effectivePingInterval cfg 0 res)"
      using ka by (cases "ServerKeepAlive p")
        (auto simp: effectivePingInterval_def res_def buildConnectResult_simps[OF Some] Let_def)
    ultimately show ?thesis by blast
  qed
qed

definition exampleConnack :: "byte list" where
  "exampleConnack = [0x00, 0x00, 0x06, 0x21, 0x00, 0x0A, 0x13, 0x00, 0x00]"

definition exampleConfig :: TCPConfig where
  "exampleConfig = \<lparr>cfg_ClientID = str ''c'', cfg_Username = [], cfg_Password = [],
     cfg_ProtocolVersion = 0, cfg_CleanStart = False, cfg_SessionExpirySeconds = 60,
     cfg_ReceiveMaximum = 0, cfg_MaximumPacketSize = 0, cfg_TopicAliasMaximum = 0,
     cfg_UserProperties = [], cfg_KeepAlive = 0, cfg_DialTimeout = 0, cfg_AckTimeout = 0,
     cfg_MaxInflight = 0, cfg_Will = None\<rparr>"

theorem negotiated_session_witness:
  "\<exists>ack. DecodeConnack V50 exampleConnack = Inr ack \<and>
     1 \<le> quotaSize (fst (NewTCPClient_cfg exampleConfig)) (buildConnectResult ack)"
proof -
  have "isl (DecodeConnack V50 exampleConnack) = False" by code_simp
  then obtain ack where ack: "DecodeConnack V50 exampleConnack = Inr ack"
    by (cases "DecodeConnack V50 exampleConnack") auto
  obtain cfg m where cfg: "NewTCPClient_cfg exampleConfig = (cfg, m)" by fastforce
  have "cfg_ProtocolVersion cfg = V50"
    using cfg by (auto simp: NewTCPClient_cfg_def exampleConfig_def Let_def)
  then show ?thesis using negotiated_session[OF cfg, of exampleConnack ack] ack cfg by auto
qed

theorem storedCopy_isolated_witness:
  "deref ((snd (storedCopy \<lparr>ref_pkt = examplePublish, ref_payload = Some 0, ref_correlation = Some 1\<rparr>
       \<lparr>hp_next = 2, hp_cells = (\<lambda>_. [7])\<rparr>))\<lparr>hp_cells := (\<lambda>a. if a < 2 then [9] else [7])\<rparr>)
     (fst (storedCopy \<lparr>ref_pkt = examplePublish, ref_payload = Some 0, ref_correlation = Some 1\<rparr>
       \<lparr>hp_next = 2, hp_cells = (\<lambda>_. [7])\<rparr>)) =
   deref \<lparr>hp_next = 2, hp_cells = (\<lambda>_. [7])\<rparr>
     \<lparr>ref_pkt = examplePublish, ref_payload = Some 0, ref_correlation = Some 1\<rparr>"
  using storedCopy_isolated[of "\<lparr>ref_pkt = examplePublish, ref_payload = Some 0, ref_correlation = Some 1\<rparr>"
      "\<lparr>hp_next = 2, hp_cells = (\<lambda>_. [7])\<rparr>"]
  by (simp add: storedCopy_def Clone_def deref_def readSlice_def examplePublish_def)

section \<open>From the publisher's options to the subscriber's message\<close>

lemma buildPublishProps_norm: "normProps (buildPublishProps v po) = buildPublishProps v po"
proof -
  have "buildPublishProps v po \<noteq> Some emptyProperties"
    by (auto simp: buildPublishProps_def Let_def emptyProperties_def split: if_splits)
  then show ?thesis by (simp add: normProps_def)
qed

text \<open>The message a subscriber should see.\<close>

definition deliveredMessage :: "gostring \<Rightarrow> byte list \<Rightarrow> QoS \<Rightarrow> bool \<Rightarrow> publishOptions \<Rightarrow> Message" where
  "deliveredMessage topic payload qos retain po =
     \<lparr>msg_Topic = topic, msg_Payload = payload, msg_QoS = qos, msg_Retain = retain, msg_Dup = False,
      msg_ContentType = po_contentType po, msg_ResponseTopic = po_responseTopic po,
      msg_CorrelationData = po_correlationData po,
      msg_MessageExpirySeconds = (case po_messageExpiry po of None \<Rightarrow> 0 | Some v \<Rightarrow> v),
      msg_PayloadFormatUTF8 = po_payloadFormatUTF8 po, msg_SubscriptionIdentifiers = [],
      msg_UserProperties = po_userProperties po\<rparr>"

lemma toMessage_props:
  "toMessage \<lparr>pub_Version = v, pub_Topic = topic, pub_Payload = payload, pub_QoS = qos, pub_Retain = retain,
     pub_Dup = False, pub_PacketID = ident, pub_Properties = buildPublishProps v po\<rparr> =
   deliveredMessage topic payload qos retain (if v = V50 then po else noPublishOptions)"
  by (auto simp: toMessage_def deliveredMessage_def buildPublishProps_def noPublishOptions_def Let_def
      emptyProperties_def)

text \<open>
  C16: What a publisher asks for is what a subscriber gets. For any options, a PUBLISH the client
  builds for a valid topic and manages to encode is read from the stream as one frame, decodes,
  and its message carries the topic, payload, QoS, retain flag and every option; on an MQTT 3.1.1
  link the options are dropped and nothing else.
\<close>

theorem publish_end_to_end:
  assumes "ValidateTopicName topic = Inr ()"
    and "PublishPacket_Encode \<lparr>pub_Version = v, pub_Topic = topic, pub_Payload = payload, pub_QoS = qos,
      pub_Retain = retain, pub_Dup = False, pub_PacketID = ident,
      pub_Properties = buildPublishProps v po\<rparr> [] = Inr bs"
    and "length bs \<le> unat maxPacketSize"
  shows "\<exists>f p. ReadFrame \<lparr>r_bytes = bs @ ys, r_err = e\<rparr> maxPacketSize = Inr (f, \<lparr>r_bytes = ys, r_err = e\<rparr>) \<and>
    ValidateFlags f = Inr () \<and> packetType (Header f) = Publish \<and>
    DecodePublish v (Header f) (Body f) = Inr p \<and>
    toMessage p = deliveredMessage topic payload qos retain (if v = V50 then po else noPublishOptions)"
proof -
  let ?pkt = "\<lparr>pub_Version = v, pub_Topic = topic, pub_Payload = payload, pub_QoS = qos, pub_Retain = retain,
    pub_Dup = False, pub_PacketID = ident, pub_Properties = buildPublishProps v po\<rparr>"
  have "publishTopicOk ?pkt"
    using assms(1) by (auto simp: ValidateTopicName_iff stringOk_def publishTopicOk_def
        containsWildcard_def containsByte_def)
  from publish_frame[OF assms(2) this assms(3), of ys e] obtain f where
    f: "ReadFrame \<lparr>r_bytes = bs @ ys, r_err = e\<rparr> maxPacketSize = Inr (f, \<lparr>r_bytes = ys, r_err = e\<rparr>)"
      "ValidateFlags f = Inr ()" "packetType (Header f) = Publish"
      "DecodePublish v (Header f) (Body f) = Inr (canonPublish ?pkt)" by auto
  have "v \<noteq> V50 \<Longrightarrow> buildPublishProps v po = None" by (simp add: buildPublishProps_def)
  then have "canonPublish ?pkt = ?pkt\<lparr>pub_PacketID := if qos > 0 then ident else 0\<rparr>"
    by (simp add: canonPublish_def buildPublishProps_norm)
  then have "toMessage (canonPublish ?pkt) =
      deliveredMessage topic payload qos retain (if v = V50 then po else noPublishOptions)"
    using toMessage_props[of v topic payload qos retain "if qos > 0 then ident else 0" po] by simp
  with f show ?thesis by blast
qed

theorem publish_end_to_end_witness:
  "\<exists>bs f p. PublishPacket_Encode \<lparr>pub_Version = V50, pub_Topic = str ''a'', pub_Payload = [1], pub_QoS = 0,
      pub_Retain = False, pub_Dup = False, pub_PacketID = 0,
      pub_Properties = buildPublishProps V50 (WithContentType (str ''t'') noPublishOptions)\<rparr> [] = Inr bs \<and>
    ReadFrame \<lparr>r_bytes = bs, r_err = IoEOF\<rparr> 100 = Inr (f, \<lparr>r_bytes = [], r_err = IoEOF\<rparr>) \<and>
    DecodePublish V50 (Header f) (Body f) = Inr p \<and> msg_ContentType (toMessage p) = str ''t''"
proof -
  let ?bs = "[0x30, 0x09, 0x00, 0x01, 0x61, 0x04, 0x03, 0x00, 0x01, 0x74, 0x01] :: byte list"
  have "ValidateTopicName (str ''a'') = Inr ()" by code_simp
  moreover have enc: "PublishPacket_Encode \<lparr>pub_Version = V50, pub_Topic = str ''a'', pub_Payload = [1], pub_QoS = 0,
      pub_Retain = False, pub_Dup = False, pub_PacketID = 0,
      pub_Properties = buildPublishProps V50 (WithContentType (str ''t'') noPublishOptions)\<rparr> [] = Inr ?bs"
    by code_simp
  ultimately obtain f p where
    "ReadFrame \<lparr>r_bytes = ?bs @ [], r_err = IoEOF\<rparr> 100 = Inr (f, \<lparr>r_bytes = [], r_err = IoEOF\<rparr>)"
    "DecodePublish V50 (Header f) (Body f) = Inr p"
    "toMessage p = deliveredMessage (str ''a'') [1] 0 False (WithContentType (str ''t'') noPublishOptions)"
    using publish_end_to_end[of "str ''a''" V50 "[1]" 0 False 0 "WithContentType (str ''t'') noPublishOptions"
        ?bs 100 "[]" IoEOF] by auto
  then show ?thesis
    using enc by (intro exI[of _ ?bs] exI[of _ f] exI[of _ p])
      (simp add: deliveredMessage_def WithContentType_def)
qed

end
