(* ===== verification/Mqtt_Client.thy ===== *)
theory Mqtt_Client
  imports Mqtt_Options Mqtt_Control Mqtt_Store Mqtt_Quota
begin

text \<open>
  The client's state and the operations that do not read from the connection
  (\<^verbatim>\<open>adapter_tcp.go\<close>, \<^verbatim>\<open>publish.go\<close>): waiters, subscriptions, writing and tearing down a link, the
  send path, subscribing, and establishing a session. Links, result channels and handlers are
  numbers; a link's socket is the bytes written to it, and the outcome of each write is an input
  (\<^const>\<open>None\<close> for success, the number of bytes that got through for a failure). Every operation is
  the sequence of its critical sections.
\<close>

section \<open>State\<close>

record link =
  l_out :: "byte list"
  l_stopped :: bool
  l_graceful :: bool
  l_quotaGen :: uint64
  l_idGen :: uint64
  l_aliases :: "(uint16 \<times> gostring) list"
  l_outboundMax :: uint32
  l_inboundMax :: uint32
  l_pingInterval :: int
  l_outstandingPings :: int

record ackResult =
  ar_err :: "cerror option"
  ar_reason :: gostring
  ar_code :: ReasonCode

type_synonym ackClass = "8 word"

abbreviation ackClassPublish :: ackClass where "ackClassPublish \<equiv> 1"
abbreviation ackClassSuback :: ackClass where "ackClassSuback \<equiv> 2"
abbreviation ackClassUnsuback :: ackClass where "ackClassUnsuback \<equiv> 3"

definition ackClass_String :: "ackClass \<Rightarrow> string" where
  "ackClass_String a =
     (if a = ackClassPublish then ''publish-ack''
      else if a = ackClassSuback then ''suback''
      else if a = ackClassUnsuback then ''unsuback''
      else ''unknown'')"

record waiter =
  w_ch :: nat
  w_want :: ackClass

record subscription =
  sn_filter :: gostring
  sn_handler :: nat
  sn_options :: SubscribeOptions
  sn_token :: uint64
  sn_subID :: uint32

text \<open>
  \<open>c_chans\<close> holds the content of the buffered result channels and \<open>c_nextCh\<close> the next channel to
  be made; \<open>c_lostCh\<close> says whether the connection-lost channel holds its token; \<open>c_calls\<close> logs the
  handler calls. Links stay in \<open>c_links\<close> after they were replaced, as goroutines may still hold them.
\<close>

record TCPClient =
  c_cfg :: TCPConfig
  c_inboundMax :: uint32
  c_link :: "nat option"
  c_links :: "nat \<Rightarrow> link"
  c_nextLink :: nat
  c_ids :: idAllocator
  c_store :: memStore
  c_quota :: quota
  c_subs :: "subscription list"
  c_subSeq :: uint64
  c_waiters :: "(uint16 \<times> waiter) list"
  c_chans :: "nat \<Rightarrow> ackResult option"
  c_nextCh :: nat
  c_lostCh :: bool
  c_result :: "ConnectResult option"
  c_calls :: "(nat \<times> Message) list"

abbreviation c_version :: "TCPClient \<Rightarrow> Version" where
  "c_version c \<equiv> cfg_ProtocolVersion (c_cfg c)"

definition noLink :: link where
  "noLink = \<lparr>l_out = [], l_stopped = False, l_graceful = False, l_quotaGen = 0, l_idGen = 0, l_aliases = [],
     l_outboundMax = 0, l_inboundMax = 0, l_pingInterval = 0, l_outstandingPings = 0\<rparr>"

definition NewTCPClient :: "TCPConfig \<Rightarrow> TCPClient" where
  "NewTCPClient cfg =
     (let (cfg, inboundMax) = NewTCPClient_cfg cfg in
      \<lparr>c_cfg = cfg, c_inboundMax = inboundMax, c_link = None, c_links = (\<lambda>_. noLink), c_nextLink = 0,
       c_ids = newIdAllocator, c_store = newMemStore, c_quota = newQuota 0, c_subs = [], c_subSeq = 0,
       c_waiters = [], c_chans = (\<lambda>_. None), c_nextCh = 0, c_lostCh = False, c_result = None, c_calls = []\<rparr>)"

definition updLink :: "nat \<Rightarrow> (link \<Rightarrow> link) \<Rightarrow> TCPClient \<Rightarrow> TCPClient" where
  "updLink l f c = c\<lparr>c_links := (c_links c)(l := f (c_links c l))\<rparr>"

definition IsConnected :: "TCPClient \<Rightarrow> bool" where
  "IsConnected c \<longleftrightarrow> c_link c \<noteq> None"

definition isStopping :: "nat \<Rightarrow> TCPClient \<Rightarrow> bool" where
  "isStopping l c = l_stopped (c_links c l)"

section \<open>Waiters\<close>

definition registerWaiter :: "uint16 \<Rightarrow> ackClass \<Rightarrow> TCPClient \<Rightarrow> nat \<times> TCPClient" where
  "registerWaiter ident want c =
     (let ch = c_nextCh c in
      (ch, c\<lparr>c_nextCh := Suc ch, c_chans := (c_chans c)(ch := None),
             c_waiters := AList.update ident \<lparr>w_ch = ch, w_want = want\<rparr> (c_waiters c)\<rparr>))"

definition removeWaiter :: "uint16 \<Rightarrow> nat \<Rightarrow> TCPClient \<Rightarrow> TCPClient" where
  "removeWaiter ident ch c =
     (case map_of (c_waiters c) ident of
        Some w \<Rightarrow> if w_ch w = ch then c\<lparr>c_waiters := AList.delete ident (c_waiters c)\<rparr> else c
      | None \<Rightarrow> c)"

text \<open>A send on a channel with a buffer of one that does not block.\<close>

definition trySend :: "nat \<Rightarrow> ackResult \<Rightarrow> (nat \<Rightarrow> ackResult option) \<Rightarrow> nat \<Rightarrow> ackResult option" where
  "trySend ch res chans = (if chans ch = None then chans(ch := Some res) else chans)"

definition signalWaiter :: "uint16 \<Rightarrow> ackClass \<Rightarrow> ackResult \<Rightarrow> TCPClient \<Rightarrow> bool \<times> TCPClient" where
  "signalWaiter ident got res c =
     (case map_of (c_waiters c) ident of
        None \<Rightarrow> (False, c)
      | Some w \<Rightarrow>
          if w_want w \<noteq> got then (True, c)
          else (True, c\<lparr>c_waiters := AList.delete ident (c_waiters c),
                        c_chans := trySend (w_ch w) res (c_chans c)\<rparr>))"

definition lostResult :: ackResult where
  "lostResult = \<lparr>ar_err = Some ErrConnectionLost, ar_reason = [], ar_code = 0\<rparr>"

definition failAllWaiters :: "TCPClient \<Rightarrow> TCPClient" where
  "failAllWaiters c =
     c\<lparr>c_chans := fold (\<lambda>(_, w). trySend (w_ch w) lostResult) (c_waiters c) (c_chans c), c_waiters := []\<rparr>"

section \<open>Teardown and writing\<close>

definition teardownLink :: "nat \<Rightarrow> bool \<Rightarrow> TCPClient \<Rightarrow> TCPClient" where
  "teardownLink l graceful c =
     (if l_stopped (c_links c l) then c
      else
        let c = updLink l (l_stopped_update (\<lambda>_. True)) c in
        if c_link c \<noteq> Some l then c
        else
          let c = failAllWaiters c;
              c = c\<lparr>c_quota := quota_fail (c_quota c)\<rparr>;
              c = c\<lparr>c_link := None\<rparr>
          in if \<not> graceful then c\<lparr>c_lostCh := True\<rparr> else c)"

definition writeFrame ::
  "nat \<Rightarrow> (byte list \<Rightarrow> gerror + byte list) \<Rightarrow> nat option \<Rightarrow> TCPClient \<Rightarrow> cerror option \<times> TCPClient" where
  "writeFrame l encoder io c =
     (case encoder [] of
        Inl e \<Rightarrow> (Some (Wire e), c)
      | Inr bs \<Rightarrow>
          if l_outboundMax (c_links c l) \<noteq> 0 \<and> of_nat (length bs) > l_outboundMax (c_links c l)
          then (Some ErrPacketTooLarge, c)
          else
            (case io of
               None \<Rightarrow> (None, updLink l (l_out_update (\<lambda>out. out @ bs)) c)
             | Some n \<Rightarrow>
                 let c = updLink l (l_out_update (\<lambda>out. out @ take n bs)) c
                 in (Some Transport, teardownLink l (l_graceful (c_links c l)) c)))"

definition sendAckReason :: "nat \<Rightarrow> PacketType \<Rightarrow> uint16 \<Rightarrow> ReasonCode \<Rightarrow> nat option \<Rightarrow> TCPClient \<Rightarrow> TCPClient" where
  "sendAckReason l t ident reason io c =
     snd (writeFrame l (EncodeAck \<lparr>ack_Version = c_version c, ack_Type = t, ack_PacketID = ident,
       ack_ReasonCode = reason, ack_Properties = None\<rparr>) io c)"

definition sendAck :: "nat \<Rightarrow> PacketType \<Rightarrow> uint16 \<Rightarrow> nat option \<Rightarrow> TCPClient \<Rightarrow> TCPClient" where
  "sendAck l t ident = sendAckReason l t ident Success"

definition protocolError :: "nat \<Rightarrow> ReasonCode \<Rightarrow> nat option \<Rightarrow> TCPClient \<Rightarrow> TCPClient" where
  "protocolError l reason io c =
     (let c = (if c_version c = V50
               then snd (writeFrame l (DisconnectPacket_Encode \<lparr>dis_Version = c_version c,
                      dis_ReasonCode = reason, dis_Properties = None\<rparr>) io c)
               else c)
      in teardownLink l (l_graceful (c_links c l)) c)"

text \<open>\<^verbatim>\<open>Disconnect\<close> up to the wait for the loops.\<close>

definition TCPClient_Disconnect :: "nat option \<Rightarrow> TCPClient \<Rightarrow> TCPClient" where
  "TCPClient_Disconnect io c =
     (case c_link c of
        None \<Rightarrow> c
      | Some l \<Rightarrow>
          let c = updLink l (l_graceful_update (\<lambda>_. True)) c;
              c = snd (writeFrame l (DisconnectPacket_Encode \<lparr>dis_Version = c_version c,
                    dis_ReasonCode = NormalDisconnection, dis_Properties = None\<rparr>) io c)
          in teardownLink l True c)"

section \<open>Subscriptions\<close>

text \<open>The in-place update of the first entry for a filter, or the append.\<close>

fun setSubscription :: "subscription \<Rightarrow> subscription list \<Rightarrow> subscription list" where
  "setSubscription s [] = [s]"
| "setSubscription s (t # ts) =
     (if sn_filter t \<noteq> sn_filter s then t # setSubscription s ts
      else t\<lparr>sn_options := sn_options s, sn_handler := sn_handler s, sn_token := sn_token s,
             sn_subID := sn_subID s\<rparr> # ts)"

definition addSubscription ::
  "gostring \<Rightarrow> SubscribeOptions \<Rightarrow> nat \<Rightarrow> uint32 \<Rightarrow> TCPClient \<Rightarrow> uint64 \<times> TCPClient" where
  "addSubscription flt options handler subID c =
     (let c = c\<lparr>c_subSeq := c_subSeq c + 1\<rparr>;
          token = c_subSeq c
      in (token, c\<lparr>c_subs := setSubscription \<lparr>sn_filter = flt, sn_handler = handler,
            sn_options = options, sn_token = token, sn_subID = subID\<rparr> (c_subs c)\<rparr>))"

definition snapshotSubscription :: "gostring \<Rightarrow> TCPClient \<Rightarrow> subscription option" where
  "snapshotSubscription flt c = find (\<lambda>s. sn_filter s = flt) (c_subs c)"

text \<open>\<open>prev\<close> is the snapshot, with whether it existed.\<close>

fun restoreIn :: "gostring \<Rightarrow> subscription option \<Rightarrow> uint64 \<Rightarrow> subscription list \<Rightarrow> subscription list" where
  "restoreIn flt prev token [] = []"
| "restoreIn flt prev token (t # ts) =
     (if sn_filter t \<noteq> flt then t # restoreIn flt prev token ts
      else if sn_token t \<noteq> token then t # ts
      else
        (case prev of
           Some p \<Rightarrow> t\<lparr>sn_options := sn_options p, sn_handler := sn_handler p, sn_token := sn_token p\<rparr> # ts
         | None \<Rightarrow> ts))"

definition restoreSubscription :: "gostring \<Rightarrow> subscription option \<Rightarrow> uint64 \<Rightarrow> TCPClient \<Rightarrow> TCPClient" where
  "restoreSubscription flt prev token c = c\<lparr>c_subs := restoreIn flt prev token (c_subs c)\<rparr>"

fun removeIfCurrent :: "gostring \<Rightarrow> uint64 \<Rightarrow> subscription list \<Rightarrow> subscription list" where
  "removeIfCurrent flt token [] = []"
| "removeIfCurrent flt token (t # ts) =
     (if sn_filter t = flt then (if sn_token t \<noteq> token then t # ts else ts)
      else t # removeIfCurrent flt token ts)"

definition removeSubscriptionIfCurrent :: "gostring \<Rightarrow> uint64 \<Rightarrow> TCPClient \<Rightarrow> TCPClient" where
  "removeSubscriptionIfCurrent flt token c = c\<lparr>c_subs := removeIfCurrent flt token (c_subs c)\<rparr>"

section \<open>The send path\<close>

text \<open>
  \<^verbatim>\<open>publishAcked\<close> up to the wait: the permit, the identifier, the stored copy, the waiter, the write.
  It parks on an exhausted quota; then nothing else has happened (\<^const>\<open>acquire_try\<close> never returns
  \<^const>\<open>Trying\<close>).
\<close>

datatype sendResult = SendParked nat | SendFailed cerror | SendWaiting uint16 nat

definition storedPublish :: "uint16 \<Rightarrow> PublishPacket \<Rightarrow> StoredMessage" where
  "storedPublish ident pkt = \<lparr>sm_Publish = Some pkt, sm_Seq = 0, sm_ID = ident, sm_Kind = StoredPublish\<rparr>"

definition publishAcked_abort :: "uint16 \<Rightarrow> uint64 \<Rightarrow> uint64 \<Rightarrow> TCPClient \<Rightarrow> TCPClient" where
  "publishAcked_abort ident idGen quotaGen c =
     (if quota_generation (c_quota c) = quotaGen then
        let c = c\<lparr>c_store := memStore_Delete ident StoredPublish (c_store c)\<rparr>;
            c = c\<lparr>c_ids := ReleaseAt ident idGen (c_ids c)\<rparr>
        in c\<lparr>c_quota := releaseAt quotaGen (c_quota c)\<rparr>
      else c)"

definition publishAcked_send :: "nat \<Rightarrow> PublishPacket \<Rightarrow> nat option \<Rightarrow> TCPClient \<Rightarrow> sendResult \<times> TCPClient" where
  "publishAcked_send l pkt io c =
     (case acquire_try (c_quota c) of
        (Parked w, q) \<Rightarrow> (SendParked w, c\<lparr>c_quota := q\<rparr>)
      | (Trying, q) \<Rightarrow> (SendParked 0, c)
      | (Returned quotaGen (Some err), q) \<Rightarrow> (SendFailed err, c\<lparr>c_quota := q\<rparr>)
      | (Returned quotaGen None, q) \<Rightarrow>
          let c = c\<lparr>c_quota := q\<rparr>;
              ((ident, idGen, err), ids) = Acquire (c_ids c);
              c = c\<lparr>c_ids := ids\<rparr>
          in case err of
               Some e \<Rightarrow> (SendFailed e, c\<lparr>c_quota := releaseAt quotaGen (c_quota c)\<rparr>)
             | None \<Rightarrow>
                 let pkt = pkt\<lparr>pub_PacketID := ident\<rparr>;
                     c = c\<lparr>c_store := memStore_Save (storedPublish ident pkt) (c_store c)\<rparr>;
                     (ch, c) = registerWaiter ident ackClassPublish c;
                     (werr, c) = writeFrame l (PublishPacket_Encode pkt) io c
                 in case werr of
                      Some e \<Rightarrow>
                        let c = removeWaiter ident ch c
                        in (SendFailed e, publishAcked_abort ident idGen quotaGen c)
                    | None \<Rightarrow> (SendWaiting ident ch, c))"

text \<open>
  What ends \<^verbatim>\<open>waitAck\<close>: the result in the channel, the context, or the timer. The result is taken out
  of the channel.
\<close>

datatype ackWait = Delivered ackResult | CtxEnded cerror | TimedOut

definition waitAck :: "ackWait \<Rightarrow> cerror + ackResult" where
  "waitAck how =
     (case how of
        Delivered res \<Rightarrow> Inr res
      | CtxEnded e \<Rightarrow> Inl e
      | TimedOut \<Rightarrow> Inl ErrAckTimeout)"

definition publishAcked_finish :: "uint16 \<Rightarrow> nat \<Rightarrow> ackWait \<Rightarrow> TCPClient \<Rightarrow> cerror option \<times> TCPClient" where
  "publishAcked_finish ident ch how c =
     (case waitAck how of
        Inl err \<Rightarrow> (Some err, removeWaiter ident ch c)
      | Inr res \<Rightarrow>
          (case ar_err res of
             Some err \<Rightarrow> (Some err, c)
           | None \<Rightarrow>
               if IsError (ar_code res)
               then (Some (Rejected \<lparr>re_Packet = str ''PUBLISH'', re_Code = ar_code res, re_Reason = ar_reason res\<rparr>), c)
               else (None, c)))"

text \<open>\<^verbatim>\<open>Publish\<close>: the checks, then the QoS 0 write or the first half of the acknowledged path.\<close>

datatype publishResult = PublishDone "cerror option" | PublishSent sendResult

definition TCPClient_Publish ::
  "gostring \<Rightarrow> byte list \<Rightarrow> QoS \<Rightarrow> bool \<Rightarrow> PublishOption list \<Rightarrow> nat option \<Rightarrow> TCPClient \<Rightarrow> publishResult \<times> TCPClient" where
  "TCPClient_Publish topic payload qos retain opts io c =
     (case ValidateTopicName topic of
        Inl e \<Rightarrow> (PublishDone (Some (Wire e)), c)
      | Inr _ \<Rightarrow>
          if qos > QoS2 then (PublishDone (Some (Wire ErrProtocolViolation)), c)
          else
            let po = fold (\<lambda>o' po. o' po) opts noPublishOptions in
            case (if c_version c = V50 \<and> po_responseTopic po \<noteq> [] then ValidateTopicName (po_responseTopic po)
                  else Inr ()) of
              Inl e \<Rightarrow> (PublishDone (Some (Wire e)), c)
            | Inr _ \<Rightarrow>
                (case c_link c of
                   None \<Rightarrow> (PublishDone (Some ErrNotConnected), c)
                 | Some l \<Rightarrow>
                     if (case c_result c of Some res \<Rightarrow> qos > cr_MaximumQoS res | None \<Rightarrow> False)
                     then (PublishDone (Some (Wire ErrProtocolViolation)), c)
                     else if (case c_result c of Some res \<Rightarrow> retain \<and> \<not> cr_RetainAvailable res | None \<Rightarrow> False)
                     then (PublishDone (Some (Wire ErrProtocolViolation)), c)
                     else
                       let pkt = \<lparr>pub_Version = c_version c, pub_Topic = topic, pub_Payload = payload,
                                   pub_QoS = qos, pub_Retain = retain, pub_Dup = False, pub_PacketID = 0,
                                   pub_Properties = buildPublishProps (c_version c) po\<rparr> in
                       if qos = QoS0 then
                         let (err, c) = writeFrame l (PublishPacket_Encode pkt) io c in (PublishDone err, c)
                       else
                         let (r, c) = publishAcked_send l pkt io c in (PublishSent r, c)))"

section \<open>Subscribing\<close>

text \<open>\<^verbatim>\<open>requestAck\<close> in the same two halves; the second half always frees the identifier.\<close>

definition requestAck_send ::
  "nat \<Rightarrow> ackClass \<Rightarrow> (uint16 \<Rightarrow> byte list \<Rightarrow> gerror + byte list) \<Rightarrow> nat option \<Rightarrow> TCPClient \<Rightarrow>
     (cerror + uint16 \<times> uint64 \<times> nat) \<times> TCPClient" where
  "requestAck_send l want mk io c =
     (let ((ident, gen, err), ids) = Acquire (c_ids c);
          c = c\<lparr>c_ids := ids\<rparr>
      in case err of
           Some e \<Rightarrow> (Inl e, c)
         | None \<Rightarrow>
             let (ch, c) = registerWaiter ident want c;
                 (werr, c) = writeFrame l (mk ident) io c
             in case werr of
                  Some e \<Rightarrow>
                    let c = removeWaiter ident ch c
                    in (Inl e, c\<lparr>c_ids := ReleaseAt ident gen (c_ids c)\<rparr>)
                | None \<Rightarrow> (Inr (ident, gen, ch), c))"

definition requestAck_finish ::
  "gostring \<Rightarrow> uint16 \<Rightarrow> uint64 \<Rightarrow> nat \<Rightarrow> ackWait \<Rightarrow> TCPClient \<Rightarrow> (cerror + ackResult) \<times> TCPClient" where
  "requestAck_finish packet ident gen ch how c =
     (case waitAck how of
        Inl werr \<Rightarrow>
          let c = removeWaiter ident ch c
          in (Inl werr, c\<lparr>c_ids := ReleaseAt ident gen (c_ids c)\<rparr>)
      | Inr res \<Rightarrow>
          let c = c\<lparr>c_ids := ReleaseAt ident gen (c_ids c)\<rparr>
          in case ar_err res of
               Some e \<Rightarrow> (Inl e, c)
             | None \<Rightarrow>
                 if IsError (ar_code res)
                 then (Inl (Rejected \<lparr>re_Packet = packet, re_Code = ar_code res, re_Reason = ar_reason res\<rparr>), c)
                 else (Inr res, c))"

record subPending =
  spd_prev :: "subscription option"
  spd_token :: uint64
  spd_ident :: uint16
  spd_gen :: uint64
  spd_ch :: nat

definition subscribePacket ::
  "TCPClient \<Rightarrow> gostring \<Rightarrow> SubscribeOptions \<Rightarrow> uint32 \<Rightarrow> uint16 \<Rightarrow> SubscribePacket" where
  "subscribePacket c flt options subID ident =
     \<lparr>sp_Version = c_version c, sp_PacketID = ident,
      sp_Subscriptions = [\<lparr>sub_Filter = flt, sub_Options = options\<rparr>],
      sp_Properties = (if subID \<noteq> 0 then Some (emptyProperties\<lparr>SubscriptionIdentifiers := [subID]\<rparr>) else None)\<rparr>"

definition TCPClient_Subscribe_send ::
  "gostring \<Rightarrow> QoS \<Rightarrow> nat \<Rightarrow> SubscribeOption list \<Rightarrow> nat option \<Rightarrow> TCPClient \<Rightarrow> (cerror + subPending) \<times> TCPClient" where
  "TCPClient_Subscribe_send flt qos handler opts io c =
     (case ValidateTopicFilter flt of
        Inl e \<Rightarrow> (Inl (Wire e), c)
      | Inr _ \<Rightarrow>
          if qos > QoS2 then (Inl (Wire ErrProtocolViolation), c)
          else
            (case c_link c of
               None \<Rightarrow> (Inl ErrNotConnected, c)
             | Some l \<Rightarrow>
                 let so = fold (\<lambda>o' so. o' so) opts noSubscribeOptions;
                     options = \<lparr>so_QoS = qos, so_NoLocal = sopt_noLocal so,
                                so_RetainAsPublished = sopt_retainAsPublished so,
                                so_RetainHandling = sopt_retainHandling so\<rparr> in
                 if sopt_subscriptionID so \<noteq> 0 \<and> sopt_subscriptionID so > maxSubscriptionID
                 then (Inl (Wire ErrProtocolViolation), c)
                 else if sopt_subscriptionID so \<noteq> 0 \<and> c_version c \<noteq> V50
                 then (Inl (Wire ErrProtocolViolation), c)
                 else
                   let prev = snapshotSubscription flt c;
                       (token, c) = addSubscription flt options handler (sopt_subscriptionID so) c;
                       (r, c) = requestAck_send l ackClassSuback
                         (\<lambda>ident. SubscribePacket_Encode
                            (subscribePacket c flt options (sopt_subscriptionID so) ident)) io c
                   in case r of
                        Inl err \<Rightarrow> (Inl err, restoreSubscription flt prev token c)
                      | Inr (ident, gen, ch) \<Rightarrow>
                          (Inr \<lparr>spd_prev = prev, spd_token = token, spd_ident = ident, spd_gen = gen,
                                spd_ch = ch\<rparr>, c)))"

definition TCPClient_Subscribe_finish ::
  "gostring \<Rightarrow> subPending \<Rightarrow> ackWait \<Rightarrow> TCPClient \<Rightarrow> (cerror + SubscribeResult) \<times> TCPClient" where
  "TCPClient_Subscribe_finish flt pd how c =
     (let (r, c) = requestAck_finish (str ''SUBSCRIBE'') (spd_ident pd) (spd_gen pd) (spd_ch pd) how c
      in case r of
           Inl err \<Rightarrow> (Inl err, restoreSubscription flt (spd_prev pd) (spd_token pd) c)
         | Inr res \<Rightarrow> (Inr \<lparr>sr_GrantedQoS = ar_code res, sr_ReasonCode = ar_code res\<rparr>, c))"

definition TCPClient_Unsubscribe_send ::
  "gostring \<Rightarrow> nat option \<Rightarrow> TCPClient \<Rightarrow> (cerror + subPending) \<times> TCPClient" where
  "TCPClient_Unsubscribe_send flt io c =
     (case ValidateTopicFilter flt of
        Inl e \<Rightarrow> (Inl (Wire e), c)
      | Inr _ \<Rightarrow>
          (case c_link c of
             None \<Rightarrow> (Inl ErrNotConnected, c)
           | Some l \<Rightarrow>
               let snap = snapshotSubscription flt c;
                   (r, c) = requestAck_send l ackClassUnsuback
                     (\<lambda>ident. UnsubscribePacket_Encode \<lparr>up_Version = c_version c, up_PacketID = ident,
                        up_Filters = [flt], up_Properties = None\<rparr>) io c
               in case r of
                    Inl err \<Rightarrow> (Inl err, c)
                  | Inr (ident, gen, ch) \<Rightarrow>
                      (Inr \<lparr>spd_prev = snap, spd_token = (case snap of Some t \<Rightarrow> sn_token t | None \<Rightarrow> 0),
                            spd_ident = ident, spd_gen = gen, spd_ch = ch\<rparr>, c)))"

definition TCPClient_Unsubscribe_finish ::
  "gostring \<Rightarrow> subPending \<Rightarrow> ackWait \<Rightarrow> TCPClient \<Rightarrow> cerror option \<times> TCPClient" where
  "TCPClient_Unsubscribe_finish flt pd how c =
     (let (r, c) = requestAck_finish (str ''UNSUBSCRIBE'') (spd_ident pd) (spd_gen pd) (spd_ch pd) how c
      in case r of
           Inl err \<Rightarrow> (Some err, c)
         | Inr res \<Rightarrow>
             (None, case spd_prev pd of
                Some snap \<Rightarrow> removeSubscriptionIfCurrent flt (sn_token snap) c
              | None \<Rightarrow> c))"

section \<open>Establishing a session\<close>

definition inflightPermits :: "memStore \<Rightarrow> int" where
  "inflightPermits st =
     int (length (filter (\<lambda>m. sm_Kind m = StoredPublish \<or> sm_Kind m = StoredPubrel) (memStore_All st)))"

definition applySession :: "ConnectResult \<Rightarrow> TCPClient \<Rightarrow> TCPClient" where
  "applySession result c =
     (let reset = (cfg_CleanStart (c_cfg c) \<or>
            (c_version c = V50 \<and> cfg_SessionExpirySeconds (c_cfg c) = 0) \<or> \<not> cr_SessionPresent result);
          c = (if reset then c\<lparr>c_store := memStore_Reset (c_store c), c_ids := idAllocator_Reset (c_ids c)\<rparr> else c);
          size = max (quotaSize (c_cfg c) result - inflightPermits (c_store c)) 0
      in c\<lparr>c_quota := quota_reset size (c_quota c)\<rparr>)"

text \<open>The packets a stored entry is replayed as; the list of writes consumes one outcome each.\<close>

definition replayEncoder :: "Version \<Rightarrow> StoredMessage \<Rightarrow> (byte list \<Rightarrow> gerror + byte list) option" where
  "replayEncoder v m =
     (if sm_Kind m = StoredPublish then map_option (\<lambda>p. PublishPacket_Encode (p\<lparr>pub_Dup := True\<rparr>)) (sm_Publish m)
      else if sm_Kind m = StoredPubrel then
        Some (EncodeAck \<lparr>ack_Version = v, ack_Type = Pubrel, ack_PacketID = sm_ID m, ack_ReasonCode = 0,
          ack_Properties = None\<rparr>)
      else None)"

fun replayMessages :: "nat \<Rightarrow> StoredMessage list \<Rightarrow> nat option list \<Rightarrow> TCPClient \<Rightarrow> nat option list \<times> TCPClient" where
  "replayMessages l [] ios c = (ios, c)"
| "replayMessages l (m # ms) ios c =
     (case replayEncoder (c_version c) m of
        None \<Rightarrow> replayMessages l ms ios c
      | Some encoder \<Rightarrow>
          let io = (case ios of [] \<Rightarrow> None | x # _ \<Rightarrow> x);
              c = snd (writeFrame l encoder io c)
          in replayMessages l ms (drop 1 ios) c)"

definition replaySession :: "nat \<Rightarrow> nat option list \<Rightarrow> TCPClient \<Rightarrow> nat option list \<times> TCPClient" where
  "replaySession l ios c = replayMessages l (memStore_All (c_store c)) ios c"

text \<open>
  \<^verbatim>\<open>replaySubscriptions\<close>, with the identifier, generation and channel of each \<^verbatim>\<open>awaitResubscribe\<close> it
  starts.
\<close>

fun resubscribe ::
  "nat \<Rightarrow> subscription list \<Rightarrow> nat option list \<Rightarrow> TCPClient \<Rightarrow> (uint16 \<times> uint64 \<times> nat) list \<times> TCPClient" where
  "resubscribe l [] ios c = ([], c)"
| "resubscribe l (s # ss) ios c =
     (let ((ident, gen, err), ids) = Acquire (c_ids c);
          c = c\<lparr>c_ids := ids\<rparr>
      in case err of
           Some e \<Rightarrow> resubscribe l ss ios c
         | None \<Rightarrow>
             let (ch, c) = registerWaiter ident ackClassSuback c;
                 io = (case ios of [] \<Rightarrow> None | x # _ \<Rightarrow> x);
                 (werr, c) = writeFrame l (SubscribePacket_Encode
                   (subscribePacket c (sn_filter s) (sn_options s) (sn_subID s) ident)) io c
             in case werr of
                  Some e \<Rightarrow>
                    let c = removeWaiter ident ch c
                    in resubscribe l ss (drop 1 ios) (c\<lparr>c_ids := ReleaseAt ident gen (c_ids c)\<rparr>)
                | None \<Rightarrow>
                    let (ws, c) = resubscribe l ss (drop 1 ios) c in ((ident, gen, ch) # ws, c))"

definition replaySubscriptions ::
  "nat \<Rightarrow> nat option list \<Rightarrow> TCPClient \<Rightarrow> (uint16 \<times> uint64 \<times> nat) list \<times> TCPClient" where
  "replaySubscriptions l ios c = resubscribe l (c_subs c) ios c"

text \<open>\<^verbatim>\<open>awaitResubscribe\<close>: the SUBACK arrived, or (\<^const>\<open>None\<close>) the link stopped.\<close>

definition awaitResubscribe :: "uint16 \<Rightarrow> uint64 \<Rightarrow> nat \<Rightarrow> ackResult option \<Rightarrow> TCPClient \<Rightarrow> TCPClient" where
  "awaitResubscribe ident gen ch res c =
     (case res of
        None \<Rightarrow>
          let c = removeWaiter ident ch c
          in c\<lparr>c_ids := ReleaseAt ident gen (c_ids c)\<rparr>
      | Some r \<Rightarrow> c\<lparr>c_ids := ReleaseAt ident gen (c_ids c)\<rparr>)"

text \<open>
  What \<^verbatim>\<open>Connect\<close> meets: the errors of parsing the URL, of dialling and of flushing the CONNECT, the
  bytes the broker sends, the cause of a context that ended meanwhile, whether it ended before the
  session was established, and the outcomes of the replay writes.
\<close>

record connectEnv =
  ce_url :: "cerror option"
  ce_dial :: "cerror option"
  ce_flush :: "cerror option"
  ce_reader :: reader
  ce_ctx :: "cerror option"
  ce_aborted :: "cerror option"
  ce_ios :: "nat option list"

definition refuseConnack :: "Version \<Rightarrow> byte list \<Rightarrow> byte list" where
  "refuseConnack v out =
     (if v = V50 then
        (case DisconnectPacket_Encode \<lparr>dis_Version = v, dis_ReasonCode = ProtocolErrorReason, dis_Properties = None\<rparr> out of
           Inr out' \<Rightarrow> out'
         | Inl _ \<Rightarrow> out)
      else out)"

definition willCheck :: "TCPConfig \<Rightarrow> gerror + unit" where
  "willCheck cfg =
     (case cfg_Will cfg of
        None \<Rightarrow> Inr ()
      | Some w \<Rightarrow>
          andthen (ValidateTopicName (cw_Topic w)) (\<lambda>_.
          if cfg_ProtocolVersion cfg = V50 \<and> cw_ResponseTopic w \<noteq> []
          then ValidateTopicName (cw_ResponseTopic w) else Inr ()))"

text \<open>
  The handshake: the bytes sent, and the CONNACK that was accepted (with the rest of the stream)
  or the error.
\<close>

definition handshake :: "TCPConfig \<Rightarrow> uint32 \<Rightarrow> connectEnv \<Rightarrow> byte list \<times> (cerror + ConnackPacket \<times> reader)" where
  "handshake cfg inboundMax env =
     (let v = cfg_ProtocolVersion cfg in
      case ConnectPacket_Encode (buildConnectPacket cfg inboundMax) [] of
        Inl e \<Rightarrow> ([], Inl (Wire e))
      | Inr out \<Rightarrow>
          (case ce_flush env of
             Some e \<Rightarrow> (out, Inl (connectAbortCause (ce_ctx env) e))
           | None \<Rightarrow>
               (case ReadFrame (ce_reader env) inboundMax of
                  Inl e \<Rightarrow> (out, Inl (connectAbortCause (ce_ctx env) (Wire e)))
                | Inr (frame, r) \<Rightarrow>
                    if packetType (Header frame) \<noteq> Connack then (out, Inl Unspecific)
                    else
                      (case DecodeConnack v (Body frame) of
                         Inl e \<Rightarrow> (out, Inl (Wire e))
                       | Inr ack \<Rightarrow>
                           if IsError (ca_ReasonCode ack) then
                             (out, Inl (Rejected \<lparr>re_Packet = str ''CONNECT'', re_Code = ca_ReasonCode ack,
                                re_Reason = reasonStringOf (ca_Properties ack)\<rparr>))
                           else
                             (case validateConnackLimits v ack of
                                Inl e \<Rightarrow> (refuseConnack v out, Inl (Wire e))
                              | Inr _ \<Rightarrow>
                                  if cfg_CleanStart cfg \<and> ca_SessionPresent ack
                                  then (refuseConnack v out, Inl (Wire ErrProtocolViolation))
                                  else (case ce_aborted env of
                                      Some e \<Rightarrow> (out, Inl e)
                                    | None \<Rightarrow> (out, Inr (ack, r))))))))"

definition newLink :: "TCPClient \<Rightarrow> byte list \<Rightarrow> ConnectResult \<Rightarrow> link" where
  "newLink c out result =
     noLink\<lparr>l_out := out, l_outboundMax := cr_MaximumPacketSize result, l_inboundMax := c_inboundMax c,
       l_pingInterval := effectivePingInterval (c_cfg c) 0 result\<rparr>"

definition establish :: "byte list \<Rightarrow> ConnectResult \<Rightarrow> nat option list \<Rightarrow> TCPClient \<Rightarrow>
    (cerror option \<times> (uint16 \<times> uint64 \<times> nat) list) \<times> TCPClient" where
  "establish out result ios c =
     (let l = c_nextLink c;
          c = c\<lparr>c_nextLink := Suc l\<rparr>;
          c = updLink l (\<lambda>_. newLink c out result) c;
          c = applySession result c;
          c = updLink l (\<lambda>k. k\<lparr>l_quotaGen := quota_generation (c_quota c),
                l_idGen := idAllocator_generation (c_ids c)\<rparr>) c;
          (ios, c) = replaySession l ios c;
          (ws, c) = replaySubscriptions l ios c
      in if isStopping l c then ((Some ErrConnectionLost, ws), c)
         else ((None, ws), c\<lparr>c_result := Some result, c_link := Some l\<rparr>))"

definition TCPClient_Connect ::
  "connectEnv \<Rightarrow> TCPClient \<Rightarrow> (cerror option \<times> (uint16 \<times> uint64 \<times> nat) list) \<times> TCPClient" where
  "TCPClient_Connect env c =
     (if c_link c \<noteq> None then ((Some ErrAlreadyConnected, []), c)
      else case ce_url env of
        Some e \<Rightarrow> ((Some e, []), c)
      | None \<Rightarrow>
          (case willCheck (c_cfg c) of
             Inl e \<Rightarrow> ((Some (Wire e), []), c)
           | Inr _ \<Rightarrow>
               (case ce_dial env of
                  Some e \<Rightarrow> ((Some e, []), c)
                | None \<Rightarrow>
                    (case handshake (c_cfg c) (c_inboundMax c) env of
                       (out, Inl e) \<Rightarrow> ((Some e, []), c)
                     | (out, Inr (ack, r)) \<Rightarrow> establish out (buildConnectResult ack) (ce_ios env) c))))"

end
