(* ===== verification/Mqtt_Pump.thy ===== *)
theory Mqtt_Pump
  imports Mqtt_Client
begin

text \<open>
  The read and keep-alive loops (\<^verbatim>\<open>pump.go\<close>). Message handlers are the application's code: a call is
  logged, and what happens to the client while handlers run or while the loop waits for the next
  frame (other goroutines included) is an input, a function on the client's state.
\<close>

abbreviation pingTimeoutThreshold :: int where "pingTimeoutThreshold \<equiv> 2"

text \<open>The environment of one frame: what happens before it is handled, during its handlers, and the outcome of the reply's write.\<close>

record frameEnv =
  fe_before :: "TCPClient \<Rightarrow> TCPClient"
  fe_during :: "TCPClient \<Rightarrow> TCPClient"
  fe_io :: "nat option"

section \<open>Dispatch\<close>

definition containsID :: "uint32 list \<Rightarrow> uint32 \<Rightarrow> bool" where
  "containsID ids ident \<longleftrightarrow> ident \<in> set ids"

definition matchingHandlers :: "subscription list \<Rightarrow> Message \<Rightarrow> nat list" where
  "matchingHandlers subs msg =
     (let ids = msg_SubscriptionIdentifiers msg in
      if length ids > 0 then
        map sn_handler (filter (\<lambda>s. sn_subID s \<noteq> 0 \<and> containsID ids (sn_subID s)) subs)
      else
        map sn_handler (filter (\<lambda>s. \<not> sn_subID s \<noteq> 0 \<and> MatchTopic (sn_filter s) (msg_Topic msg)) subs))"

definition dispatch :: "Message \<Rightarrow> (TCPClient \<Rightarrow> TCPClient) \<Rightarrow> TCPClient \<Rightarrow> TCPClient" where
  "dispatch msg during c =
     (let handlers = matchingHandlers (c_subs c) msg;
          c = c\<lparr>c_calls := c_calls c @ map (\<lambda>h. (h, msg)) handlers\<rparr>
      in if handlers = [] then c else during c)"

section \<open>Inbound messages\<close>

text \<open>Topic aliases: the resolved topic, or \<^const>\<open>None\<close> for a violation.\<close>

definition resolveTopicAlias :: "nat \<Rightarrow> PublishPacket \<Rightarrow> TCPClient \<Rightarrow> gostring option \<times> TCPClient" where
  "resolveTopicAlias l pub c =
     (case (case pub_Properties pub of None \<Rightarrow> None | Some p \<Rightarrow> TopicAlias p) of
        None \<Rightarrow> (Some (pub_Topic pub), c)
      | Some a \<Rightarrow>
          if a = 0 \<or> a > cfg_TopicAliasMaximum (c_cfg c) then (None, c)
          else if pub_Topic pub = [] then (map_of (l_aliases (c_links c l)) a, c)
          else (Some (pub_Topic pub),
                updLink l (l_aliases_update (\<lambda>_. AList.update a (pub_Topic pub) (l_aliases (c_links c l)))) c))"

text \<open>\<^verbatim>\<open>memStore\<close> implements \<^verbatim>\<open>containsStore\<close>.\<close>

definition storeContains :: "uint16 \<Rightarrow> StoredKind \<Rightarrow> TCPClient \<Rightarrow> bool" where
  "storeContains ident kind c = memStore_Contains ident kind (c_store c)"

definition idOnly :: "uint16 \<Rightarrow> StoredKind \<Rightarrow> StoredMessage" where
  "idOnly ident kind = \<lparr>sm_Publish = None, sm_Seq = 0, sm_ID = ident, sm_Kind = kind\<rparr>"

definition handleInboundQoS2 :: "nat \<Rightarrow> PublishPacket \<Rightarrow> frameEnv \<Rightarrow> TCPClient \<Rightarrow> bool \<times> TCPClient" where
  "handleInboundQoS2 l pub env c =
     (if storeContains (pub_PacketID pub) StoredInboundID c
      then (True, sendAck l Pubrec (pub_PacketID pub) (fe_io env) c)
      else
        let c = dispatch (toMessage pub) (fe_during env) c in
        if isStopping l c then (False, c)
        else
          let c = c\<lparr>c_store := memStore_Save (idOnly (pub_PacketID pub) StoredInboundID) (c_store c)\<rparr>
          in (True, sendAck l Pubrec (pub_PacketID pub) (fe_io env) c))"

definition handlePublish :: "nat \<Rightarrow> Frame \<Rightarrow> frameEnv \<Rightarrow> TCPClient \<Rightarrow> bool \<times> TCPClient" where
  "handlePublish l frame env c =
     (case DecodePublish (c_version c) (Header frame) (Body frame) of
        Inl e \<Rightarrow> (False, protocolError l MalformedPacketReason (fe_io env) c)
      | Inr pub \<Rightarrow>
          (case resolveTopicAlias l pub c of
             (None, c) \<Rightarrow> (False, protocolError l TopicAliasInvalid (fe_io env) c)
           | (Some topic, c) \<Rightarrow>
               let pub = pub\<lparr>pub_Topic := topic\<rparr> in
               if pub_QoS pub = 0 then (True, dispatch (toMessage pub) (fe_during env) c)
               else if pub_QoS pub = 1 then
                 let c = dispatch (toMessage pub) (fe_during env) c in
                 if isStopping l c then (False, c)
                 else (True, sendAck l Puback (pub_PacketID pub) (fe_io env) c)
               else if pub_QoS pub = 2 then handleInboundQoS2 l pub env c
               else (True, c)))"

definition handleInboundPubrel :: "nat \<Rightarrow> Frame \<Rightarrow> nat option \<Rightarrow> TCPClient \<Rightarrow> bool \<times> TCPClient" where
  "handleInboundPubrel l frame io c =
     (case DecodeAck (c_version c) Pubrel (Body frame) of
        Inl e \<Rightarrow> (False, protocolError l MalformedPacketReason io c)
      | Inr ack \<Rightarrow>
          if \<not> storeContains (ack_PacketID ack) StoredInboundID c
          then (True, sendAckReason l Pubcomp (ack_PacketID ack) PacketIdentifierNotFound io c)
          else
            let c = c\<lparr>c_store := memStore_Delete (ack_PacketID ack) StoredInboundID (c_store c)\<rparr>
            in (True, sendAck l Pubcomp (ack_PacketID ack) io c))"

section \<open>Acknowledgements of outbound messages\<close>

definition releaseExchange :: "nat \<Rightarrow> uint16 \<Rightarrow> StoredKind \<Rightarrow> TCPClient \<Rightarrow> TCPClient" where
  "releaseExchange l ident kind c =
     (let c = c\<lparr>c_store := memStore_Delete ident kind (c_store c)\<rparr>;
          c = c\<lparr>c_ids := ReleaseAt ident (l_idGen (c_links c l)) (c_ids c)\<rparr>
      in c\<lparr>c_quota := releaseAt (l_quotaGen (c_links c l)) (c_quota c)\<rparr>)"

definition completeOutbound :: "nat \<Rightarrow> uint16 \<Rightarrow> StoredKind \<Rightarrow> ackResult \<Rightarrow> TCPClient \<Rightarrow> TCPClient" where
  "completeOutbound l ident kind res c =
     (if \<not> storeContains ident kind c then c
      else snd (signalWaiter ident ackClassPublish res (releaseExchange l ident kind c)))"

definition handlePubrec :: "nat \<Rightarrow> AckPacket \<Rightarrow> gostring \<Rightarrow> nat option \<Rightarrow> TCPClient \<Rightarrow> TCPClient" where
  "handlePubrec l ack reason io c =
     (let ident = ack_PacketID ack in
      if storeContains ident StoredPublish c then
        (if IsError (ack_ReasonCode ack) then
           snd (signalWaiter ident ackClassPublish
             \<lparr>ar_err = None, ar_reason = reason, ar_code = ack_ReasonCode ack\<rparr>
             (releaseExchange l ident StoredPublish c))
         else
           let c = c\<lparr>c_store := memStore_Save (idOnly ident StoredPubrel) (c_store c)\<rparr>;
               c = c\<lparr>c_store := memStore_Delete ident StoredPublish (c_store c)\<rparr>
           in sendAck l Pubrel ident io c)
      else if storeContains ident StoredPubrel c then sendAck l Pubrel ident io c
      else sendAckReason l Pubrel ident PacketIdentifierNotFound io c)"

definition handleAck :: "nat \<Rightarrow> Frame \<Rightarrow> PacketType \<Rightarrow> nat option \<Rightarrow> TCPClient \<Rightarrow> bool \<times> TCPClient" where
  "handleAck l frame t io c =
     (case DecodeAck (c_version c) t (Body frame) of
        Inl e \<Rightarrow> (False, protocolError l MalformedPacketReason io c)
      | Inr ack \<Rightarrow>
          let reason = reasonStringOf (ack_Properties ack);
              res = \<lparr>ar_err = None, ar_reason = reason, ar_code = ack_ReasonCode ack\<rparr> in
          if t = Puback then (True, completeOutbound l (ack_PacketID ack) StoredPublish res c)
          else if t = Pubcomp then (True, completeOutbound l (ack_PacketID ack) StoredPubrel res c)
          else if t = Pubrec then (True, handlePubrec l ack reason io c)
          else (True, c))"

definition handleSuback :: "nat \<Rightarrow> Frame \<Rightarrow> nat option \<Rightarrow> TCPClient \<Rightarrow> bool \<times> TCPClient" where
  "handleSuback l frame io c =
     (case DecodeSuback (c_version c) (Body frame) of
        Inl e \<Rightarrow> (False, protocolError l MalformedPacketReason io c)
      | Inr sp \<Rightarrow>
          let res = \<lparr>ar_err = None, ar_reason = reasonStringOf (sa_Properties sp),
                     ar_code = (case sa_ReasonCodes sp of [] \<Rightarrow> 0 | rc # _ \<Rightarrow> rc)\<rparr>
          in (True, snd (signalWaiter (sa_PacketID sp) ackClassSuback res c)))"

definition handleUnsuback :: "nat \<Rightarrow> Frame \<Rightarrow> nat option \<Rightarrow> TCPClient \<Rightarrow> bool \<times> TCPClient" where
  "handleUnsuback l frame io c =
     (case DecodeUnsuback (c_version c) (Body frame) of
        Inl e \<Rightarrow> (False, protocolError l MalformedPacketReason io c)
      | Inr up \<Rightarrow>
          let res = \<lparr>ar_err = None, ar_reason = reasonStringOf (ua_Properties up),
                     ar_code = (case ua_ReasonCodes up of [] \<Rightarrow> 0 | rc # _ \<Rightarrow> rc)\<rparr>
          in (True, snd (signalWaiter (ua_PacketID up) ackClassUnsuback res c)))"

text \<open>The reason code of the broker's DISCONNECT only goes to the log.\<close>

definition handleServerDisconnect :: "nat \<Rightarrow> TCPClient \<Rightarrow> TCPClient" where
  "handleServerDisconnect l c = teardownLink l (l_graceful (c_links c l)) c"

section \<open>The loops\<close>

definition handleFrame :: "nat \<Rightarrow> Frame \<Rightarrow> frameEnv \<Rightarrow> TCPClient \<Rightarrow> bool \<times> TCPClient" where
  "handleFrame l frame env c =
     (let t = packetType (Header frame) in
      if t = Publish then handlePublish l frame env c
      else if t = Puback then handleAck l frame Puback (fe_io env) c
      else if t = Pubrec then handleAck l frame Pubrec (fe_io env) c
      else if t = Pubrel then handleInboundPubrel l frame (fe_io env) c
      else if t = Pubcomp then handleAck l frame Pubcomp (fe_io env) c
      else if t = Suback then handleSuback l frame (fe_io env) c
      else if t = Unsuback then handleUnsuback l frame (fe_io env) c
      else if t = Pingresp then (True, updLink l (l_outstandingPings_update (\<lambda>_. 0)) c)
      else if t = Disconnect then (False, handleServerDisconnect l c)
      else if t = Auth then (False, protocolError l ProtocolErrorReason (fe_io env) c)
      else (False, protocolError l ProtocolErrorReason (fe_io env) c))"

lemma ReadFrame_shorter:
  "ReadFrame r m = Inr (frame, r') \<Longrightarrow> length (r_bytes r') < length (r_bytes r)"
  by (cases r) (auto elim!: ReadFrame_dec)

text \<open>The loop over the bytes the peer sends; the \<open>k\<close>-th frame has the environment \<open>env k\<close>.\<close>

function readLoop :: "nat \<Rightarrow> reader \<Rightarrow> (nat \<Rightarrow> frameEnv) \<Rightarrow> nat \<Rightarrow> TCPClient \<Rightarrow> TCPClient" where
  "readLoop l r env k c =
     (let c = fe_before (env k) c in
      case ReadFrame r (l_inboundMax (c_links c l)) of
        Inl e \<Rightarrow> teardownLink l (l_graceful (c_links c l)) c
      | Inr (frame, r') \<Rightarrow>
          if isStopping l c then c
          else
            (case ValidateFlags frame of
               Inl e \<Rightarrow> protocolError l MalformedPacketReason (fe_io (env k)) c
             | Inr _ \<Rightarrow>
                 (case handleFrame l frame (env k) c of
                    (False, c) \<Rightarrow> c
                  | (True, c) \<Rightarrow> readLoop l r' env (Suc k) c)))"
  by pat_completeness auto
termination readLoop
  by (relation "measure (\<lambda>(_, r, _). length (r_bytes r))") (auto dest: ReadFrame_shorter)

declare readLoop.simps [simp del]

text \<open>One tick of the keep-alive loop, which ends when it returns false.\<close>

definition keepAlive_tick :: "nat \<Rightarrow> nat option \<Rightarrow> TCPClient \<Rightarrow> bool \<times> TCPClient" where
  "keepAlive_tick l io c =
     (if l_outstandingPings (c_links c l) \<ge> pingTimeoutThreshold
      then (False, teardownLink l (l_graceful (c_links c l)) c)
      else
        let c = updLink l (l_outstandingPings_update (\<lambda>n. n + 1)) c;
            (err, c) = writeFrame l EncodePingReq io c
        in case err of
             Some e \<Rightarrow> (False, teardownLink l (l_graceful (c_links c l)) c)
           | None \<Rightarrow> (True, c))"

section \<open>What the operations leave alone\<close>

lemma updLink_simps [simp]:
  "c_store (updLink l f c) = c_store c" "c_ids (updLink l f c) = c_ids c" "c_cfg (updLink l f c) = c_cfg c"
  "c_quota (updLink l f c) = c_quota c" "c_subs (updLink l f c) = c_subs c" "c_calls (updLink l f c) = c_calls c"
  "c_link (updLink l f c) = c_link c" "c_waiters (updLink l f c) = c_waiters c" "c_chans (updLink l f c) = c_chans c"
  "c_links (updLink l f c) = (c_links c)(l := f (c_links c l))"
  by (simp_all add: updLink_def)

lemma failAllWaiters_simps [simp]:
  "c_store (failAllWaiters c) = c_store c" "c_ids (failAllWaiters c) = c_ids c" "c_cfg (failAllWaiters c) = c_cfg c"
  "c_quota (failAllWaiters c) = c_quota c" "c_subs (failAllWaiters c) = c_subs c"
  "c_calls (failAllWaiters c) = c_calls c" "c_link (failAllWaiters c) = c_link c"
  "c_links (failAllWaiters c) = c_links c"
  by (simp_all add: failAllWaiters_def)

lemma teardownLink_simps [simp]:
  "c_store (teardownLink l g c) = c_store c" "c_ids (teardownLink l g c) = c_ids c"
  "c_cfg (teardownLink l g c) = c_cfg c" "c_subs (teardownLink l g c) = c_subs c"
  "c_calls (teardownLink l g c) = c_calls c" "l_stopped (c_links (teardownLink l g c) l)"
  by (simp_all add: teardownLink_def Let_def)

lemma writeFrame_simps [simp]:
  "c_store (snd (writeFrame l e io c)) = c_store c" "c_ids (snd (writeFrame l e io c)) = c_ids c"
  "c_cfg (snd (writeFrame l e io c)) = c_cfg c" "c_subs (snd (writeFrame l e io c)) = c_subs c"
  "c_calls (snd (writeFrame l e io c)) = c_calls c"
  by (simp_all add: writeFrame_def Let_def split: sum.split option.split)

lemma sendAck_simps [simp]:
  "c_store (sendAckReason l t i rc io c) = c_store c" "c_ids (sendAckReason l t i rc io c) = c_ids c"
  "c_cfg (sendAckReason l t i rc io c) = c_cfg c" "c_calls (sendAckReason l t i rc io c) = c_calls c"
  "c_store (sendAck l t i io c) = c_store c" "c_ids (sendAck l t i io c) = c_ids c"
  "c_cfg (sendAck l t i io c) = c_cfg c" "c_calls (sendAck l t i io c) = c_calls c"
  by (simp_all add: sendAckReason_def sendAck_def)

lemma protocolError_simps [simp]:
  "c_store (protocolError l rc io c) = c_store c" "c_ids (protocolError l rc io c) = c_ids c"
  "c_cfg (protocolError l rc io c) = c_cfg c" "c_calls (protocolError l rc io c) = c_calls c"
  "l_stopped (c_links (protocolError l rc io c) l)"
  by (simp_all add: protocolError_def Let_def)

lemma signalWaiter_simps [simp]:
  "c_store (snd (signalWaiter i k r c)) = c_store c" "c_ids (snd (signalWaiter i k r c)) = c_ids c"
  "c_cfg (snd (signalWaiter i k r c)) = c_cfg c" "c_calls (snd (signalWaiter i k r c)) = c_calls c"
  "c_quota (snd (signalWaiter i k r c)) = c_quota c" "c_link (snd (signalWaiter i k r c)) = c_link c"
  "c_links (snd (signalWaiter i k r c)) = c_links c"
  by (simp_all add: signalWaiter_def split: option.split)

section \<open>The read loop\<close>

lemma handleAck_stops: "handleAck l frame t io c = (False, c') \<Longrightarrow> l_stopped (c_links c' l)"
  by (auto simp: handleAck_def Let_def split: sum.splits if_splits)

lemma handleFrame_stops:
  assumes "handleFrame l frame env c = (False, c')"
  shows "l_stopped (c_links c' l)"
  using assms
  by (auto simp: handleFrame_def handlePublish_def handleInboundQoS2_def handleInboundPubrel_def
      handleSuback_def handleUnsuback_def handleServerDisconnect_def isStopping_def Let_def
      dest: handleAck_stops split: if_splits sum.splits prod.splits option.splits)

text \<open>
  C23: The read loop ends only with its link torn down. On every finite input, for every answer of
  the handlers, every concurrent activity and every outcome of its writes, the loop terminates and
  the link it served is stopped: no connection is left open without a reader.
\<close>

theorem readLoop_stops: "l_stopped (c_links (readLoop l r env k c) l)"
proof (induction l r env k c rule: readLoop.induct)
  case (1 l r env k c)
  let ?c = "fe_before (env k) c"
  show ?case
  proof (cases "ReadFrame r (l_inboundMax (c_links ?c l))")
    case (Inl e)
    then show ?thesis by (subst readLoop.simps) (simp add: Let_def)
  next
    case (Inr fr)
    obtain frame r' where fr: "fr = (frame, r')" by (cases fr)
    show ?thesis
    proof (cases "isStopping l ?c \<or> (\<exists>e. ValidateFlags frame = Inl e)")
      case True
      then show ?thesis using Inr fr
        by (subst readLoop.simps) (auto simp: Let_def isStopping_def split: sum.splits)
    next
      case False
      then obtain u where v: "ValidateFlags frame = Inr u" by (cases "ValidateFlags frame") auto
      obtain b c' where h: "handleFrame l frame (env k) ?c = (b, c')" by fastforce
      show ?thesis
      proof (cases b)
        case True
        then show ?thesis
          using 1[OF refl Inr fr[symmetric] _ v h[symmetric]] False Inr fr v h by (subst readLoop.simps) (simp add: Let_def)
      next
        case b: False
        then show ?thesis
          using handleFrame_stops[of l frame "env k" ?c c'] False Inr fr v h
          by (subst readLoop.simps) (simp add: Let_def)
      qed
    qed
  qed
qed

section \<open>Exactly-once delivery\<close>

lemma Contains_Save [simp]:
  "memStore_Contains i k (memStore_Save m s) \<longleftrightarrow> (i = sm_ID m \<and> k = sm_Kind m) \<or> memStore_Contains i k s"
  by (auto simp: memStore_Contains_def memStore_Save_def Let_def update_conv' split: option.splits)

lemma Contains_Delete [simp]:
  "memStore_Contains i k (memStore_Delete j k' s) \<longleftrightarrow> \<not> (i = j \<and> k = k') \<and> memStore_Contains i k s"
  by (auto simp: memStore_Contains_def memStore_Delete_def delete_conv' )

lemma idOnly_simps [simp]: "sm_ID (idOnly i k) = i" "sm_Kind (idOnly i k) = k"
  by (simp_all add: idOnly_def)

text \<open>The identifiers of inbound QoS 2 messages that were delivered and not yet released.\<close>

definition inboundIDs :: "TCPClient \<Rightarrow> uint16 set" where
  "inboundIDs c = {i. storeContains i StoredInboundID c}"

text \<open>What a frame means to the QoS 2 receiver.\<close>

datatype recvEvent = RecvPublish uint16 | RecvPubrel uint16 | RecvOther

definition recvEvent :: "Version \<Rightarrow> Frame \<Rightarrow> recvEvent" where
  "recvEvent v frame =
     (if packetType (Header frame) = Publish then
        (case DecodePublish v (Header frame) (Body frame) of
           Inr pub \<Rightarrow> if pub_QoS pub = 2 then RecvPublish (pub_PacketID pub) else RecvOther
         | Inl _ \<Rightarrow> RecvOther)
      else if packetType (Header frame) = Pubrel then
        (case DecodeAck v Pubrel (Body frame) of
           Inr ack \<Rightarrow> RecvPubrel (ack_PacketID ack)
         | Inl _ \<Rightarrow> RecvOther)
      else RecvOther)"

text \<open>The identifiers received and not released after a sequence of events.\<close>

fun unreleased :: "recvEvent list \<Rightarrow> uint16 set \<Rightarrow> uint16 set" where
  "unreleased [] D = D"
| "unreleased (RecvPublish i # es) D = unreleased es (insert i D)"
| "unreleased (RecvPubrel i # es) D = unreleased es (D - {i})"
| "unreleased (RecvOther # es) D = unreleased es D"

lemma unreleased_Cons: "unreleased (e # es) D = unreleased es (unreleased [e] D)"
  by (cases e) simp_all

text \<open>Concurrent activity that does not replace the session: the receiver's state stays.\<close>

definition keepsInbound :: "(TCPClient \<Rightarrow> TCPClient) \<Rightarrow> bool" where
  "keepsInbound f \<longleftrightarrow> (\<forall>c. inboundIDs (f c) = inboundIDs c \<and> c_cfg (f c) = c_cfg c)"

lemma inboundIDs_store: "c_store c = c_store c' \<Longrightarrow> inboundIDs c = inboundIDs c'"
  by (simp add: inboundIDs_def storeContains_def)

lemma dispatch_keeps:
  assumes "keepsInbound during"
  shows "inboundIDs (dispatch msg during c) = inboundIDs c" "c_cfg (dispatch msg during c) = c_cfg c"
  using assms by (simp_all add: dispatch_def keepsInbound_def inboundIDs_def storeContains_def Let_def)

lemma inbound_sends [simp]:
  "inboundIDs (sendAckReason l t i rc io c) = inboundIDs c" "inboundIDs (sendAck l t i io c) = inboundIDs c"
  "inboundIDs (protocolError l rc io c) = inboundIDs c" "inboundIDs (teardownLink l g c) = inboundIDs c"
  "inboundIDs (updLink l f c) = inboundIDs c" "inboundIDs (snd (signalWaiter i k r c)) = inboundIDs c"
  by (simp_all add: inboundIDs_def storeContains_def)

lemma inbound_save [simp]:
  "inboundIDs (c\<lparr>c_store := memStore_Save (idOnly i StoredInboundID) (c_store c)\<rparr>) = insert i (inboundIDs c)"
  by (auto simp: inboundIDs_def storeContains_def)

lemma inbound_delete [simp]:
  "inboundIDs (c\<lparr>c_store := memStore_Delete i StoredInboundID (c_store c)\<rparr>) = inboundIDs c - {i}"
  by (auto simp: inboundIDs_def storeContains_def)

lemma inbound_contains: "storeContains i StoredInboundID c \<longleftrightarrow> i \<in> inboundIDs c"
  by (simp add: inboundIDs_def)

lemma releaseExchange_simps [simp]:
  "c_store (releaseExchange l i k c) = memStore_Delete i k (c_store c)" "c_cfg (releaseExchange l i k c) = c_cfg c"
  "c_calls (releaseExchange l i k c) = c_calls c" "c_link (releaseExchange l i k c) = c_link c"
  "c_links (releaseExchange l i k c) = c_links c"
  "c_ids (releaseExchange l i k c) = ReleaseAt i (l_idGen (c_links c l)) (c_ids c)"
  "c_quota (releaseExchange l i k c) = releaseAt (l_quotaGen (c_links c l)) (c_quota c)"
  by (simp_all add: releaseExchange_def Let_def)

lemma handleAck_inbound:
  assumes "handleAck l frame t io c = (b, c')"
  shows "inboundIDs c' = inboundIDs c" "c_cfg c' = c_cfg c"
  using assms
  by (auto simp: handleAck_def completeOutbound_def handlePubrec_def Let_def inboundIDs_def storeContains_def
      split: sum.splits if_splits)

lemma handlePublish_inbound:
  assumes "handlePublish l frame env c = (True, c')" "keepsInbound (fe_during env)"
    "packetType (Header frame) = Publish"
  shows "inboundIDs c' = unreleased [recvEvent (c_version c) frame] (inboundIDs c)" "c_cfg c' = c_cfg c"
proof -
  from assms(1) obtain pub where pub: "DecodePublish (c_version c) (Header frame) (Body frame) = Inr pub"
    by (auto simp: handlePublish_def split: sum.splits)
  obtain t c1 where al: "resolveTopicAlias l pub c = (t, c1)" by fastforce
  then have c1: "c_store c1 = c_store c" "c_cfg c1 = c_cfg c"
    by (auto simp: resolveTopicAlias_def split: option.splits if_splits)
  have D1: "inboundIDs c1 = inboundIDs c" by (rule inboundIDs_store[OF c1(1)])
  from assms(1) pub al obtain topic where t: "t = Some topic"
    by (auto simp: handlePublish_def split: option.splits)
  note D = dispatch_keeps[OF assms(2)]
  have "inboundIDs c' = unreleased [recvEvent (c_version c) frame] (inboundIDs c) \<and> c_cfg c' = c_cfg c"
    using assms(1,3) pub al t D D1 c1(2)
    by (auto simp: handlePublish_def handleInboundQoS2_def recvEvent_def Let_def insert_absorb
        inbound_contains split: if_splits)
  then show "inboundIDs c' = unreleased [recvEvent (c_version c) frame] (inboundIDs c)" "c_cfg c' = c_cfg c"
    by simp_all
qed

lemma handleFrame_inbound:
  assumes "handleFrame l frame env c = (True, c')" "keepsInbound (fe_during env)"
  shows "inboundIDs c' = unreleased [recvEvent (c_version c) frame] (inboundIDs c) \<and> c_cfg c' = c_cfg c"
proof -
  consider (publish) "packetType (Header frame) = Publish" | (pubrel) "packetType (Header frame) = Pubrel"
    | (other) "packetType (Header frame) \<noteq> Publish" "packetType (Header frame) \<noteq> Pubrel" by blast
  then show ?thesis
  proof cases
    case publish
    then show ?thesis using assms handlePublish_inbound by (simp add: handleFrame_def Let_def)
  next
    case pubrel
    then show ?thesis using assms
      by (auto simp: handleFrame_def handleInboundPubrel_def recvEvent_def inbound_contains Let_def
          split: sum.splits if_splits)
  next
    case other
    then have "recvEvent (c_version c) frame = RecvOther" by (simp add: recvEvent_def)
    then show ?thesis using assms(1) other
      by (auto simp: handleFrame_def handleSuback_def handleUnsuback_def Let_def
          dest: handleAck_inbound split: if_splits sum.splits)
  qed
qed

text \<open>A sequence of frames, each followed by the next as long as the loop goes on.\<close>

fun handleFrames :: "nat \<Rightarrow> Frame list \<Rightarrow> (nat \<Rightarrow> frameEnv) \<Rightarrow> nat \<Rightarrow> TCPClient \<Rightarrow> TCPClient option" where
  "handleFrames l [] env k c = Some c"
| "handleFrames l (f # fs) env k c =
     (case handleFrame l f (env k) (fe_before (env k) c) of
        (True, c') \<Rightarrow> handleFrames l fs env (Suc k) c'
      | (False, _) \<Rightarrow> None)"

lemma handleFrames_inbound:
  assumes "handleFrames l fs env k c = Some c'"
    "\<And>k. keepsInbound (fe_before (env k))" "\<And>k. keepsInbound (fe_during (env k))"
  shows "inboundIDs c' = unreleased (map (recvEvent (c_version c)) fs) (inboundIDs c) \<and> c_cfg c' = c_cfg c"
  using assms(1)
proof (induction fs arbitrary: k c)
  case Nil
  then show ?case by simp
next
  case (Cons f fs)
  let ?c = "fe_before (env k) c"
  obtain b c1 where h: "handleFrame l f (env k) ?c = (b, c1)" by fastforce
  then have b: "b" and rest: "handleFrames l fs env (Suc k) c1 = Some c'"
    using Cons.prems by (auto split: bool.splits)
  have k: "inboundIDs ?c = inboundIDs c" "c_cfg ?c = c_cfg c" using assms(2) by (auto simp: keepsInbound_def)
  have "inboundIDs c1 = unreleased [recvEvent (c_version c) f] (inboundIDs c) \<and> c_cfg c1 = c_cfg c"
    using handleFrame_inbound[of l f "env k" ?c c1] h b assms(3) k by simp
  moreover have "unreleased (map (recvEvent (c_version c)) (f # fs)) (inboundIDs c) =
      unreleased (map (recvEvent (c_version c)) fs) (unreleased [recvEvent (c_version c) f] (inboundIDs c))"
    by (simp only: list.map) (rule unreleased_Cons)
  ultimately show ?case using Cons.IH[OF rest] by simp
qed

lemma handlePublish_qos2:
  assumes "handlePublish l frame env c = (True, c')"
    "DecodePublish (c_version c) (Header frame) (Body frame) = Inr pub" "pub_QoS pub = 2"
    "\<And>c. c_calls (fe_during env c) = c_calls c"
  obtains topic where "c_calls c' = (if pub_PacketID pub \<in> inboundIDs c then c_calls c
    else c_calls c @ map (\<lambda>h. (h, toMessage (pub\<lparr>pub_Topic := topic\<rparr>)))
      (matchingHandlers (c_subs c) (toMessage (pub\<lparr>pub_Topic := topic\<rparr>))))"
proof -
  obtain t c1 where al: "resolveTopicAlias l pub c = (t, c1)" by fastforce
  then have c1: "c_store c1 = c_store c" "c_calls c1 = c_calls c" "c_subs c1 = c_subs c"
    by (auto simp: resolveTopicAlias_def split: option.splits if_splits)
  then have D1: "inboundIDs c1 = inboundIDs c" by (intro inboundIDs_store)
  from assms(1,2) al obtain topic where t: "t = Some topic"
    by (auto simp: handlePublish_def split: option.splits)
  have "c_calls (dispatch msg (fe_during env) c1) =
      c_calls c @ map (\<lambda>h. (h, msg)) (matchingHandlers (c_subs c) msg)" for msg
    using assms(4) c1 by (simp add: dispatch_def Let_def)
  then have "c_calls c' = (if pub_PacketID pub \<in> inboundIDs c then c_calls c
    else c_calls c @ map (\<lambda>h. (h, toMessage (pub\<lparr>pub_Topic := topic\<rparr>)))
      (matchingHandlers (c_subs c) (toMessage (pub\<lparr>pub_Topic := topic\<rparr>))))"
    using assms(1-3) al t D1 c1(2)
    by (auto simp: handlePublish_def handleInboundQoS2_def inbound_contains Let_def split: if_splits)
  with that show ?thesis .
qed


definition quietEnv :: frameEnv where
  "quietEnv = \<lparr>fe_before = (\<lambda>c. c), fe_during = (\<lambda>c. c), fe_io = None\<rparr>"

lemma keepsInbound_quiet [simp]: "keepsInbound (fe_before quietEnv)" "keepsInbound (fe_during quietEnv)"
  by (simp_all add: quietEnv_def keepsInbound_def)

text \<open>A client with one subscription, and a QoS 2 PUBLISH that arrives twice.\<close>

definition exampleClient :: TCPClient where
  "exampleClient = (NewTCPClient exampleConfig)\<lparr>c_link := Some 0, c_nextLink := 1,
     c_subs := [\<lparr>sn_filter = str ''a'', sn_handler = 7, sn_options = \<lparr>so_QoS = 2, so_NoLocal = False,
       so_RetainAsPublished = False, so_RetainHandling = 0\<rparr>, sn_token = 1, sn_subID = 0\<rparr>]\<rparr>"

definition exampleFrame :: Frame where
  "exampleFrame = \<lparr>Header = 0x34, Body = [0x00, 0x01, 0x61, 0x00, 0x05, 0x00, 0x01]\<rparr>"

definition exampleHandled :: TCPClient where
  "exampleHandled = the (handleFrames 0 [exampleFrame] (\<lambda>_. quietEnv) 0 exampleClient)"


end
