(* ===== verification/Mqtt_Session.thy ===== *)
theory Mqtt_Session
  imports Mqtt_Pump
begin

text \<open>
  The client as a whole: publishes, subscriptions, frames, ticks and reconnects as the steps of one
  system, and what every run of it conserves. An outbound QoS 1 or 2 exchange is one unit of three
  things, a stored entry, a packet identifier and a permit of the send quota; the theory shows that
  no operation ever separates them.
\<close>

section \<open>The stored exchanges\<close>

definition outKeys :: "memStore \<Rightarrow> (uint16 \<times> StoredKind) set" where
  "outKeys st = {(i, k). memStore_Contains i k st \<and> k \<in> {StoredPublish, StoredPubrel}}"

definition store_wf :: "memStore \<Rightarrow> bool" where
  "store_wf st \<longleftrightarrow> distinct (map fst (ms_msgs st)) \<and> (\<forall>(k, m) \<in> set (ms_msgs st). k = keyOf m)"

lemma update_subset: "set (AList.update k v xs) \<subseteq> insert (k, v) (set xs)"
  by (induction xs) auto

lemma store_wf_Save: "store_wf st \<Longrightarrow> store_wf (memStore_Save m st)"
  using update_subset
  by (fastforce simp: store_wf_def memStore_Save_def Let_def keyOf_def distinct_update split: option.splits)

lemma store_wf_Delete: "store_wf st \<Longrightarrow> store_wf (memStore_Delete i k st)"
  by (auto simp: store_wf_def memStore_Delete_def AList.delete_eq intro: distinct_map_filter)

lemma store_wf_empty [simp]: "store_wf (memStore_Reset st)" "store_wf newMemStore"
  by (simp_all add: store_wf_def memStore_Reset_def newMemStore_def)

lemma outKeys_simps [simp]:
  "outKeys (memStore_Save m st) =
     (if sm_Kind m \<in> {StoredPublish, StoredPubrel} then insert (sm_ID m, sm_Kind m) (outKeys st) else outKeys st)"
  "outKeys (memStore_Delete i k st) = outKeys st - {(i, k)}"
  "outKeys (memStore_Reset st) = {}" "outKeys newMemStore = {}"
proof -
  have "\<not> memStore_Contains i k (memStore_Reset st)" "\<not> memStore_Contains i k newMemStore" for i k
    by (simp_all add: memStore_Contains_def memStore_Reset_def newMemStore_def)
  then show "outKeys (memStore_Reset st) = {}" "outKeys newMemStore = {}" by (simp_all add: outKeys_def)
qed (auto simp: outKeys_def)

lemma storeKey_inj: "inj_on (\<lambda>k :: storeKey. (key_id k, key_kind k)) K"
  by (auto intro!: inj_onI storeKey.equality)

lemma outKeys_image:
  "outKeys st = (\<lambda>k. (key_id k, key_kind k)) `
     {k. map_of (ms_msgs st) k \<noteq> None \<and> key_kind k \<in> {StoredPublish, StoredPubrel}}" (is "_ = ?f ` ?K")
proof (rule set_eqI)
  fix x :: "uint16 \<times> StoredKind"
  have "x = ?f k \<longleftrightarrow> \<lparr>key_id = fst x, key_kind = snd x\<rparr> = k" for k :: storeKey
    by (cases k; cases x) auto
  then have "x \<in> ?f ` ?K \<longleftrightarrow> \<lparr>key_id = fst x, key_kind = snd x\<rparr> \<in> ?K"
    unfolding image_iff Bex_def by simp
  then show "x \<in> outKeys st \<longleftrightarrow> x \<in> ?f ` ?K"
    by (cases x) (simp add: outKeys_def memStore_Contains_def)
qed

lemma outKeys_finite [simp]: "finite (outKeys st)"
  unfolding outKeys_image
  by (rule finite_imageI, rule finite_subset[OF _ finite_dom_map_of[of "ms_msgs st"]]) auto

text \<open>The count that seeds the quota is the number of stored exchanges.\<close>

lemma inflightPermits_card:
  assumes "store_wf st"
  shows "inflightPermits st = int (card (outKeys st))"
proof -
  define P where "P = (\<lambda>m :: StoredMessage. sm_Kind m = StoredPublish \<or> sm_Kind m = StoredPubrel)"
  let ?xs = "filter (P \<circ> snd) (ms_msgs st)"
  have "mset (filter P (memStore_All st)) = mset (filter P (map snd (ms_msgs st)))"
    by (simp add: memStore_All_def)
  then have "length (filter P (memStore_All st)) = length (filter P (map snd (ms_msgs st)))"
    by (rule mset_eq_length)
  also have "\<dots> = length (map fst ?xs)"
    by (simp add: filter_map)
  also have "\<dots> = card (set (map fst ?xs))"
    using assms by (simp only: distinct_card store_wf_def distinct_map_filter)
  also have "set (map fst ?xs) = {k. map_of (ms_msgs st) k \<noteq> None \<and> key_kind k \<in> {StoredPublish, StoredPubrel}}"
    using assms by (force simp: store_wf_def P_def keyOf_def map_of_eq_None_iff)
  also have "card \<dots> = card (outKeys st)"
    by (simp add: outKeys_image card_image storeKey_inj)
  finally show ?thesis by (simp add: inflightPermits_def P_def)
qed

text \<open>The scan \<^verbatim>\<open>storeContains\<close> falls back to agrees with the direct lookup.\<close>

fun scanContains :: "uint16 \<Rightarrow> StoredKind \<Rightarrow> StoredMessage list \<Rightarrow> bool" where
  "scanContains ident kind [] = False"
| "scanContains ident kind (m # msgs) =
     (if sm_ID m = ident \<and> sm_Kind m = kind then True else scanContains ident kind msgs)"

lemma scanContains_iff: "scanContains ident kind msgs \<longleftrightarrow> (\<exists>m \<in> set msgs. sm_ID m = ident \<and> sm_Kind m = kind)"
  by (induction msgs) auto

lemma storeContains_scan:
  assumes "store_wf (c_store c)"
  shows "storeContains ident kind c \<longleftrightarrow> scanContains ident kind (memStore_All (c_store c))"
proof -
  let ?k = "\<lparr>key_id = ident, key_kind = kind\<rparr>"
  have "storeContains ident kind c \<longleftrightarrow> ?k \<in> fst ` set (ms_msgs (c_store c))"
    by (simp add: storeContains_def memStore_Contains_def map_of_eq_None_iff)
  also have "\<dots> \<longleftrightarrow> (\<exists>(k, m) \<in> set (ms_msgs (c_store c)). keyOf m = ?k)"
    using assms by (force simp: store_wf_def)
  also have "\<dots> \<longleftrightarrow> scanContains ident kind (memStore_All (c_store c))"
    by (force simp: scanContains_iff memStore_All_def keyOf_def)
  finally show ?thesis .
qed

section \<open>Operations that keep the accounts\<close>

text \<open>
  What the accounts depend on: identifiers in use, stored exchanges, permits, generations. An
  operation keeps them if these stay the same and links only ever stop.
\<close>

definition accounts :: "TCPClient \<Rightarrow> uint16 set \<times> uint64 \<times> (uint16 \<times> StoredKind) set \<times> int \<times> uint64 \<times> nat" where
  "accounts c = (usedIDs (c_ids c), ia_gen (c_ids c), outKeys (c_store c), qu_avail (c_quota c),
     qu_gen (c_quota c), c_nextLink c)"

definition client_wf :: "TCPClient \<Rightarrow> bool" where
  "client_wf c \<longleftrightarrow> alloc_ok (c_ids c) \<and> store_wf (c_store c)"

definition linkGens :: "link \<Rightarrow> uint64 \<times> uint64" where
  "linkGens k = (l_quotaGen k, l_idGen k)"

definition linksShrink :: "TCPClient \<Rightarrow> TCPClient \<Rightarrow> bool" where
  "linksShrink c c' \<longleftrightarrow>
     (\<forall>l. \<not> l_stopped (c_links c' l) \<longrightarrow> \<not> l_stopped (c_links c l) \<and>
        linkGens (c_links c' l) = linkGens (c_links c l) \<and> (c_link c = Some l \<longrightarrow> c_link c' = Some l)) \<and>
     (c_link c' = c_link c \<or> c_link c' = None)"

definition keeps :: "TCPClient \<Rightarrow> TCPClient \<Rightarrow> bool" where
  "keeps c c' \<longleftrightarrow> accounts c' = accounts c \<and> (client_wf c \<longrightarrow> client_wf c') \<and> linksShrink c c'"

lemma keeps_refl [simp]: "keeps c c"
  by (simp add: keeps_def linksShrink_def)

lemma keeps_trans: "keeps a b \<Longrightarrow> keeps b c \<Longrightarrow> keeps a c"
  unfolding keeps_def linksShrink_def by (auto 0 4)

lemma keeps_client:
  "c_ids c' = c_ids c \<Longrightarrow> outKeys (c_store c') = outKeys (c_store c) \<Longrightarrow>
   (store_wf (c_store c) \<Longrightarrow> store_wf (c_store c')) \<Longrightarrow> qu_avail (c_quota c') = qu_avail (c_quota c) \<Longrightarrow>
   qu_gen (c_quota c') = qu_gen (c_quota c) \<Longrightarrow> c_nextLink c' = c_nextLink c \<Longrightarrow>
   c_links c' = c_links c \<Longrightarrow> c_link c' = c_link c \<Longrightarrow> keeps c c'"
  by (simp add: keeps_def accounts_def client_wf_def linksShrink_def)

lemma keeps_updLink:
  "(\<And>k. linkGens (f k) = linkGens k \<and> l_stopped (f k) = l_stopped k) \<Longrightarrow> keeps c (updLink l f c)"
  by (simp add: keeps_def accounts_def client_wf_def linksShrink_def updLink_def)

lemma keeps_teardownLink: "keeps c (teardownLink l g c)"
  by (auto simp: keeps_def accounts_def client_wf_def linksShrink_def teardownLink_def updLink_def linkGens_def
      failAllWaiters_def quota_defs Let_def)

lemma keeps_writeFrame: "keeps c (snd (writeFrame l e io c))"
proof -
  have *: "keeps c (updLink l (l_out_update f) c)" for f
    by (rule keeps_updLink) (simp add: linkGens_def)
  show ?thesis
    by (auto simp: writeFrame_def Let_def * split: sum.split option.split intro: keeps_trans[OF * keeps_teardownLink])
qed

lemmas keeps_after = keeps_trans[OF _ keeps_teardownLink] keeps_trans[OF _ keeps_writeFrame]

lemma keeps_sends:
  "keeps c (sendAckReason l t i rc io c)" "keeps c (sendAck l t i io c)" "keeps c (protocolError l rc io c)"
  by (auto simp: sendAckReason_def sendAck_def protocolError_def Let_def
      intro: keeps_writeFrame keeps_after keeps_teardownLink)

lemma keeps_waiters:
  "keeps c (removeWaiter i ch c)" "keeps c (snd (registerWaiter i want c))" "keeps c (snd (signalWaiter i k r c))"
  by (auto simp: removeWaiter_def registerWaiter_def signalWaiter_def Let_def split: option.split
      intro!: keeps_client)

lemma keeps_Disconnect: "keeps c (TCPClient_Disconnect io c)"
proof -
  have "keeps c (updLink l (l_graceful_update f) c)" for l f
    by (rule keeps_updLink) (simp add: linkGens_def)
  then show ?thesis
    by (auto simp: TCPClient_Disconnect_def Let_def split: option.split intro: keeps_after)
qed

lemma keeps_tick: "keeps c (snd (keepAlive_tick l io c))"
proof -
  define c1 where "c1 = updLink l (l_outstandingPings_update (\<lambda>n. n + 1)) c"
  obtain err c2 where w: "writeFrame l EncodePingReq io c1 = (err, c2)" by fastforce
  have "keeps c c1" unfolding c1_def by (rule keeps_updLink) (simp add: linkGens_def)
  then have "keeps c c2" using keeps_trans[OF _ keeps_writeFrame[of c1 l EncodePingReq io]] w by simp
  then show ?thesis
    using w by (auto simp: keepAlive_tick_def Let_def c1_def split: option.split intro: keeps_teardownLink keeps_after)
qed

section \<open>The accounts\<close>

text \<open>
  With \<open>limit\<close> the ceiling the quota was seeded with and \<open>reqs\<close> the identifiers that pending
  SUBSCRIBE and UNSUBSCRIBE requests hold: one exchange per identifier; the identifiers in use are
  those of the exchanges and of the requests of this session, which are disjoint; permits and
  exchanges add up to the ceiling.
\<close>

definition reqIDs :: "(uint16 \<times> uint64) set \<Rightarrow> TCPClient \<Rightarrow> uint16 set" where
  "reqIDs reqs c = {i. (i, ia_gen (c_ids c)) \<in> reqs}"

definition accounts_inv :: "TCPClient \<Rightarrow> int \<Rightarrow> (uint16 \<times> uint64) set \<Rightarrow> bool" where
  "accounts_inv c limit reqs \<longleftrightarrow>
     client_wf c \<and> inj_on fst (outKeys (c_store c)) \<and>
     usedIDs (c_ids c) = fst ` outKeys (c_store c) \<union> reqIDs reqs c \<and>
     fst ` outKeys (c_store c) \<inter> reqIDs reqs c = {} \<and> 0 \<notin> usedIDs (c_ids c) \<and>
     qu_avail (c_quota c) + int (card (outKeys (c_store c))) = limit \<and> 0 \<le> qu_avail (c_quota c)"

text \<open>Every link that has not stopped is the current one and carries the current generations.\<close>

definition links_inv :: "TCPClient \<Rightarrow> bool" where
  "links_inv c \<longleftrightarrow>
     (\<forall>l < c_nextLink c. \<not> l_stopped (c_links c l) \<longrightarrow>
        c_link c = Some l \<and> linkGens (c_links c l) = (qu_gen (c_quota c), ia_gen (c_ids c))) \<and>
     (\<forall>l. c_link c = Some l \<longrightarrow> l < c_nextLink c)"

definition linksKept :: "TCPClient \<Rightarrow> TCPClient \<Rightarrow> bool" where
  "linksKept c c' \<longleftrightarrow> c_nextLink c' = c_nextLink c \<and> qu_gen (c_quota c') = qu_gen (c_quota c) \<and>
     ia_gen (c_ids c') = ia_gen (c_ids c) \<and> linksShrink c c'"

lemma linksKept_refl [simp]: "linksKept c c"
  by (simp add: linksKept_def linksShrink_def)

lemma linksKept_trans: "linksKept a b \<Longrightarrow> linksKept b c \<Longrightarrow> linksKept a c"
  unfolding linksKept_def linksShrink_def by (auto 0 4)

lemma linksKept_fields:
  "c_nextLink c' = c_nextLink c \<Longrightarrow> c_links c' = c_links c \<Longrightarrow> c_link c' = c_link c \<Longrightarrow>
   qu_gen (c_quota c') = qu_gen (c_quota c) \<Longrightarrow> ia_gen (c_ids c') = ia_gen (c_ids c) \<Longrightarrow> linksKept c c'"
  by (simp add: linksKept_def linksShrink_def)

lemma links_inv_kept:
  assumes "links_inv c" "linksKept c c'"
  shows "links_inv c'"
proof -
  have "c_link c' = Some l \<and> linkGens (c_links c' l) = (qu_gen (c_quota c'), ia_gen (c_ids c'))"
    if "l < c_nextLink c'" "\<not> l_stopped (c_links c' l)" for l
  proof -
    from that assms(2) have "l < c_nextLink c" "\<not> l_stopped (c_links c l)"
      and k: "linkGens (c_links c' l) = linkGens (c_links c l)" "c_link c = Some l \<longrightarrow> c_link c' = Some l"
      by (simp_all add: linksKept_def linksShrink_def)
    then have "c_link c = Some l" "linkGens (c_links c l) = (qu_gen (c_quota c), ia_gen (c_ids c))"
      using assms(1) unfolding links_inv_def by blast+
    with k assms(2) show ?thesis by (simp add: linksKept_def)
  qed
  moreover have "l < c_nextLink c'" if "c_link c' = Some l" for l
  proof -
    from that assms(2) have "c_link c = Some l" by (auto simp: linksKept_def linksShrink_def)
    then have "l < c_nextLink c" using assms(1) unfolding links_inv_def by blast
    with assms(2) show ?thesis by (simp add: linksKept_def)
  qed
  ultimately show ?thesis unfolding links_inv_def by blast
qed

lemma keeps_kept: "keeps c c' \<Longrightarrow> linksKept c c'"
  by (simp add: keeps_def linksKept_def accounts_def)

lemma keeps_accounts: "accounts_inv c limit reqs \<Longrightarrow> keeps c c' \<Longrightarrow> accounts_inv c' limit reqs"
  by (auto simp: accounts_inv_def keeps_def accounts_def reqIDs_def)

lemma accounts_invD:
  assumes "accounts_inv c limit reqs"
  shows "client_wf c" "inj_on fst (outKeys (c_store c))" "fst ` outKeys (c_store c) \<inter> reqIDs reqs c = {}"
    "usedIDs (c_ids c) = fst ` outKeys (c_store c) \<union> reqIDs reqs c" "0 \<notin> usedIDs (c_ids c)"
    "qu_avail (c_quota c) + int (card (outKeys (c_store c))) = limit" "0 \<le> qu_avail (c_quota c)"
  using assms unfolding accounts_inv_def by blast+

lemma accounts_inv_cong:
  "c_ids c' = c_ids c \<Longrightarrow> c_store c' = c_store c \<Longrightarrow> c_quota c' = c_quota c \<Longrightarrow>
   accounts_inv c' limit reqs = accounts_inv c limit reqs"
  by (simp add: accounts_inv_def client_wf_def reqIDs_def)

lemma ReleaseAt_current [simp]:
  "g = ia_gen a \<Longrightarrow> alloc_ok a \<Longrightarrow> 0 \<notin> usedIDs a \<Longrightarrow> usedIDs (ReleaseAt i g a) = usedIDs a - {i}"
  by (simp add: ReleaseAt_def)

lemma ReleaseAt_stale: "g \<noteq> ia_gen a \<Longrightarrow> ReleaseAt i g a = a"
  by (simp add: ReleaseAt_def)

lemma release_request:
  assumes "accounts_inv c limit reqs" "(i, g) \<in> reqs"
  shows "accounts_inv (c\<lparr>c_ids := ReleaseAt i g (c_ids c)\<rparr>) limit (reqs - {(i, g)})"
proof (cases "g = ia_gen (c_ids c)")
  case True
  let ?c = "c\<lparr>c_ids := ReleaseAt i g (c_ids c)\<rparr>"
  have r: "reqIDs (reqs - {(i, g)}) ?c = reqIDs reqs c - {i}" "i \<in> reqIDs reqs c"
    using True assms(2) by (auto simp: reqIDs_def)
  note I = accounts_invD[OF assms(1)]
  have "usedIDs (c_ids ?c) = usedIDs (c_ids c) - {i}"
    using True I(1,5) by (simp add: client_wf_def)
  moreover have "usedIDs (c_ids c) - {i} = fst ` outKeys (c_store c) \<union> (reqIDs reqs c - {i})"
    using I(3,4) r(2) by blast
  ultimately show ?thesis
    using I(1-3,5-7) r(1) unfolding accounts_inv_def client_wf_def by (simp add: Diff_Int_distrib) blast
next
  case False
  then show ?thesis using assms by (auto simp: accounts_inv_def client_wf_def reqIDs_def ReleaseAt_stale)
qed

lemma acquire_request:
  assumes "accounts_inv c limit reqs" "Acquire (c_ids c) = ((i, g, None), ids)"
  shows "accounts_inv (c\<lparr>c_ids := ids\<rparr>) limit (insert (i, g) reqs)" "(i, g) \<notin> reqs"
    "linksKept c (c\<lparr>c_ids := ids\<rparr>)"
proof -
  have ok: "alloc_ok (c_ids c)" using assms(1) by (simp add: accounts_inv_def client_wf_def)
  have F: "i \<noteq> 0" "i \<notin> usedIDs (c_ids c)" "usedIDs ids = insert i (usedIDs (c_ids c))"
      "g = ia_gen (c_ids c)" "ia_gen ids = ia_gen (c_ids c)" "alloc_ok ids"
    using Acquire_cases[OF ok assms(2)] by auto
  show "accounts_inv (c\<lparr>c_ids := ids\<rparr>) limit (insert (i, g) reqs)" "(i, g) \<notin> reqs"
    using assms(1) F by (auto simp: accounts_inv_def client_wf_def reqIDs_def)
  show "linksKept c (c\<lparr>c_ids := ids\<rparr>)" using F by (intro linksKept_fields) simp_all
qed

lemma Acquire_full:
  assumes "accounts_inv c limit reqs" "Acquire (c_ids c) = ((i, g, Some e), ids)"
  shows "ids = c_ids c"
  using Acquire_cases[OF _ assms(2)] assms(1) by (auto simp: accounts_inv_def client_wf_def)

text \<open>An exchange begins with all three resources and ends with all three.\<close>

lemma begin_exchange:
  fixes pkt :: PublishPacket
  assumes "accounts_inv c limit reqs" "acquire_try (c_quota c) = (Returned qg None, q)"
    and "Acquire (c_ids c) = ((i, g, None), ids)"
  defines "c' \<equiv> c\<lparr>c_quota := q, c_ids := ids, c_store := memStore_Save (storedPublish i pkt) (c_store c)\<rparr>"
  shows "accounts_inv c' limit reqs" "linksKept c c'" "(i, StoredPublish) \<in> outKeys (c_store c')"
    "qg = qu_gen (c_quota c')" "g = ia_gen (c_ids c')"
proof -
  have ok: "alloc_ok (c_ids c)" using assms(1) by (simp add: accounts_inv_def client_wf_def)
  have F: "i \<noteq> 0" "i \<notin> usedIDs (c_ids c)" "usedIDs ids = insert i (usedIDs (c_ids c))"
      "g = ia_gen (c_ids c)" "ia_gen ids = ia_gen (c_ids c)" "alloc_ok ids"
    using Acquire_cases[OF ok assms(3)] by auto
  have Q: "qu_avail q = qu_avail (c_quota c) - 1" "0 \<le> qu_avail q" "qu_gen q = qu_gen (c_quota c)" "qg = qu_gen q"
    using assms(2) by (auto simp: acquire_try_def split: if_splits)
  have new: "i \<notin> fst ` outKeys (c_store c)" using F assms(1) by (auto simp: accounts_inv_def)
  then have "(i, StoredPublish) \<notin> outKeys (c_store c)" by force
  with new show "accounts_inv c' limit reqs"
    using assms(1) F Q
    by (auto simp: accounts_inv_def client_wf_def reqIDs_def c'_def storedPublish_def store_wf_Save)
  show "linksKept c c'" using F Q unfolding c'_def by (intro linksKept_fields) simp_all
  show "(i, StoredPublish) \<in> outKeys (c_store c')" "qg = qu_gen (c_quota c')" "g = ia_gen (c_ids c')"
    using F Q by (simp_all add: c'_def storedPublish_def)
qed

lemma end_exchange:
  assumes "accounts_inv c limit reqs" "(i, k) \<in> outKeys (c_store c)"
    and "qg = qu_gen (c_quota c)" "g = ia_gen (c_ids c)"
  defines "c' \<equiv> c\<lparr>c_store := memStore_Delete i k (c_store c), c_ids := ReleaseAt i g (c_ids c),
      c_quota := releaseAt qg (c_quota c)\<rparr>"
  shows "accounts_inv c' limit reqs" "linksKept c c'"
proof -
  have card: "int (card (outKeys (c_store c) - {(i, k)})) = int (card (outKeys (c_store c))) - 1"
    using card_Diff_singleton[OF assms(2)] card_gt_0_iff[of "outKeys (c_store c)"] assms(2) by (auto simp: of_nat_diff)
  note I = accounts_invD[OF assms(1)]
  let ?K = "outKeys (c_store c)"
  have f: "fst ` (?K - {(i, k)}) = fst ` ?K - {i}"
    using inj_on_image_set_diff[of fst ?K ?K "{(i, k)}"] I(2) assms(2) by simp
  have "i \<in> fst ` ?K" using assms(2) by force
  then have "usedIDs (c_ids c) - {i} = (fst ` ?K - {i}) \<union> reqIDs reqs c" "(fst ` ?K - {i}) \<inter> reqIDs reqs c = {}"
    using I(3,4) by blast+
  moreover have "usedIDs (c_ids c') = usedIDs (c_ids c) - {i}" "reqIDs reqs c' = reqIDs reqs c"
    using I(1,5) assms(4) by (simp_all add: c'_def client_wf_def reqIDs_def)
  moreover have "0 \<notin> fst ` ?K" "0 \<notin> reqIDs reqs c" using I(4,5) by simp_all
  ultimately show "accounts_inv c' limit reqs"
    using I(1,2,6,7) f card assms(3) inj_on_diff[OF I(2)]
    unfolding accounts_inv_def by (simp add: c'_def client_wf_def store_wf_Delete quota_defs)
  show "linksKept c c'" unfolding c'_def by (intro linksKept_fields) (simp_all add: quota_defs)
qed


lemma supersede_exchange:
  assumes "accounts_inv c limit reqs" "(i, StoredPublish) \<in> outKeys (c_store c)"
  defines "c' \<equiv> c\<lparr>c_store := memStore_Delete i StoredPublish (memStore_Save (idOnly i StoredPubrel) (c_store c))\<rparr>"
  shows "accounts_inv c' limit reqs" "linksKept c c'"
proof -
  note I = accounts_invD[OF assms(1)]
  let ?K = "outKeys (c_store c)" and ?K' = "insert (i, StoredPubrel) (outKeys (c_store c) - {(i, StoredPublish)})"
  have new: "(i, StoredPubrel) \<notin> ?K" using inj_onD[OF I(2), of "(i, StoredPublish)" "(i, StoredPubrel)"] assms(2) by auto
  have K: "outKeys (c_store c') = ?K'" by (auto simp: c'_def)
  have f: "fst ` (?K - {(i, StoredPublish)}) = fst ` ?K - {i}"
    using inj_on_image_set_diff[of fst ?K ?K "{(i, StoredPublish)}"] I(2) assms(2) by simp
  then have "inj_on fst ?K'" "fst ` ?K' = fst ` ?K"
    using inj_on_diff[OF I(2)] assms(2) by (auto simp: image_iff Bex_def)
  moreover have "card ?K' = card ?K"
    using new card_Suc_Diff1[OF outKeys_finite assms(2)] by simp
  moreover have "reqIDs reqs c' = reqIDs reqs c" "c_ids c' = c_ids c" "c_quota c' = c_quota c"
    by (simp_all add: c'_def reqIDs_def)
  ultimately show "accounts_inv c' limit reqs"
    using I K unfolding accounts_inv_def client_wf_def by (simp add: c'_def store_wf_Delete store_wf_Save)
  show "linksKept c c'" unfolding c'_def by (intro linksKept_fields) simp_all
qed

section \<open>Every operation keeps the accounts\<close>

definition session_inv :: "TCPClient \<Rightarrow> int \<Rightarrow> (uint16 \<times> uint64) set \<Rightarrow> bool" where
  "session_inv c limit reqs \<longleftrightarrow> accounts_inv c limit reqs \<and> links_inv c"

lemma session_inv_step:
  "session_inv c limit reqs \<Longrightarrow> accounts_inv c' limit reqs' \<Longrightarrow> linksKept c c' \<Longrightarrow> session_inv c' limit reqs'"
  by (auto simp: session_inv_def intro: links_inv_kept)

lemma session_inv_keeps: "session_inv c limit reqs \<Longrightarrow> keeps c c' \<Longrightarrow> session_inv c' limit reqs"
  by (auto simp: session_inv_def intro: keeps_accounts links_inv_kept keeps_kept)

lemma session_inv_end:
  assumes "session_inv c limit reqs" "(i, k) \<in> outKeys (c_store c)"
    and "qg = qu_gen (c_quota c)" "g = ia_gen (c_ids c)"
  shows "session_inv (c\<lparr>c_store := memStore_Delete i k (c_store c), c_ids := ReleaseAt i g (c_ids c),
      c_quota := releaseAt qg (c_quota c)\<rparr>) limit reqs"
proof -
  have acc: "accounts_inv c limit reqs" using assms(1) by (simp add: session_inv_def)
  show ?thesis by (rule session_inv_step[OF assms(1) end_exchange[OF acc assms(2-4)]])
qed

lemma publishAcked_send_inv:
  assumes "session_inv c limit reqs"
  shows "session_inv (snd (publishAcked_send l pkt io c)) limit reqs"
proof -
  have acc: "accounts_inv c limit reqs" using assms by (simp add: session_inv_def)
  obtain p q where a: "acquire_try (c_quota c) = (p, q)" by fastforce
  obtain i ig err ids where A: "Acquire (c_ids c) = ((i, ig, err), ids)" by (metis prod.collapse)
  show ?thesis
  proof (cases "\<exists>g. p = Returned g None")
    case False
    then have "q = c_quota c" using a by (auto simp: acquire_try_def split: if_splits)
    then show ?thesis using False a assms
      by (auto simp: publishAcked_send_def split: acquirer.split option.split)
  next
    case True
    then obtain g where p: "p = Returned g None" by blast
    note a = a[unfolded p]
    then have q: "qu_avail q = qu_avail (c_quota c) - 1" "qu_gen q = qu_gen (c_quota c)" "g = qu_gen (c_quota c)"
      by (auto simp: acquire_try_def split: if_splits)
    show ?thesis
    proof (cases err)
      case (Some e)
      have "ids = c_ids c" using Acquire_full[OF acc] A Some by blast
      with q have "keeps c (c\<lparr>c_ids := ids, c_quota := releaseAt g q\<rparr>)"
        by (intro keeps_client) (simp_all add: quota_defs)
      then show ?thesis using session_inv_keeps[OF assms] a A Some by (simp add: publishAcked_send_def)
    next
      case None
      define c1 where "c1 = c\<lparr>c_quota := q, c_ids := ids,
        c_store := memStore_Save (storedPublish i (pkt\<lparr>pub_PacketID := i\<rparr>)) (c_store c)\<rparr>"
      note B = begin_exchange[OF acc a A[unfolded None], of "pkt\<lparr>pub_PacketID := i\<rparr>", folded c1_def]
      obtain ch c2 where r: "registerWaiter i ackClassPublish c1 = (ch, c2)" by fastforce
      obtain werr c3 where w: "writeFrame l (PublishPacket_Encode (pkt\<lparr>pub_PacketID := i\<rparr>)) io c2 = (werr, c3)" by fastforce
      have "keeps c1 c2" using keeps_waiters(2)[of c1 i ackClassPublish] r by simp
      then have k3: "keeps c1 c3" using keeps_trans keeps_writeFrame[of c2] w by (metis snd_conv)
      have s1: "session_inv c1 limit reqs" using session_inv_step[OF assms B(1,2)] .
      define c4 where "c4 = removeWaiter i ch c3"
      have k4: "keeps c1 c4" unfolding c4_def using k3 keeps_waiters(1) by (rule keeps_trans)
      then have *: "outKeys (c_store c4) = outKeys (c_store c1)" "qu_gen (c_quota c4) = g" "ia_gen (c_ids c4) = ig"
        using B(4,5) by (simp_all add: keeps_def accounts_def)
      have "session_inv (publishAcked_abort i ig g c4) limit reqs"
        using session_inv_end[OF session_inv_keeps[OF s1 k4], of i StoredPublish g ig] * B(3)
        by (simp add: publishAcked_abort_def quota_generation_def)
      then show ?thesis
        using session_inv_keeps[OF s1 k3] a A None r w
        by (auto simp: publishAcked_send_def c1_def c4_def Let_def split: option.split)
    qed
  qed
qed

lemma TCPClient_Publish_inv:
  assumes "session_inv c limit reqs"
  shows "session_inv (snd (TCPClient_Publish topic payload qos retain opts io c)) limit reqs"
proof -
  have w: "session_inv (snd (writeFrame l e io c)) limit reqs" for l e
    using session_inv_keeps[OF assms keeps_writeFrame] .
  show ?thesis
    using assms w publishAcked_send_inv[OF assms]
    by (simp add: TCPClient_Publish_def Let_def case_prod_beta split: sum.split option.split)
qed

text \<open>The identifier a request holds after its first half.\<close>

definition pendingOf :: "cerror + uint16 \<times> uint64 \<times> nat \<Rightarrow> (uint16 \<times> uint64) set" where
  "pendingOf r = (case r of Inl _ \<Rightarrow> {} | Inr (ident, gen, _) \<Rightarrow> {(ident, gen)})"

lemma requestAck_send_inv:
  assumes "accounts_inv c limit reqs" "requestAck_send l want mk io c = (r, c')"
  shows "accounts_inv c' limit (reqs \<union> pendingOf r)" "linksKept c c'"
proof -
  obtain i g err ids where A: "Acquire (c_ids c) = ((i, g, err), ids)" by (metis prod.collapse)
  have "accounts_inv c' limit (reqs \<union> pendingOf r) \<and> linksKept c c'"
  proof (cases err)
    case (Some e)
    then have "c' = c" "r = Inl e" using A Acquire_full[OF assms(1)] assms(2) by (auto simp: requestAck_send_def)
    then show ?thesis using assms(1) by (simp add: pendingOf_def)
  next
    case None
    define c1 where "c1 = c\<lparr>c_ids := ids\<rparr>"
    note B = acquire_request[OF assms(1) A[unfolded None], folded c1_def]
    obtain ch c2 where r: "registerWaiter i want c1 = (ch, c2)" by fastforce
    obtain werr c3 where w: "writeFrame l (mk i) io c2 = (werr, c3)" by fastforce
    have "keeps c1 c2" using keeps_waiters(2)[of c1 i want] r by simp
    then have k3: "keeps c1 c3" using keeps_trans keeps_writeFrame[of c2] w by (metis snd_conv)
    have k4: "keeps c1 (removeWaiter i ch c3)" using k3 keeps_waiters(1) by (rule keeps_trans)
    note a3 = keeps_accounts[OF B(1) k3] and a4 = keeps_accounts[OF B(1) k4]
    note l3 = linksKept_trans[OF B(3) keeps_kept[OF k3]] and l4 = linksKept_trans[OF B(3) keeps_kept[OF k4]]
    show ?thesis
    proof (cases werr)
      case None
      then have "c' = c3" "r = Inr (i, g, ch)"
        using assms(2) A \<open>err = None\<close> r w by (auto simp: requestAck_send_def c1_def)
      then show ?thesis using a3 l3 by (simp add: pendingOf_def)
    next
      case (Some e)
      then have c': "c' = (removeWaiter i ch c3)\<lparr>c_ids := ReleaseAt i g (c_ids (removeWaiter i ch c3))\<rparr>" "r = Inl e"
        using assms(2) A \<open>err = None\<close> r w by (auto simp: requestAck_send_def c1_def Let_def)
      have "linksKept c c'" unfolding c' by (rule linksKept_trans[OF l4], rule linksKept_fields) simp_all
      then show ?thesis using release_request[OF a4, of i g] B(2) c' by (simp add: pendingOf_def)
    qed
  qed
  then show "accounts_inv c' limit (reqs \<union> pendingOf r)" "linksKept c c'" by simp_all
qed

lemma release_inv:
  assumes "session_inv c limit reqs" "(i, g) \<in> reqs"
  shows "session_inv (c\<lparr>c_ids := ReleaseAt i g (c_ids c)\<rparr>) limit (reqs - {(i, g)})"
proof -
  have "accounts_inv c limit reqs" using assms(1) by (simp add: session_inv_def)
  from release_request[OF this assms(2)] show ?thesis
    by (rule session_inv_step[OF assms(1)]) (rule linksKept_fields, simp_all)
qed

lemma requestAck_finish_inv:
  assumes "session_inv c limit reqs" "(i, g) \<in> reqs"
  shows "session_inv (snd (requestAck_finish packet i g ch how c)) limit (reqs - {(i, g)})"
    "session_inv (awaitResubscribe i g ch res c) limit (reqs - {(i, g)})"
  using release_inv[OF assms] release_inv[OF session_inv_keeps[OF assms(1) keeps_waiters(1)] assms(2)]
  by (auto simp: requestAck_finish_def awaitResubscribe_def Let_def split: sum.split option.split)

text \<open>The registry of subscriptions has no part in the accounts.\<close>

lemma keeps_registry: "keeps c (c\<lparr>c_subs := ss\<rparr>)" "keeps c (c\<lparr>c_subSeq := n, c_subs := ss\<rparr>)"
  by (rule keeps_client; simp)+

definition pendingSub :: "cerror + subPending \<Rightarrow> (uint16 \<times> uint64) set" where
  "pendingSub r = (case r of Inl _ \<Rightarrow> {} | Inr pd \<Rightarrow> {(spd_ident pd, spd_gen pd)})"

lemma Subscribe_send_inv:
  assumes "session_inv c limit reqs" "TCPClient_Subscribe_send flt qos h opts io c = (r, c')"
  shows "session_inv c' limit (reqs \<union> pendingSub r)"
proof (cases "\<exists>e. r = Inl e \<and> c' = c")
  case True
  then show ?thesis using assms(1) by (auto simp: pendingSub_def)
next
  case False
  define so where "so = fold (\<lambda>o' so. o' so) opts noSubscribeOptions"
  define options where "options = \<lparr>so_QoS = qos, so_NoLocal = sopt_noLocal so,
    so_RetainAsPublished = sopt_retainAsPublished so, so_RetainHandling = sopt_retainHandling so\<rparr>"
  obtain token c1 where add: "addSubscription flt options h (sopt_subscriptionID so) c = (token, c1)" by fastforce
  then have k1: "keeps c c1" by (auto simp: addSubscription_def Let_def keeps_registry)
  from False assms(2) obtain l where l: "c_link c = Some l"
    by (auto simp: TCPClient_Subscribe_send_def split: sum.splits if_splits option.splits)
  obtain r2 c2 where req: "requestAck_send l ackClassSuback (\<lambda>ident. SubscribePacket_Encode
      (subscribePacket c1 flt options (sopt_subscriptionID so) ident)) io c1 = (r2, c2)" by fastforce
  have s1: "session_inv c1 limit reqs" by (rule session_inv_keeps[OF assms(1) k1])
  then have "accounts_inv c1 limit reqs" by (simp add: session_inv_def)
  from session_inv_step[OF s1 requestAck_send_inv[OF this req]]
  have s2: "session_inv c2 limit (reqs \<union> pendingOf r2)" .
  from assms(2) False l req add
  consider e where "r2 = Inl e" "r = Inl e" "c' = restoreSubscription flt (snapshotSubscription flt c) token c2"
    | i g ch where "r2 = Inr (i, g, ch)" "c' = c2"
        "r = Inr \<lparr>spd_prev = snapshotSubscription flt c, spd_token = token, spd_ident = i, spd_gen = g, spd_ch = ch\<rparr>"
    by (auto simp: TCPClient_Subscribe_send_def Let_def so_def[symmetric] options_def[symmetric]
        split: sum.splits if_splits)
  then show ?thesis
    using s2 session_inv_keeps[OF s2 keeps_registry(1)]
    by cases (simp_all add: pendingOf_def pendingSub_def restoreSubscription_def)
qed

lemma Unsubscribe_send_inv:
  assumes "session_inv c limit reqs" "TCPClient_Unsubscribe_send flt io c = (r, c')"
  shows "session_inv c' limit (reqs \<union> pendingSub r)"
proof (cases "\<exists>e. r = Inl e \<and> c' = c")
  case True
  then show ?thesis using assms(1) by (auto simp: pendingSub_def)
next
  case False
  from False assms(2) obtain l where l: "c_link c = Some l"
    by (auto simp: TCPClient_Unsubscribe_send_def split: sum.splits if_splits option.splits)
  obtain r2 c2 where req: "requestAck_send l ackClassUnsuback (\<lambda>ident. UnsubscribePacket_Encode
      \<lparr>up_Version = c_version c, up_PacketID = ident, up_Filters = [flt], up_Properties = None\<rparr>) io c = (r2, c2)"
    by fastforce
  have "accounts_inv c limit reqs" using assms(1) by (simp add: session_inv_def)
  from session_inv_step[OF assms(1) requestAck_send_inv[OF this req]]
  have "session_inv c2 limit (reqs \<union> pendingOf r2)" .
  moreover have "c' = c2 \<and> pendingSub r = pendingOf r2"
    using assms(2) False l req
    by (auto simp: TCPClient_Unsubscribe_send_def pendingOf_def pendingSub_def Let_def split: sum.splits)
  ultimately show ?thesis by simp
qed

lemma Subscribe_finish_inv:
  assumes "session_inv c limit reqs" "(spd_ident pd, spd_gen pd) \<in> reqs"
  shows "session_inv (snd (TCPClient_Subscribe_finish flt pd how c)) limit (reqs - {(spd_ident pd, spd_gen pd)})"
    "session_inv (snd (TCPClient_Unsubscribe_finish flt pd how c)) limit (reqs - {(spd_ident pd, spd_gen pd)})"
proof -
  note F = requestAck_finish_inv(1)[OF assms, of _ "spd_ch pd" how]
  show "session_inv (snd (TCPClient_Subscribe_finish flt pd how c)) limit (reqs - {(spd_ident pd, spd_gen pd)})"
    "session_inv (snd (TCPClient_Unsubscribe_finish flt pd how c)) limit (reqs - {(spd_ident pd, spd_gen pd)})"
    using F session_inv_keeps[OF F keeps_registry(1)]
    by (simp_all add: TCPClient_Subscribe_finish_def TCPClient_Unsubscribe_finish_def restoreSubscription_def
        removeSubscriptionIfCurrent_def case_prod_beta split: sum.split option.split)
qed

subsection \<open>Frames\<close>

lemma live_link:
  assumes "session_inv c limit reqs" "l < c_nextLink c" "\<not> isStopping l c"
  shows "l_quotaGen (c_links c l) = qu_gen (c_quota c)" "l_idGen (c_links c l) = ia_gen (c_ids c)"
proof -
  have "linkGens (c_links c l) = (qu_gen (c_quota c), ia_gen (c_ids c))"
    using assms unfolding session_inv_def links_inv_def isStopping_def by blast
  then show "l_quotaGen (c_links c l) = qu_gen (c_quota c)" "l_idGen (c_links c l) = ia_gen (c_ids c)"
    by (simp_all add: linkGens_def)
qed

lemma releaseExchange_inv:
  assumes "session_inv c limit reqs" "l < c_nextLink c" "\<not> isStopping l c"
    and "storeContains i k c" "k \<in> {StoredPublish, StoredPubrel}"
  shows "session_inv (releaseExchange l i k c) limit reqs"
  using session_inv_end[OF assms(1) _ live_link[OF assms(1-3)], of i k] assms(4,5)
  by (simp add: releaseExchange_def Let_def outKeys_def storeContains_def)

lemma handleAck_inv:
  assumes "session_inv c limit reqs" "l < c_nextLink c" "\<not> isStopping l c"
  shows "session_inv (snd (handleAck l frame t io c)) limit reqs"
proof -
  note R = releaseExchange_inv[OF assms]
  note S = session_inv_keeps[OF R keeps_waiters(3)]
  have C: "session_inv (completeOutbound l i k res c) limit reqs" if "k \<in> {StoredPublish, StoredPubrel}" for i k res
    using assms(1) S that by (simp add: completeOutbound_def)
  have P: "session_inv (handlePubrec l ack reason io c) limit reqs" for ack reason
  proof (cases "storeContains (ack_PacketID ack) StoredPublish c")
    case True
    let ?i = "ack_PacketID ack"
    have "accounts_inv c limit reqs" "(?i, StoredPublish) \<in> outKeys (c_store c)"
      using assms(1) True by (simp_all add: session_inv_def outKeys_def storeContains_def)
    note session_inv_step[OF assms(1) supersede_exchange[OF this]]
    from session_inv_keeps[OF this keeps_sends(2)] show ?thesis
      using S[OF True] True by (simp add: handlePubrec_def Let_def)
  next
    case False
    then show ?thesis using assms(1) session_inv_keeps[OF assms(1)] keeps_sends by (simp add: handlePubrec_def Let_def)
  qed
  show ?thesis
    using assms(1) C P session_inv_keeps[OF assms(1) keeps_sends(3)]
    by (simp add: handleAck_def Let_def split: sum.split)
qed

lemma keeps_inbound:
  "keeps c (c\<lparr>c_store := memStore_Save (idOnly i StoredInboundID) (c_store c)\<rparr>)"
  "keeps c (c\<lparr>c_store := memStore_Delete i StoredInboundID (c_store c)\<rparr>)"
  by (rule keeps_client; auto simp: store_wf_Save store_wf_Delete outKeys_def)+

lemma handleFrame_inv:
  assumes "session_inv c limit reqs" "l < c_nextLink c" "\<not> isStopping l c"
    and "packetType (Header frame) \<noteq> Publish"
  shows "session_inv (snd (handleFrame l frame env c)) limit reqs"
proof -
  have u: "keeps c (updLink l (l_outstandingPings_update f) c)" for f
    by (rule keeps_updLink) (simp add: linkGens_def)
  note K = session_inv_keeps[OF assms(1)]
  have "session_inv (snd (handleInboundPubrel l frame io c)) limit reqs" for io
    by (auto simp: handleInboundPubrel_def Let_def split: sum.split
        intro!: K keeps_sends keeps_trans[OF keeps_inbound(2) keeps_sends(2)])
  moreover have "session_inv (snd (handleSuback l frame io c)) limit reqs"
    "session_inv (snd (handleUnsuback l frame io c)) limit reqs" for io
    by (auto simp: handleSuback_def handleUnsuback_def Let_def split: sum.split intro!: K keeps_sends keeps_waiters)
  ultimately show ?thesis
    using handleAck_inv[OF assms(1-3)] K[OF u] K[OF keeps_teardownLink] K[OF keeps_sends(3)] assms(4)
    by (simp add: handleFrame_def Let_def handleServerDisconnect_def)
qed

text \<open>
  An inbound PUBLISH is handled in two halves around the calls of the handlers, during which
  anything may happen.
\<close>

definition publishEnter ::
  "nat \<Rightarrow> Frame \<Rightarrow> nat option \<Rightarrow> TCPClient \<Rightarrow> (bool \<times> TCPClient) + (PublishPacket \<times> nat list \<times> TCPClient)" where
  "publishEnter l frame io c =
     (case DecodePublish (c_version c) (Header frame) (Body frame) of
        Inl e \<Rightarrow> Inl (False, protocolError l MalformedPacketReason io c)
      | Inr pub \<Rightarrow>
          (case resolveTopicAlias l pub c of
             (None, c) \<Rightarrow> Inl (False, protocolError l TopicAliasInvalid io c)
           | (Some topic, c) \<Rightarrow>
               let pub = pub\<lparr>pub_Topic := topic\<rparr>;
                   handlers = matchingHandlers (c_subs c) (toMessage pub) in
               if pub_QoS pub > 2 then Inl (True, c)
               else if pub_QoS pub = 2 \<and> storeContains (pub_PacketID pub) StoredInboundID c
               then Inl (True, sendAck l Pubrec (pub_PacketID pub) io c)
               else Inr (pub, handlers, c\<lparr>c_calls := c_calls c @ map (\<lambda>h. (h, toMessage pub)) handlers\<rparr>)))"

definition publishLeave :: "nat \<Rightarrow> PublishPacket \<Rightarrow> nat option \<Rightarrow> TCPClient \<Rightarrow> bool \<times> TCPClient" where
  "publishLeave l pub io c =
     (if pub_QoS pub = 0 then (True, c)
      else if isStopping l c then (False, c)
      else if pub_QoS pub = 1 then (True, sendAck l Puback (pub_PacketID pub) io c)
      else (True, sendAck l Pubrec (pub_PacketID pub) io
             (c\<lparr>c_store := memStore_Save (idOnly (pub_PacketID pub) StoredInboundID) (c_store c)\<rparr>)))"

lemma byte_above_two: "(2 :: byte) < x \<longleftrightarrow> x \<noteq> 0 \<and> x \<noteq> 1 \<and> x \<noteq> 2"
proof -
  have "x = 0 \<or> x = 1 \<or> x = 2" if "unat x \<le> 2"
  proof -
    from that have "unat x = 0 \<or> unat x = 1 \<or> unat x = 2" by arith
    then show ?thesis by (elim disjE) (drule arg_cong[where f = "word_of_nat :: nat \<Rightarrow> byte"], simp)+
  qed
  then show ?thesis by (auto simp: word_less_nat_alt simp flip: not_le)
qed

lemma handlePublish_split:
  "handlePublish l frame env c =
     (case publishEnter l frame (fe_io env) c of
        Inl r \<Rightarrow> r
      | Inr (pub, handlers, c') \<Rightarrow>
          publishLeave l pub (fe_io env) (if handlers = [] then c' else fe_during env c'))"
  by (auto simp: handlePublish_def handleInboundQoS2_def publishEnter_def publishLeave_def dispatch_def
      byte_above_two Let_def split: sum.split option.split prod.split)

lemma keeps_alias: "keeps c (snd (resolveTopicAlias l pub c))"
proof -
  have "keeps c (updLink l (l_aliases_update f) c)" for f
    by (rule keeps_updLink) (simp add: linkGens_def)
  then show ?thesis by (auto simp: resolveTopicAlias_def split: option.split)
qed

lemma keeps_publishEnter:
  "publishEnter l frame io c = Inl (b, c') \<Longrightarrow> keeps c c'"
  "publishEnter l frame io c = Inr (pub, hs, c') \<Longrightarrow> keeps c c'"
proof -
  have calls: "keeps x (x\<lparr>c_calls := cs\<rparr>)" for x cs by (rule keeps_client) simp_all
  have k: "keeps c y" if "resolveTopicAlias l p c = (t, d)" "keeps d y" for p t d y
    using keeps_trans[OF keeps_alias[of c l p]] that by simp
  show "publishEnter l frame io c = Inl (b, c') \<Longrightarrow> keeps c c'"
    "publishEnter l frame io c = Inr (pub, hs, c') \<Longrightarrow> keeps c c'"
    by (auto simp: publishEnter_def Let_def split: sum.splits prod.splits option.splits if_splits
        intro: keeps_sends k[OF _ keeps_refl] k[OF _ calls] k[OF _ keeps_sends(2)] k[OF _ keeps_sends(3)])
qed

lemma keeps_publishLeave: "keeps c (snd (publishLeave l pub io c))"
  by (auto simp: publishLeave_def intro: keeps_sends keeps_trans[OF keeps_inbound(1) keeps_sends(2)])

subsection \<open>Connecting\<close>

text \<open>The quota is seeded with what the exchanges that are replayed leave of the ceiling.\<close>

definition sessionLimit :: "ConnectResult \<Rightarrow> TCPClient \<Rightarrow> int" where
  "sessionLimit result c = max (quotaSize (c_cfg c) result) (inflightPermits (c_store (applySession result c)))"

lemma applySession_inv:
  assumes "accounts_inv c limit reqs" "ia_gen (c_ids c) + 1 \<notin> snd ` reqs"
  shows "accounts_inv (applySession result c) (sessionLimit result c) reqs"
proof -
  define reset where "reset \<longleftrightarrow> cfg_CleanStart (c_cfg c) \<or>
    (c_version c = V50 \<and> cfg_SessionExpirySeconds (c_cfg c) = 0) \<or> \<not> cr_SessionPresent result"
  define st where "st = c_store (applySession result c)"
  note I = accounts_invD[OF assms(1)]
  have st: "st = (if reset then memStore_Reset (c_store c) else c_store c)"
    by (simp add: st_def applySession_def reset_def Let_def)
  then have wf: "store_wf st" using I(1) by (simp add: client_wf_def)
  have q: "qu_avail (c_quota (applySession result c)) = max (quotaSize (c_cfg c) result - inflightPermits st) 0"
    by (simp add: st applySession_def reset_def Let_def quota_defs)
  have sum: "qu_avail (c_quota (applySession result c)) + int (card (outKeys st)) = sessionLimit result c"
    "0 \<le> qu_avail (c_quota (applySession result c))"
    using inflightPermits_card[OF wf] by (simp_all add: q sessionLimit_def st_def[symmetric])
  have ids: "c_ids (applySession result c) = (if reset then idAllocator_Reset (c_ids c) else c_ids c)"
    by (simp add: applySession_def reset_def Let_def)
  show ?thesis
  proof (cases reset)
    case True
    then have "reqIDs reqs (applySession result c) = {}" using assms(2) ids by (force simp: reqIDs_def)
    then show ?thesis
      using True sum ids st wf unfolding accounts_inv_def client_wf_def by (simp flip: st_def)
  next
    case False
    then have "reqIDs reqs (applySession result c) = reqIDs reqs c" using ids by (simp add: reqIDs_def)
    then show ?thesis
      using False sum I ids st unfolding accounts_inv_def client_wf_def by (simp flip: st_def)
  qed
qed

lemma replayMessages_keeps: "keeps c (snd (replayMessages l ms ios c))"
proof (induction l ms ios c rule: replayMessages.induct)
  case (2 l m ms ios c)
  show ?case
  proof (cases "replayEncoder (c_version c) m")
    case (Some e)
    then show ?thesis using 2(2)[OF Some refl refl] keeps_trans[OF keeps_writeFrame] by (simp add: Let_def)
  qed (use 2(1) in simp)
qed simp

lemma resubscribe_inv:
  assumes "accounts_inv c limit reqs" "resubscribe l ss ios c = (ws, c')"
  shows "accounts_inv c' limit (reqs \<union> (\<lambda>(i, g, _). (i, g)) ` set ws) \<and> linksKept c c'"
  using assms
proof (induction ss arbitrary: ios c ws c' reqs)
  case (Cons s ss)
  define mk where "mk = (\<lambda>i. SubscribePacket_Encode (subscribePacket c (sn_filter s) (sn_options s) (sn_subID s) i))"
  define io where "io = (case ios of [] \<Rightarrow> None | x # _ \<Rightarrow> x)"
  obtain i g err ids where A: "Acquire (c_ids c) = ((i, g, err), ids)" by (metis prod.collapse)
  show ?case
  proof (cases err)
    case (Some e)
    then have "ids = c_ids c" using Acquire_full[OF Cons.prems(1)] A by blast
    then show ?thesis using Cons.IH[OF Cons.prems(1)] Cons.prems(2) A Some by simp
  next
    case None
    obtain ch c2 where r: "registerWaiter i ackClassSuback (c\<lparr>c_ids := ids\<rparr>) = (ch, c2)" by fastforce
    then have "c_version c2 = c_version c" by (auto simp: registerWaiter_def Let_def)
    then have mk: "SubscribePacket_Encode (subscribePacket c2 (sn_filter s) (sn_options s) (sn_subID s) i) = mk i"
      by (simp add: mk_def subscribePacket_def)
    obtain r2 c3 where req: "requestAck_send l ackClassSuback mk io c = (r2, c3)" by fastforce
    note B = requestAck_send_inv[OF Cons.prems(1) req]
    obtain werr c4 where w: "writeFrame l (mk i) io c2 = (werr, c4)" by fastforce
    show ?thesis
    proof (cases werr)
      case None
      then have r2: "r2 = Inr (i, g, ch)" "c3 = c4" using req A \<open>err = None\<close> r w by (auto simp: requestAck_send_def)
      obtain ws1 where ws: "resubscribe l ss (drop 1 ios) c3 = (ws1, c')" "ws = (i, g, ch) # ws1"
        using Cons.prems(2) A \<open>err = None\<close> r w None r2 mk by (auto simp: Let_def io_def[symmetric] split: prod.splits)
      show ?thesis
        using Cons.IH[OF B(1) ws(1)] B(2) linksKept_trans by (auto simp: ws(2) r2 pendingOf_def)
    next
      case (Some e)
      then have r2: "pendingOf r2 = {}" "resubscribe l ss (drop 1 ios) c3 = (ws, c')"
        using Cons.prems(2) req A \<open>err = None\<close> r w mk
        by (auto simp: io_def[symmetric] Let_def requestAck_send_def pendingOf_def)
      show ?thesis using Cons.IH[OF _ r2(2)] B r2(1) linksKept_trans by auto
    qed
  qed
qed simp

lemma applySession_simps [simp]:
  "c_links (applySession r c) = c_links c" "c_link (applySession r c) = c_link c"
  "c_nextLink (applySession r c) = c_nextLink c" "c_cfg (applySession r c) = c_cfg c"
  by (simp_all add: applySession_def Let_def)

lemma establish_inv:
  assumes "session_inv c limit reqs" "c_link c = None" "ia_gen (c_ids c) + 1 \<notin> snd ` reqs"
    and "establish out result ios c = ((err, ws), c')"
  shows "session_inv c' (sessionLimit result c) (reqs \<union> (\<lambda>(i, g, _). (i, g)) ` set ws) \<and>
    qu_gen (c_quota c') = qu_gen (c_quota c) + 1"
proof -
  define l where "l = c_nextLink c"
  define c2 where "c2 = updLink l (\<lambda>_. newLink (c\<lparr>c_nextLink := Suc l\<rparr>) out result) (c\<lparr>c_nextLink := Suc l\<rparr>)"
  define c3 where "c3 = applySession result c2"
  define c4 where "c4 = updLink l (\<lambda>k. k\<lparr>l_quotaGen := quota_generation (c_quota c3),
    l_idGen := idAllocator_generation (c_ids c3)\<rparr>) c3"
  obtain ios1 c5 where r5: "replaySession l ios c4 = (ios1, c5)" by fastforce
  obtain ws1 c6 where r6: "replaySubscriptions l ios1 c5 = (ws1, c6)" by fastforce
  have acc: "accounts_inv c limit reqs" and lnk: "links_inv c" using assms(1) by (simp_all add: session_inv_def)
  have "accounts_inv c2 limit reqs" using acc accounts_inv_cong[of c2 c] by (simp add: c2_def updLink_def)
  then have "accounts_inv c3 (sessionLimit result c2) reqs" unfolding c3_def
    by (rule applySession_inv) (use assms(3) in \<open>simp add: c2_def updLink_def\<close>)
  moreover have "sessionLimit result c2 = sessionLimit result c"
    by (simp add: sessionLimit_def applySession_def c2_def updLink_def Let_def)
  ultimately have a4: "accounts_inv c4 (sessionLimit result c) reqs"
    using accounts_inv_cong[of c4 c3] by (simp add: c4_def updLink_def)
  have k5: "keeps c4 c5" using replayMessages_keeps[of c4 l "memStore_All (c_store c4)" ios] r5 by (simp add: replaySession_def)
  note R = resubscribe_inv[OF keeps_accounts[OF a4 k5] r6[unfolded replaySubscriptions_def]]
  have L: "linksKept c4 c6" using linksKept_trans[OF keeps_kept[OF k5]] R by blast
  then have gen: "qu_gen (c_quota c6) = qu_gen (c_quota c) + 1"
    by (simp add: linksKept_def c4_def c3_def c2_def applySession_def updLink_def quota_defs Let_def)
  have old: "l_stopped (c_links c k)" if "k < l" for k
    using lnk that assms(2) unfolding links_inv_def l_def by (metis option.distinct(1))
  have c4: "c_link c4 = None" "c_nextLink c4 = Suc l" "linkGens (c_links c4 l) = (qu_gen (c_quota c4), ia_gen (c_ids c4))"
      "\<And>k. k < l \<Longrightarrow> c_links c4 k = c_links c k"
    using assms(2) by (simp_all add: c4_def c3_def c2_def updLink_def linkGens_def quota_generation_def idAllocator_generation_def)
  have live: "k = l \<and> linkGens (c_links c6 k) = (qu_gen (c_quota c6), ia_gen (c_ids c6))"
    if "k < Suc l" "\<not> l_stopped (c_links c6 k)" for k
  proof -
    from L that(2) have n: "\<not> l_stopped (c_links c4 k)" "linkGens (c_links c6 k) = linkGens (c_links c4 k)"
      by (simp_all add: linksKept_def linksShrink_def)
    then have "k = l" using old[of k] c4(4)[of k] that(1) by (metis less_Suc_eq)
    with n c4(3) L show ?thesis by (simp add: linksKept_def)
  qed
  have c6: "c_link c6 = None" "c_nextLink c6 = Suc l" using L c4 by (auto simp: linksKept_def linksShrink_def)
  show ?thesis
  proof (cases "isStopping l c6")
    case True
    then have c': "c' = c6" "ws = ws1"
      using assms(4) r5 r6 unfolding establish_def Let_def l_def[symmetric] c2_def[symmetric] c3_def[symmetric] c4_def[symmetric]
      by simp_all
    have "links_inv c6" unfolding links_inv_def c6 using live True by (metis isStopping_def option.distinct(1))
    then show ?thesis using R gen by (simp add: session_inv_def c')
  next
    case False
    then have c': "c' = c6\<lparr>c_result := Some result, c_link := Some l\<rparr>" "ws = ws1"
      using assms(4) r5 r6 unfolding establish_def Let_def l_def[symmetric] c2_def[symmetric] c3_def[symmetric] c4_def[symmetric]
      by simp_all
    have "links_inv c'" unfolding links_inv_def c' using live c6 by auto
    moreover have "accounts_inv c' (sessionLimit result c) (reqs \<union> (\<lambda>(i, g, _). (i, g)) ` set ws1)"
      using R accounts_inv_cong[of c' c6] by (simp add: c'(1))
    ultimately show ?thesis using gen by (simp add: session_inv_def c')
  qed
qed

section \<open>The system\<close>

record sessionSys =
  ss_c :: TCPClient
  ss_limit :: int
  ss_reqs :: "(uint16 \<times> uint64) set"

text \<open>The session that \<^verbatim>\<open>Connect\<close> negotiated, if it came that far.\<close>

definition accepted :: "connectEnv \<Rightarrow> TCPClient \<Rightarrow> ConnectResult option" where
  "accepted env c =
     (if c_link c \<noteq> None \<or> ce_url env \<noteq> None \<or> willCheck (c_cfg c) \<noteq> Inr () \<or> ce_dial env \<noteq> None then None
      else case snd (handshake (c_cfg c) (c_inboundMax c) env) of
        Inr (ack, _) \<Rightarrow> Some (buildConnectResult ack)
      | Inl _ \<Rightarrow> None)"

lemma Connect_accepted:
  "(case accepted env c of
      None \<Rightarrow> \<exists>e. TCPClient_Connect env c = ((Some e, []), c)
    | Some result \<Rightarrow> c_link c = None \<and> (\<exists>out. TCPClient_Connect env c = establish out result (ce_ios env) c))"
  by (cases "handshake (c_cfg c) (c_inboundMax c) env"; cases "willCheck (c_cfg c)")
     (auto simp: accepted_def TCPClient_Connect_def split: option.split sum.split prod.split)

text \<open>
  One step of the system: an application call up to its wait, the end of a wait, one round of a
  loop, or a (re)connect. Calls may use any link, also one that was replaced while they waited.
  The reader of a link handles a frame only if the link has not stopped. A reconnect assumes that
  the 64-bit generation does not come round to one that a pending request still holds.
\<close>

inductive quiet_step :: "sessionSys \<Rightarrow> sessionSys \<Rightarrow> bool" where
  publish: "TCPClient_Publish topic payload qos retain opts io (ss_c s) = (pr, c') \<Longrightarrow>
    quiet_step s (s\<lparr>ss_c := c'\<rparr>)"
| resume: "publishAcked_send l pkt io (ss_c s) = (sr, c') \<Longrightarrow> quiet_step s (s\<lparr>ss_c := c'\<rparr>)"
| published: "publishAcked_finish ident ch how (ss_c s) = (err, c') \<Longrightarrow> quiet_step s (s\<lparr>ss_c := c'\<rparr>)"
| subscribe: "TCPClient_Subscribe_send flt qos h sopts io (ss_c s) = (r, c') \<Longrightarrow>
    quiet_step s (s\<lparr>ss_c := c', ss_reqs := ss_reqs s \<union> pendingSub r\<rparr>)"
| unsubscribe: "TCPClient_Unsubscribe_send flt io (ss_c s) = (r, c') \<Longrightarrow>
    quiet_step s (s\<lparr>ss_c := c', ss_reqs := ss_reqs s \<union> pendingSub r\<rparr>)"
| subscribed: "(spd_ident pd, spd_gen pd) \<in> ss_reqs s \<Longrightarrow>
    TCPClient_Subscribe_finish flt pd how (ss_c s) = (r', c') \<Longrightarrow>
    quiet_step s (s\<lparr>ss_c := c', ss_reqs := ss_reqs s - {(spd_ident pd, spd_gen pd)}\<rparr>)"
| unsubscribed: "(spd_ident pd, spd_gen pd) \<in> ss_reqs s \<Longrightarrow>
    TCPClient_Unsubscribe_finish flt pd how (ss_c s) = (err, c') \<Longrightarrow>
    quiet_step s (s\<lparr>ss_c := c', ss_reqs := ss_reqs s - {(spd_ident pd, spd_gen pd)}\<rparr>)"
| resubscribed: "(ident, gen) \<in> ss_reqs s \<Longrightarrow>
    quiet_step s (s\<lparr>ss_c := awaitResubscribe ident gen ch res (ss_c s), ss_reqs := ss_reqs s - {(ident, gen)}\<rparr>)"
| answer: "publishEnter l f io (ss_c s) = Inl (b, c') \<Longrightarrow> quiet_step s (s\<lparr>ss_c := c'\<rparr>)"
| deliver: "publishEnter l f io (ss_c s) = Inr (pub, hs, c') \<Longrightarrow> quiet_step s (s\<lparr>ss_c := c'\<rparr>)"
| delivered: "publishLeave l pub io (ss_c s) = (b, c') \<Longrightarrow> quiet_step s (s\<lparr>ss_c := c'\<rparr>)"
| malformed: "quiet_step s (s\<lparr>ss_c := protocolError l reason io (ss_c s)\<rparr>)"
| lost: "quiet_step s (s\<lparr>ss_c := teardownLink l graceful (ss_c s)\<rparr>)"
| tick: "keepAlive_tick l io (ss_c s) = (b, c') \<Longrightarrow> quiet_step s (s\<lparr>ss_c := c'\<rparr>)"
| disconnect: "quiet_step s (s\<lparr>ss_c := TCPClient_Disconnect io (ss_c s)\<rparr>)"
| connect: "ia_gen (c_ids (ss_c s)) + 1 \<notin> snd ` ss_reqs s \<Longrightarrow>
    TCPClient_Connect cenv (ss_c s) = ((err, ws), c') \<Longrightarrow>
    limit' = (case accepted cenv (ss_c s) of None \<Rightarrow> ss_limit s | Some result \<Rightarrow> sessionLimit result (ss_c s)) \<Longrightarrow>
    quiet_step s (s\<lparr>ss_c := c', ss_limit := limit',
      ss_reqs := ss_reqs s \<union> (\<lambda>(i, g, _). (i, g)) ` set ws\<rparr>)"

text \<open>All steps: those above, and the handling of a frame other than a PUBLISH by the reader of a link.\<close>

inductive session_step :: "sessionSys \<Rightarrow> sessionSys \<Rightarrow> bool" where
  quiet: "quiet_step s s' \<Longrightarrow> session_step s s'"
| frame: "l < c_nextLink (ss_c s) \<Longrightarrow> \<not> isStopping l (ss_c s) \<Longrightarrow> packetType (Header f) \<noteq> Publish \<Longrightarrow>
    handleFrame l f env (ss_c s) = (b, c') \<Longrightarrow> session_step s (s\<lparr>ss_c := c'\<rparr>)"

definition sys_inv :: "sessionSys \<Rightarrow> bool" where
  "sys_inv s \<longleftrightarrow> session_inv (ss_c s) (ss_limit s) (ss_reqs s)"

lemma keeps_published: "keeps c (snd (publishAcked_finish i ch how c))"
  by (auto simp: publishAcked_finish_def split: sum.split option.split intro: keeps_waiters)

lemma Connect_inv:
  assumes "session_inv c limit reqs" "ia_gen (c_ids c) + 1 \<notin> snd ` reqs"
    and "TCPClient_Connect env c = ((err, ws), c')"
  shows "session_inv c' (case accepted env c of None \<Rightarrow> limit | Some result \<Rightarrow> sessionLimit result c)
    (reqs \<union> (\<lambda>(i, g, _). (i, g)) ` set ws)" "c' = c \<or> qu_gen (c_quota c') = qu_gen (c_quota c) + 1"
proof -
  have "session_inv c' (case accepted env c of None \<Rightarrow> limit | Some result \<Rightarrow> sessionLimit result c)
    (reqs \<union> (\<lambda>(i, g, _). (i, g)) ` set ws) \<and> (c' = c \<or> qu_gen (c_quota c') = qu_gen (c_quota c) + 1)"
  proof (cases "accepted env c")
    case None
    then show ?thesis using Connect_accepted[of env c] assms(1,3) by auto
  next
    case (Some result)
    then obtain out where "c_link c = None" "establish out result (ce_ios env) c = ((err, ws), c')"
      using Connect_accepted[of env c] assms(3) by auto
    from establish_inv[OF assms(1) this(1) assms(2) this(2)] Some show ?thesis by simp
  qed
  then show "session_inv c' (case accepted env c of None \<Rightarrow> limit | Some result \<Rightarrow> sessionLimit result c)
    (reqs \<union> (\<lambda>(i, g, _). (i, g)) ` set ws)" "c' = c \<or> qu_gen (c_quota c') = qu_gen (c_quota c) + 1" by blast+
qed

lemma sys_inv_quiet:
  assumes "quiet_step s s'" "sys_inv s"
  shows "sys_inv s'"
proof -
  have I: "session_inv (ss_c s) (ss_limit s) (ss_reqs s)" using assms(2) by (simp add: sys_inv_def)
  note K = session_inv_keeps[OF I]
  from assms(1) have "session_inv (ss_c s') (ss_limit s') (ss_reqs s')"
  proof cases
    case (publish topic payload qos retain opts io pr c')
    then show ?thesis using TCPClient_Publish_inv[OF I, of topic payload qos retain opts io] by simp
  next
    case (resume l pkt io sr c')
    then show ?thesis using publishAcked_send_inv[OF I, of l pkt io] by simp
  next
    case (published ident ch how err c')
    then show ?thesis using K[OF keeps_published, of ident ch how] by simp
  next
    case (subscribe flt qos h sopts io r c')
    then show ?thesis using Subscribe_send_inv[OF I] by simp
  next
    case (unsubscribe flt io r c')
    then show ?thesis using Unsubscribe_send_inv[OF I] by simp
  next
    case (subscribed pd flt how r' c')
    then show ?thesis using Subscribe_finish_inv(1)[OF I, of pd flt how] by simp
  next
    case (unsubscribed pd flt how err c')
    then show ?thesis using Subscribe_finish_inv(2)[OF I, of pd flt how] by simp
  next
    case (resubscribed ident gen ch res)
    then show ?thesis using requestAck_finish_inv(2)[OF I] by simp
  next
    case (connect cenv err ws c' limit')
    then show ?thesis using Connect_inv(1)[OF I] by simp
  next
    case (answer l f io b c')
    then show ?thesis using K[OF keeps_publishEnter(1)] by simp
  next
    case (deliver l f io pub hs c')
    then show ?thesis using K[OF keeps_publishEnter(2)] by simp
  next
    case (delivered l pub io b c')
    then show ?thesis using K[OF keeps_publishLeave, of l pub io] by simp
  next
    case (tick l io b c')
    then show ?thesis using K[OF keeps_tick, of l io] by simp
  qed (simp_all add: K keeps_sends keeps_teardownLink keeps_Disconnect)
  then show ?thesis by (simp add: sys_inv_def)
qed

lemma sys_inv_step:
  assumes "session_step s s'" "sys_inv s"
  shows "sys_inv s'"
  using assms(1)
proof cases
  case quiet
  then show ?thesis using sys_inv_quiet assms(2) by blast
next
  case (frame l f env b c')
  then show ?thesis using handleFrame_inv[of "ss_c s" "ss_limit s" "ss_reqs s" l f env] assms(2) by (simp add: sys_inv_def)
qed

lemma sys_inv_reachable: "session_step\<^sup>*\<^sup>* s s' \<Longrightarrow> sys_inv s \<Longrightarrow> sys_inv s'"
  by (induction rule: rtranclp_induct) (auto intro: sys_inv_step)

definition newSession :: "TCPConfig \<Rightarrow> sessionSys" where
  "newSession cfg = \<lparr>ss_c = NewTCPClient cfg, ss_limit = 0, ss_reqs = {}\<rparr>"

lemma sys_inv_new: "sys_inv (newSession cfg)"
  by (simp add: sys_inv_def newSession_def session_inv_def accounts_inv_def client_wf_def links_inv_def reqIDs_def
      NewTCPClient_def newQuota_def case_prod_beta)

text \<open>
  What the invariant says of the accounts. \<open>Mqtt_Stall\<close> adds publishes that stall in the middle and
  states it for every run.
\<close>

lemma sys_inv_conserves:
  assumes "sys_inv s"
  shows "qu_avail (c_quota (ss_c s)) + inflightPermits (c_store (ss_c s)) = ss_limit s \<and>
    0 \<le> qu_avail (c_quota (ss_c s)) \<and> inj_on fst (outKeys (c_store (ss_c s))) \<and>
    usedIDs (c_ids (ss_c s)) = fst ` outKeys (c_store (ss_c s)) \<union> reqIDs (ss_reqs s) (ss_c s) \<and>
    fst ` outKeys (c_store (ss_c s)) \<inter> reqIDs (ss_reqs s) (ss_c s) = {}"
proof -
  have "accounts_inv (ss_c s) (ss_limit s) (ss_reqs s)" using assms by (simp add: sys_inv_def session_inv_def)
  note I = accounts_invD[OF this]
  then have e: "inflightPermits (c_store (ss_c s)) = int (card (outKeys (c_store (ss_c s))))"
    by (simp add: client_wf_def inflightPermits_card)
  show ?thesis unfolding e using I by (intro conjI)
qed

section \<open>An accepted connect\<close>

text \<open>A connect that a broker accepts with a Receive Maximum of 10.\<close>

definition exampleEnv :: connectEnv where
  "exampleEnv = \<lparr>ce_url = None, ce_dial = None, ce_flush = None,
     ce_reader = \<lparr>r_bytes = [0x20, 0x09] @ exampleConnack, r_err = IoEOF\<rparr>,
     ce_ctx = None, ce_aborted = None, ce_ios = []\<rparr>"

definition exampleConnected :: TCPClient where
  "exampleConnected = snd (TCPClient_Connect exampleEnv (NewTCPClient exampleConfig))"

lemma NewTCPClient_simps [simp]:
  "c_cfg (NewTCPClient cfg) = fst (NewTCPClient_cfg cfg)" "c_inboundMax (NewTCPClient cfg) = snd (NewTCPClient_cfg cfg)"
  "c_link (NewTCPClient cfg) = None" "c_store (NewTCPClient cfg) = newMemStore"
  by (simp_all add: NewTCPClient_def case_prod_beta)

lemma sessionLimit_new: "sessionLimit r (NewTCPClient cfg) = max (quotaSize (fst (NewTCPClient_cfg cfg)) r) 0"
proof -
  have "inflightPermits newMemStore = 0" "inflightPermits (memStore_Reset newMemStore) = 0"
    by (simp_all add: inflightPermits_card)
  then show ?thesis by (simp add: sessionLimit_def applySession_def Let_def)
qed

lemma exampleEnv_accepted:
  obtains r where "accepted exampleEnv (NewTCPClient exampleConfig) = Some r"
    "sessionLimit r (NewTCPClient exampleConfig) = 10" "quotaSize (fst (NewTCPClient_cfg exampleConfig)) r = 10"
proof -
  have "case snd (handshake (fst (NewTCPClient_cfg exampleConfig)) (snd (NewTCPClient_cfg exampleConfig)) exampleEnv) of
      Inl _ \<Rightarrow> False | Inr (ack, _) \<Rightarrow> quotaSize (fst (NewTCPClient_cfg exampleConfig)) (buildConnectResult ack) = 10"
    by code_simp
  with that show ?thesis
    by (auto simp: accepted_def sessionLimit_new exampleEnv_def willCheck_def NewTCPClient_cfg_def exampleConfig_def Let_def
        split: sum.splits prod.splits)
qed

lemma example_connect:
  obtains ws :: "(uint16 \<times> uint64 \<times> nat) list" where "quiet_step (newSession exampleConfig)
    \<lparr>ss_c = exampleConnected, ss_limit = 10, ss_reqs = (\<lambda>(i, g, _). (i, g)) ` set ws\<rparr>"
proof -
  let ?c0 = "NewTCPClient exampleConfig"
  obtain r where r: "accepted exampleEnv ?c0 = Some r" "sessionLimit r ?c0 = 10" by (rule exampleEnv_accepted)
  obtain err ws where f: "TCPClient_Connect exampleEnv ?c0 = ((err, ws), exampleConnected)"
    by (metis exampleConnected_def prod.collapse)
  have lim: "10 = (case accepted exampleEnv (ss_c (newSession exampleConfig)) of
      None \<Rightarrow> ss_limit (newSession exampleConfig) | Some r \<Rightarrow> sessionLimit r (ss_c (newSession exampleConfig)))"
    using r by (simp add: newSession_def)
  have "quiet_step (newSession exampleConfig) ((newSession exampleConfig)\<lparr>ss_c := exampleConnected, ss_limit := 10,
      ss_reqs := ss_reqs (newSession exampleConfig) \<union> (\<lambda>(i, g, _). (i, g)) ` set ws\<rparr>)"
    by (rule quiet_step.connect[OF _ _ lim]) (use f in \<open>simp_all add: newSession_def\<close>)
  then show ?thesis using that[of ws] f by (simp add: newSession_def)
qed

section \<open>A resumed session above the ceiling\<close>

text \<open>
  A session is resumed under a Receive Maximum below the number of its unacknowledged messages. The
  quota starts at zero, but every replayed exchange returns a permit it never took from this
  quota, so the quota ends above the ceiling the broker announced.
\<close>

lemma releases_avail:
  "qu_avail ((releaseAt (qu_gen q) ^^ n) q) = qu_avail q + int n \<and> qu_gen ((releaseAt (qu_gen q) ^^ n) q) = qu_gen q"
  by (induction n) (simp_all add: releaseAt_def broadcast_def Let_def)

lemma resumed_quota_overrun:
  assumes "\<not> cfg_CleanStart (c_cfg c)" "c_version c \<noteq> V50 \<or> cfg_SessionExpirySeconds (c_cfg c) \<noteq> 0"
    and "cr_SessionPresent result" "inflightPermits (c_store c) = int n" "quotaSize (c_cfg c) result < int n"
  defines "q \<equiv> c_quota (applySession result c)"
  shows "quotaSize (c_cfg c) result < qu_avail ((releaseAt (quota_generation q) ^^ n) q)"
proof -
  have "qu_avail q = 0" using assms(1-5) unfolding q_def by (auto simp: applySession_def quota_reset_def broadcast_def Let_def)
  then show ?thesis using releases_avail[of n q] assms(5) by (simp add: quota_generation_def)
qed

end
