(* ===== verification/Mqtt_Exchange.thy ===== *)
theory Mqtt_Exchange
  imports Mqtt_Pump
begin

text \<open>
  The sender's side of a QoS 1 or 2 message, from \<^verbatim>\<open>publishAcked\<close> to its result: the session store and
  the read loop implement a small state machine per packet identifier, and the caller that waits
  receives the outcome of its own exchange, once, and no other.
\<close>

section \<open>The machine of one exchange\<close>

datatype exchange = NoExchange | AwaitAck | AwaitComp

datatype ackEvent =
    EvPuback uint16 ReasonCode gostring
  | EvPubrec uint16 ReasonCode gostring
  | EvPubcomp uint16 ReasonCode gostring
  | EvOther

type_synonym outcome = "(ReasonCode \<times> gostring) option"

text \<open>A PUBACK or PUBCOMP ends the exchange, a PUBREC with a failure as well; a PUBREC with success is the middle of QoS 2.\<close>

fun exchangeStep :: "uint16 \<Rightarrow> exchange \<Rightarrow> ackEvent \<Rightarrow> exchange \<times> outcome" where
  "exchangeStep j AwaitAck (EvPuback i code reason) =
     (if i = j then (NoExchange, Some (code, reason)) else (AwaitAck, None))"
| "exchangeStep j AwaitAck (EvPubrec i code reason) =
     (if i \<noteq> j then (AwaitAck, None)
      else if IsError code then (NoExchange, Some (code, reason)) else (AwaitComp, None))"
| "exchangeStep j AwaitComp (EvPubcomp i code reason) =
     (if i = j then (NoExchange, Some (code, reason)) else (AwaitComp, None))"
| "exchangeStep j x _ = (x, None)"

text \<open>The state after events none of which ends the exchange.\<close>

fun exchangeRun :: "uint16 \<Rightarrow> exchange \<Rightarrow> ackEvent list \<Rightarrow> exchange option" where
  "exchangeRun j x [] = Some x"
| "exchangeRun j x (e # es) =
     (case exchangeStep j x e of (x', None) \<Rightarrow> exchangeRun j x' es | (_, Some _) \<Rightarrow> None)"

definition ackEvent :: "Version \<Rightarrow> Frame \<Rightarrow> ackEvent" where
  "ackEvent v f =
     (let t = packetType (Header f) in
      if t \<in> {Puback, Pubrec, Pubcomp} then
        (case DecodeAck v t (Body f) of
           Inl _ \<Rightarrow> EvOther
         | Inr ack \<Rightarrow>
             let mk = (if t = Puback then EvPuback else if t = Pubrec then EvPubrec else EvPubcomp)
             in mk (ack_PacketID ack) (ack_ReasonCode ack) (reasonStringOf (ack_Properties ack)))
      else EvOther)"

definition exchangeOf :: "uint16 \<Rightarrow> TCPClient \<Rightarrow> exchange" where
  "exchangeOf j c =
     (if storeContains j StoredPublish c then AwaitAck
      else if storeContains j StoredPubrel c then AwaitComp else NoExchange)"

definition oneLeg :: "uint16 \<Rightarrow> TCPClient \<Rightarrow> bool" where
  "oneLeg j c \<longleftrightarrow> \<not> (storeContains j StoredPublish c \<and> storeContains j StoredPubrel c)"

section \<open>The waiting caller\<close>

definition waits :: "uint16 \<Rightarrow> nat \<Rightarrow> TCPClient \<Rightarrow> bool" where
  "waits j ch c \<longleftrightarrow>
     map_of (c_waiters c) j = Some \<lparr>w_ch = ch, w_want = ackClassPublish\<rparr> \<and> c_chans c ch = None \<and>
     (\<forall>i w. i \<noteq> j \<longrightarrow> map_of (c_waiters c) i = Some w \<longrightarrow> w_ch w \<noteq> ch)"

text \<open>Concurrent activity that leaves this exchange and its waiter alone.\<close>

definition keepsWait :: "uint16 \<Rightarrow> nat \<Rightarrow> (TCPClient \<Rightarrow> TCPClient) \<Rightarrow> bool" where
  "keepsWait j ch f \<longleftrightarrow>
     (\<forall>c. storeContains j StoredPublish (f c) = storeContains j StoredPublish c \<and>
          storeContains j StoredPubrel (f c) = storeContains j StoredPubrel c \<and>
          c_cfg (f c) = c_cfg c \<and> (waits j ch c \<longrightarrow> waits j ch (f c)))"

text \<open>The part of the client this section speaks about.\<close>

definition sameWait :: "TCPClient \<Rightarrow> TCPClient \<Rightarrow> bool" where
  "sameWait c c' \<longleftrightarrow> c_store c' = c_store c \<and> c_waiters c' = c_waiters c \<and> c_chans c' = c_chans c \<and> c_cfg c' = c_cfg c"

lemma sameWait_simps:
  "sameWait c c' \<Longrightarrow> storeContains i k c' = storeContains i k c" "sameWait c c' \<Longrightarrow> exchangeOf i c' = exchangeOf i c"
  "sameWait c c' \<Longrightarrow> waits j ch c' = waits j ch c" "sameWait c c' \<Longrightarrow> c_cfg c' = c_cfg c"
  "sameWait c c' \<Longrightarrow> c_chans c' = c_chans c"
  by (simp_all add: sameWait_def storeContains_def exchangeOf_def waits_def)

lemma sameWait_sends [simp]:
  "sameWait c (snd (writeFrame l e None c))" "sameWait c (sendAckReason l t i rc None c)"
  "sameWait c (sendAck l t i None c)"
  by (simp_all add: sameWait_def sendAckReason_def sendAck_def writeFrame_def updLink_def split: sum.split)

lemma exchange_delete:
  "storeContains i k (c\<lparr>c_store := memStore_Delete j k' (c_store c)\<rparr>) \<longleftrightarrow> \<not> (i = j \<and> k = k') \<and> storeContains i k c"
  "storeContains i k (c\<lparr>c_store := memStore_Save m (c_store c)\<rparr>) \<longleftrightarrow>
     (i = sm_ID m \<and> k = sm_Kind m) \<or> storeContains i k c"
  by (auto simp: storeContains_def)

lemma signalWaiter_waits:
  assumes "waits j ch c"
  shows "i \<noteq> j \<or> k \<noteq> ackClassPublish \<Longrightarrow> waits j ch (snd (signalWaiter i k r c))"
    "c_chans (snd (signalWaiter j ackClassPublish r c)) ch = Some r"
  using assms
  by (auto simp: waits_def signalWaiter_def trySend_def delete_conv' split: option.split)


text \<open>What one frame must do to an exchange and its waiter.\<close>

definition resolves :: "uint16 \<Rightarrow> nat \<Rightarrow> exchange \<times> outcome \<Rightarrow> TCPClient \<Rightarrow> bool" where
  "resolves j ch r c \<longleftrightarrow>
     exchangeOf j c = fst r \<and> oneLeg j c \<and>
     (case snd r of
        None \<Rightarrow> waits j ch c
      | Some (code, reason) \<Rightarrow> c_chans c ch = Some \<lparr>ar_err = None, ar_reason = reason, ar_code = code\<rparr>)"

lemma resolves_same: "waits j ch c \<Longrightarrow> oneLeg j c \<Longrightarrow> resolves j ch (exchangeOf j c, None) c"
  by (simp add: resolves_def)

lemma sameWait_resolves: "sameWait c c' \<Longrightarrow> resolves j ch r c \<Longrightarrow> resolves j ch r c'"
  by (auto simp: resolves_def oneLeg_def sameWait_simps split: option.splits)

lemma waits_store [simp]: "waits j ch (c\<lparr>c_store := s\<rparr>) = waits j ch c"
  by (simp add: waits_def)

lemma releaseExchange_waits [simp]: "waits j ch (releaseExchange l i k c) = waits j ch c"
  by (simp add: waits_def releaseExchange_def Let_def)

lemma releaseExchange_contains [simp]:
  "storeContains i k (releaseExchange l i' k' c) \<longleftrightarrow> \<not> (i = i' \<and> k = k') \<and> storeContains i k c"
  by (auto simp: storeContains_def)

lemma signalWaiter_contains [simp]: "storeContains i k (snd (signalWaiter i' k' r c)) = storeContains i k c"
  by (simp add: storeContains_def)

text \<open>The end of an exchange, of this identifier or of another.\<close>

lemma release_resolves:
  assumes "waits j ch c" "oneLeg j c" "storeContains i k c" "k = StoredPublish \<or> k = StoredPubrel"
  shows "resolves j ch (if i = j then (NoExchange, Some (code, reason)) else (exchangeOf j c, None))
    (snd (signalWaiter i ackClassPublish \<lparr>ar_err = None, ar_reason = reason, ar_code = code\<rparr> (releaseExchange l i k c)))"
proof (cases "i = j")
  case True
  then show ?thesis
    using assms signalWaiter_waits(2)[of j ch "releaseExchange l i k c"]
    by (auto simp: resolves_def exchangeOf_def oneLeg_def)
next
  case False
  then show ?thesis
    using assms(1,2) signalWaiter_waits(1)[of j ch "releaseExchange l i k c" i ackClassPublish]
    by (auto simp: resolves_def exchangeOf_def oneLeg_def)
qed

lemma handlePubrec_resolves:
  assumes "waits j ch c" "oneLeg j c"
  shows "resolves j ch (exchangeStep j (exchangeOf j c) (EvPubrec (ack_PacketID ack) (ack_ReasonCode ack) reason))
    (handlePubrec l ack reason None c)"
proof -
  let ?i = "ack_PacketID ack"
  consider (abort) "storeContains ?i StoredPublish c" "IsError (ack_ReasonCode ack)"
    | (advance) "storeContains ?i StoredPublish c" "\<not> IsError (ack_ReasonCode ack)"
    | (again) "\<not> storeContains ?i StoredPublish c" by blast
  then show ?thesis
  proof cases
    case abort
    then show ?thesis
      using release_resolves[OF assms abort(1), of "ack_ReasonCode ack" reason l] assms(2)
      by (cases "exchangeOf j c") (auto simp: handlePubrec_def Let_def exchangeOf_def oneLeg_def split: if_splits)
  next
    case advance
    let ?c = "c\<lparr>c_store := memStore_Delete ?i StoredPublish (memStore_Save (idOnly ?i StoredPubrel) (c_store c))\<rparr>"
    have ct: "storeContains i k ?c \<longleftrightarrow> \<not> (i = ?i \<and> k = StoredPublish) \<and> ((i = ?i \<and> k = StoredPubrel) \<or> storeContains i k c)" for i k
      by (simp add: storeContains_def)
    have "resolves j ch (exchangeStep j (exchangeOf j c) (EvPubrec ?i (ack_ReasonCode ack) reason)) ?c"
      using advance assms
      by (cases "?i = j"; cases "exchangeOf j c") (auto simp: resolves_def ct exchangeOf_def oneLeg_def split: if_splits)
    then show ?thesis
      using advance sameWait_resolves[OF sameWait_sends(3)] by (simp add: handlePubrec_def Let_def)
  next
    case again
    have "exchangeStep j (exchangeOf j c) (EvPubrec ?i (ack_ReasonCode ack) reason) = (exchangeOf j c, None)"
      using again by (cases "exchangeOf j c") (auto simp: exchangeOf_def split: if_splits)
    then show ?thesis
      using again sameWait_resolves[OF _ resolves_same[OF assms]] by (simp add: handlePubrec_def Let_def)
  qed
qed

lemma completeOutbound_resolves:
  assumes "waits j ch c" "oneLeg j c"
  shows "resolves j ch (exchangeStep j (exchangeOf j c) (EvPuback i code reason))
      (completeOutbound l i StoredPublish \<lparr>ar_err = None, ar_reason = reason, ar_code = code\<rparr> c)"
    "resolves j ch (exchangeStep j (exchangeOf j c) (EvPubcomp i code reason))
      (completeOutbound l i StoredPubrel \<lparr>ar_err = None, ar_reason = reason, ar_code = code\<rparr> c)"
proof -
  have "exchangeStep j (exchangeOf j c) (EvPuback i code reason) =
      (if storeContains i StoredPublish c \<and> i = j then (NoExchange, Some (code, reason)) else (exchangeOf j c, None))"
    "exchangeStep j (exchangeOf j c) (EvPubcomp i code reason) =
      (if storeContains i StoredPubrel c \<and> i = j then (NoExchange, Some (code, reason)) else (exchangeOf j c, None))"
    using assms(2) by (auto simp: exchangeOf_def oneLeg_def)
  then show "resolves j ch (exchangeStep j (exchangeOf j c) (EvPuback i code reason))
      (completeOutbound l i StoredPublish \<lparr>ar_err = None, ar_reason = reason, ar_code = code\<rparr> c)"
    "resolves j ch (exchangeStep j (exchangeOf j c) (EvPubcomp i code reason))
      (completeOutbound l i StoredPubrel \<lparr>ar_err = None, ar_reason = reason, ar_code = code\<rparr> c)"
    using release_resolves[OF assms, of i _ code reason l] resolves_same[OF assms]
    by (auto simp: completeOutbound_def)
qed

lemma keepsWaitD:
  assumes "keepsWait j ch f"
  shows "exchangeOf j (f c) = exchangeOf j c" "oneLeg j (f c) = oneLeg j c" "c_cfg (f c) = c_cfg c"
    "waits j ch c \<Longrightarrow> waits j ch (f c)"
proof -
  note k = assms[unfolded keepsWait_def, rule_format, of c]
  then show "exchangeOf j (f c) = exchangeOf j c" "oneLeg j (f c) = oneLeg j c" "c_cfg (f c) = c_cfg c"
    "waits j ch c \<Longrightarrow> waits j ch (f c)"
    by (simp_all add: exchangeOf_def oneLeg_def)
qed

lemma save_inbound [simp]:
  "exchangeOf j (c\<lparr>c_store := memStore_Save (idOnly i StoredInboundID) (c_store c)\<rparr>) = exchangeOf j c"
  "oneLeg j (c\<lparr>c_store := memStore_Save (idOnly i StoredInboundID) (c_store c)\<rparr>) = oneLeg j c"
  "exchangeOf j (c\<lparr>c_store := memStore_Delete i StoredInboundID (c_store c)\<rparr>) = exchangeOf j c"
  "oneLeg j (c\<lparr>c_store := memStore_Delete i StoredInboundID (c_store c)\<rparr>) = oneLeg j c"
  by (simp_all add: exchangeOf_def oneLeg_def exchange_delete)

lemma handlePublish_resolves:
  assumes "handlePublish l f env c = (True, c')" "fe_io env = None" "keepsWait j ch (fe_during env)"
    and "waits j ch c" "oneLeg j c"
  shows "resolves j ch (exchangeOf j c, None) c' \<and> c_cfg c' = c_cfg c"
proof -
  define ok where "ok = (\<lambda>d. resolves j ch (exchangeOf j c, None) d \<and> c_cfg d = c_cfg c)"
  have ok_c: "ok c" using resolves_same[OF assms(4,5)] by (simp add: ok_def)
  have same: "ok d'" if "ok d" "sameWait d d'" for d d'
    using that sameWait_resolves[OF that(2)] by (auto simp: ok_def sameWait_def)
  have al: "ok d" if "resolveTopicAlias l pub c = (t, d)" for pub t d
    using that
    by (intro same[OF ok_c]) (auto simp: resolveTopicAlias_def sameWait_def updLink_def split: option.splits if_splits)
  have disp: "ok (dispatch m (fe_during env) d)" if "ok d" for m d
  proof -
    have "sameWait d (d\<lparr>c_calls := cs\<rparr>)" for cs by (simp add: sameWait_def)
    then have "ok (d\<lparr>c_calls := cs\<rparr>)" for cs using same[OF that] by blast
    moreover have "ok (fe_during env x)" if "ok x" for x
      using that keepsWaitD[OF assms(3), of x] by (simp add: ok_def resolves_def)
    ultimately show ?thesis using that by (simp add: dispatch_def Let_def)
  qed
  have save: "ok (d\<lparr>c_store := memStore_Save (idOnly i StoredInboundID) (c_store d)\<rparr>)" if "ok d" for i d
    using that by (simp add: ok_def resolves_def)
  have send: "ok (sendAck l t i None d)" if "ok d" for t i d using same[OF that] by simp
  have "ok c'"
    using assms(1,2)
    by (auto simp: handlePublish_def handleInboundQoS2_def Let_def
        split: sum.splits prod.splits option.splits if_splits
        intro: disp send save al)
  then show ?thesis by (simp add: ok_def)
qed

lemma handleFrame_resolves:
  assumes "handleFrame l f env c = (True, c')" "fe_io env = None" "keepsWait j ch (fe_during env)"
    and "waits j ch c" "oneLeg j c"
  shows "resolves j ch (exchangeStep j (exchangeOf j c) (ackEvent (c_version c) f)) c' \<and> c_cfg c' = c_cfg c"
proof -
  let ?t = "packetType (Header f)"
  note S = resolves_same[OF assms(4,5)]
  have other: "exchangeStep j (exchangeOf j c) EvOther = (exchangeOf j c, None)" by (cases "exchangeOf j c") simp_all
  consider (publish) "?t = Publish" | (ack) "?t \<in> {Puback, Pubrec, Pubcomp}"
    | (other) "?t \<noteq> Publish" "?t \<notin> {Puback, Pubrec, Pubcomp}" by blast
  then show ?thesis
  proof cases
    case publish
    then have "ackEvent (c_version c) f = EvOther" by (simp add: ackEvent_def)
    then show ?thesis
      using handlePublish_resolves[OF _ assms(2-5)] assms(1) publish other by (simp add: handleFrame_def Let_def)
  next
    case ack
    have h: "handleAck l f ?t None c = (True, c')"
      using ack assms(1,2) by (auto simp: handleFrame_def Let_def)
    then obtain a where a: "DecodeAck (c_version c) ?t (Body f) = Inr a"
      by (auto simp: handleAck_def split: sum.splits)
    have cfg: "c_cfg (completeOutbound l i k r c) = c_cfg c" "c_cfg (handlePubrec l a r' None c) = c_cfg c" for i k r r'
      by (simp_all add: completeOutbound_def handlePubrec_def Let_def)
    show ?thesis
      using ack h a completeOutbound_resolves[OF assms(4,5)] handlePubrec_resolves[OF assms(4,5)] cfg
      by (auto simp: handleAck_def ackEvent_def Let_def)
  next
    case o: other
    have u: "sameWait c (updLink l g c)" for g by (simp add: sameWait_def updLink_def)
    have sig: "resolves j ch (exchangeOf j c, None) (snd (signalWaiter i k r c))" if "k \<noteq> ackClassPublish" for i k r
      using assms(4,5) signalWaiter_waits(1)[OF assms(4)] that by (simp add: resolves_def exchangeOf_def oneLeg_def)
    have del: "resolves j ch (exchangeOf j c, None) (c\<lparr>c_store := memStore_Delete i StoredInboundID (c_store c)\<rparr>)" for i
      using assms(4,5) by (simp add: resolves_def)
    have "resolves j ch (exchangeOf j c, None) c' \<and> c_cfg c' = c_cfg c"
      using assms(1,2) o
      by (auto simp: handleFrame_def handleInboundPubrel_def handleSuback_def handleUnsuback_def Let_def
          split: if_splits sum.splits
          intro: sameWait_resolves[OF u S] sig sameWait_resolves[OF sameWait_sends(2) S] sameWait_resolves[OF sameWait_sends(3) del])
    then show ?thesis using o other by (simp add: ackEvent_def)
  qed
qed

section \<open>The outcome of a publish\<close>

lemma handleFrames_resolves:
  assumes "handleFrames l fs env k c = Some c'" "waits j ch c" "oneLeg j c"
    and "\<forall>k. fe_io (env k) = None \<and> keepsWait j ch (fe_before (env k)) \<and> keepsWait j ch (fe_during (env k))"
    and "exchangeRun j (exchangeOf j c) (map (ackEvent (c_version c)) fs) = Some x"
  shows "resolves j ch (x, None) c' \<and> c_cfg c' = c_cfg c"
  using assms(1-3,5)
proof (induction fs arbitrary: k c)
  case Nil
  then show ?case by (simp add: resolves_def)
next
  case (Cons f fs)
  let ?c = "fe_before (env k) c"
  have b: "keepsWait j ch (fe_before (env k))" using assms(4) by blast
  note B = keepsWaitD[OF b, of c]
  obtain c1 where h: "handleFrame l f (env k) ?c = (True, c1)" and rest: "handleFrames l fs env (Suc k) c1 = Some c'"
    using Cons.prems(1) by (auto split: prod.splits bool.splits)
  have R: "resolves j ch (exchangeStep j (exchangeOf j c) (ackEvent (c_version c) f)) c1 \<and> c_cfg c1 = c_cfg c"
    using handleFrame_resolves[OF h, of j ch] assms(4) B Cons.prems(2,3) by simp
  obtain y where y: "exchangeStep j (exchangeOf j c) (ackEvent (c_version c) f) = (y, None)"
    "exchangeRun j y (map (ackEvent (c_version c)) fs) = Some x"
    using Cons.prems(4) by (auto split: prod.splits option.splits)
  have "waits j ch c1" "oneLeg j c1" "exchangeOf j c1 = y" using R y(1) by (simp_all add: resolves_def)
  then show ?case using Cons.IH[OF rest] R y(2) by simp
qed

lemma publishAcked_send_waits:
  assumes "publishAcked_send l pkt io c = (SendWaiting j ch, c')"
    and "\<forall>w \<in> ran (map_of (c_waiters c)). w_ch w < c_nextCh c" "\<not> storeContains j StoredPubrel c"
  shows "waits j ch c'" "exchangeOf j c' = AwaitAck" "oneLeg j c'" "c_cfg c' = c_cfg c"
proof -
  obtain qg q where a: "acquire_try (c_quota c) = (Returned qg None, q)"
    using assms(1) by (auto simp: publishAcked_send_def split: prod.splits acquirer.splits option.splits)
  obtain i ig err ids where A: "Acquire (c_ids c) = ((i, ig, err), ids)" by (metis prod.collapse)
  define c1 where "c1 = c\<lparr>c_quota := q, c_ids := ids,
    c_store := memStore_Save (storedPublish i (pkt\<lparr>pub_PacketID := i\<rparr>)) (c_store c)\<rparr>"
  obtain ch1 c2 where r: "registerWaiter i ackClassPublish c1 = (ch1, c2)" by fastforce
  obtain werr c3 where w: "writeFrame l (PublishPacket_Encode (pkt\<lparr>pub_PacketID := i\<rparr>)) io c2 = (werr, c3)" by fastforce
  have e: "err = None" "werr = None" "i = j" "ch1 = ch" "c3 = c'"
    using assms(1) a A r w
    by (auto simp: publishAcked_send_def c1_def Let_def split: option.splits)
  then have "io = None" using w by (auto simp: writeFrame_def Let_def split: sum.splits option.splits if_splits)
  then have s: "sameWait c2 c'" using sameWait_sends(1)[of c2 l] w e by (metis snd_conv)
  have 2: "c2 = c1\<lparr>c_nextCh := Suc (c_nextCh c), c_chans := (c_chans c)(ch := None),
      c_waiters := AList.update j \<lparr>w_ch = ch, w_want = ackClassPublish\<rparr> (c_waiters c)\<rparr>" "ch = c_nextCh c"
    using r e by (auto simp: registerWaiter_def c1_def Let_def)
  have "waits j ch c2"
    using assms(2) by (auto simp: waits_def 2(1) update_conv' 2(2) ran_def) 
  moreover have "storeContains j StoredPublish c2" "\<not> storeContains j StoredPubrel c2" "c_cfg c2 = c_cfg c"
    using assms(3) e by (simp_all add: 2(1) c1_def storeContains_def storedPublish_def)
  ultimately show "waits j ch c'" "exchangeOf j c' = AwaitAck" "oneLeg j c'" "c_cfg c' = c_cfg c"
    using sameWait_simps[OF s] by (simp_all add: exchangeOf_def oneLeg_def)
qed

text \<open>
  C3: A publish of QoS 1 or 2 returns the broker's verdict on this message. After the PUBLISH was
  sent, let the link handle any frames, with any concurrent activity that leaves this exchange
  alone. As long as none of them ends the exchange the caller keeps waiting; the frame that ends it
  (PUBACK, a failing PUBREC, or PUBCOMP after PUBREC) delivers its reason code, on which
  \<^verbatim>\<open>publishAcked\<close> returns success or the reason error with the broker's code and text, and the
  stored state of the exchange is gone. Acknowledgements of other identifiers or of another kind
  change nothing.
\<close>

theorem publish_outcome:
  assumes "publishAcked_send l pkt io c = (SendWaiting j ch, c0)"
    and "\<forall>w \<in> ran (map_of (c_waiters c)). w_ch w < c_nextCh c" "\<not> storeContains j StoredPubrel c"
    and "handleFrames l fs env 0 c0 = Some c1"
    and "\<forall>k. fe_io (env k) = None \<and> keepsWait j ch (fe_before (env k)) \<and> keepsWait j ch (fe_during (env k))"
    and "exchangeRun j AwaitAck (map (ackEvent (c_version c)) fs) = Some x"
    and "handleFrame l f e c1 = (True, c2)" "fe_io e = None" "keepsWait j ch (fe_during e)"
  shows "case exchangeStep j x (ackEvent (c_version c) f) of
      (x', None) \<Rightarrow> exchangeOf j c2 = x' \<and> c_chans c2 ch = None
    | (x', Some (code, reason)) \<Rightarrow> exchangeOf j c2 = x' \<and>
        (\<exists>res. c_chans c2 ch = Some res \<and> fst (publishAcked_finish j ch (Delivered res) c2) =
          (if IsError code then Some (Rejected \<lparr>re_Packet = str ''PUBLISH'', re_Code = code, re_Reason = reason\<rparr>)
           else None))"
proof -
  note S = publishAcked_send_waits[OF assms(1-3)]
  have R: "resolves j ch (x, None) c1 \<and> c_cfg c1 = c_cfg c"
    using handleFrames_resolves[OF assms(4) S(1,3) assms(5)] assms(6) S(2,4) by simp
  then have "waits j ch c1" "oneLeg j c1" "exchangeOf j c1 = x" by (simp_all add: resolves_def)
  with handleFrame_resolves[OF assms(7-9)] R
  have "resolves j ch (exchangeStep j x (ackEvent (c_version c) f)) c2" by simp
  then show ?thesis
    by (auto simp: resolves_def waits_def publishAcked_finish_def waitAck_def split: prod.splits option.splits
        intro!: exI[of _ "\<lparr>ar_err = None, ar_reason = reason, ar_code = code\<rparr>" for reason code])
qed

text \<open>A QoS 2 publish that gets its PUBREC and then its PUBCOMP.\<close>

definition exampleSender :: TCPClient where
  "exampleSender = exampleClient\<lparr>c_quota := newQuota 5\<rparr>"

definition exampleQoS2 :: PublishPacket where
  "exampleQoS2 = \<lparr>pub_Version = V50, pub_Topic = str ''a'', pub_Payload = [7], pub_QoS = 2, pub_Retain = False,
     pub_Dup = False, pub_PacketID = 0, pub_Properties = None\<rparr>"

definition exampleSent :: TCPClient where
  "exampleSent = exampleSender\<lparr>c_quota := (newQuota 5)\<lparr>qu_avail := 4\<rparr>,
     c_ids := markUsed 1 (newIdAllocator\<lparr>ia_next := 2\<rparr>),
     c_store := memStore_Save (storedPublish 1 (exampleQoS2\<lparr>pub_PacketID := 1\<rparr>)) newMemStore,
     c_nextCh := 1, c_chans := (\<lambda>_. None), c_waiters := [(1, \<lparr>w_ch = 0, w_want = ackClassPublish\<rparr>)],
     c_links := (\<lambda>_. noLink)(0 := noLink\<lparr>l_out := [0x34, 0x07, 0x00, 0x01, 0x61, 0x00, 0x01, 0x00, 0x07]\<rparr>)\<rparr>"

lemma exampleSent_send: "publishAcked_send 0 exampleQoS2 None exampleSender = (SendWaiting 1 0, exampleSent)"
proof -
  have e: "PublishPacket_Encode (exampleQoS2\<lparr>pub_PacketID := 1\<rparr>) [] =
      Inr [0x34, 0x07, 0x00, 0x01, 0x61, 0x00, 0x01, 0x00, 0x07]" by code_simp
  then show ?thesis
    by (simp add: publishAcked_send_def acquire_try_def exampleSender_def exampleClient_def NewTCPClient_def newQuota_def
        Acquire_new registerWaiter_def writeFrame_def updLink_def noLink_def exampleSent_def case_prod_beta Let_def fun_eq_iff)
qed

definition examplePubrec :: Frame where "examplePubrec = \<lparr>Header = 0x50, Body = [0x00, 0x01]\<rparr>"
definition examplePubcomp :: Frame where "examplePubcomp = \<lparr>Header = 0x70, Body = [0x00, 0x01]\<rparr>"

lemma keepsWait_quiet: "keepsWait j ch (fe_before quietEnv)" "keepsWait j ch (fe_during quietEnv)" "fe_io quietEnv = None"
  by (simp_all add: keepsWait_def quietEnv_def)

theorem publish_outcome_witness:
  "\<exists>c1 c2 res. handleFrames 0 [examplePubrec] (\<lambda>_. quietEnv) 0 exampleSent = Some c1 \<and>
     handleFrame 0 examplePubcomp quietEnv c1 = (True, c2) \<and> c_chans c2 0 = Some res \<and>
     fst (publishAcked_finish 1 0 (Delivered res) c2) = None"
proof -
  have "case handleFrames 0 [examplePubrec] (\<lambda>_. quietEnv) 0 exampleSent of
      None \<Rightarrow> False | Some c1 \<Rightarrow> fst (handleFrame 0 examplePubcomp quietEnv c1)" by code_simp
  then obtain c1 c2 where c: "handleFrames 0 [examplePubrec] (\<lambda>_. quietEnv) 0 exampleSent = Some c1"
    "handleFrame 0 examplePubcomp quietEnv c1 = (True, c2)"
    by (auto split: option.splits) (metis prod.collapse)
  have v: "c_version exampleSender = V50" "c_waiters exampleSender = []" "\<not> storeContains 1 StoredPubrel exampleSender"
    by (simp_all add: exampleSender_def exampleClient_def exampleConfig_def NewTCPClient_def NewTCPClient_cfg_def Let_def
        storeContains_def memStore_Contains_def newMemStore_def)
  have ev: "exchangeRun 1 AwaitAck (map (ackEvent V50) [examplePubrec]) = Some AwaitComp"
    "ackEvent V50 examplePubcomp = EvPubcomp 1 0 []" by code_simp+
  show ?thesis
    using publish_outcome[OF exampleSent_send _ _ c(1) _ _ c(2), of AwaitComp] v ev c keepsWait_quiet
    by (simp add: IsError_def)
qed

end
