(* ===== verification/Mqtt_Resume.thy ===== *)
theory Mqtt_Resume
  imports Mqtt_Pump
begin

text \<open>
  Resuming a session: what the client puts on a new connection before anything else, as the broker
  reads it. The session store, the encoders of PUBLISH and PUBREL, the writer of the client and the
  decoders of the wire format meet here.
\<close>

section \<open>What the broker reads\<close>

text \<open>The next \<open>n\<close> packets of a stream, all PUBLISH or PUBREL, with what follows them.\<close>

primrec readReplay :: "nat \<Rightarrow> Version \<Rightarrow> uint32 \<Rightarrow> reader \<Rightarrow> ((PublishPacket + AckPacket) list \<times> reader) option" where
  "readReplay 0 v m r = Some ([], r)"
| "readReplay (Suc n) v m r =
     (case ReadFrame r m of
        Inl _ \<Rightarrow> None
      | Inr (f, r') \<Rightarrow>
          if packetType (Header f) = Publish then
            (case DecodePublish v (Header f) (Body f) of
               Inl _ \<Rightarrow> None
             | Inr p \<Rightarrow> map_option (\<lambda>(xs, r''). (Inl p # xs, r'')) (readReplay n v m r'))
          else if packetType (Header f) = Pubrel then
            (case DecodeAck v Pubrel (Body f) of
               Inl _ \<Rightarrow> None
             | Inr a \<Rightarrow> map_option (\<lambda>(xs, r''). (Inr a # xs, r'')) (readReplay n v m r'))
          else None)"

text \<open>What it should read for a stored entry.\<close>

definition pubrelFor :: "Version \<Rightarrow> StoredMessage \<Rightarrow> AckPacket" where
  "pubrelFor v m = \<lparr>ack_Version = v, ack_Type = Pubrel, ack_PacketID = sm_ID m, ack_ReasonCode = 0, ack_Properties = None\<rparr>"

definition resent :: "Version \<Rightarrow> StoredMessage \<Rightarrow> PublishPacket + AckPacket" where
  "resent v m = (if sm_Kind m = StoredPublish then Inl (canonPublish ((the (sm_Publish m))\<lparr>pub_Dup := True\<rparr>))
     else Inr (canonAck (pubrelFor v m)))"

definition outbound :: "StoredMessage \<Rightarrow> bool" where
  "outbound m \<longleftrightarrow> sm_Kind m = StoredPublish \<or> sm_Kind m = StoredPubrel"

text \<open>
  An entry that can be sent again: an acknowledged PUBLISH that \<^verbatim>\<open>Publish\<close> accepted, or a PUBREL,
  within the size the broker takes.
\<close>

definition replaySound :: "Version \<Rightarrow> uint32 \<Rightarrow> StoredMessage \<Rightarrow> bool" where
  "replaySound v cap m \<longleftrightarrow>
     (sm_Kind m = StoredPublish \<longrightarrow>
        (\<exists>p bs. sm_Publish m = Some p \<and> pub_Version p = v \<and> publishTopicOk p \<and>
           PublishPacket_Encode (p\<lparr>pub_Dup := True\<rparr>) [] = Inr bs \<and> length bs \<le> unat cap)) \<and>
     (sm_Kind m = StoredPubrel \<longrightarrow> (\<exists>bs. EncodeAck (pubrelFor v m) [] = Inr bs \<and> length bs \<le> unat cap))"

definition replayBytes :: "Version \<Rightarrow> StoredMessage \<Rightarrow> byte list" where
  "replayBytes v m =
     (case replayEncoder v m of
        None \<Rightarrow> []
      | Some enc \<Rightarrow> (case enc [] of Inr bs \<Rightarrow> bs | Inl _ \<Rightarrow> []))"

lemma replayBytes_inbound: "\<not> outbound m \<Longrightarrow> replayBytes v m = []"
  by (simp add: replayBytes_def replayEncoder_def outbound_def)

lemma readReplay_one:
  assumes "replaySound v cap m" "outbound m"
  shows "readReplay (Suc n) v cap \<lparr>r_bytes = replayBytes v m @ ys, r_err = e\<rparr> =
    map_option (\<lambda>(xs, r). (resent v m # xs, r)) (readReplay n v cap \<lparr>r_bytes = ys, r_err = e\<rparr>)"
proof (cases "sm_Kind m = StoredPublish")
  case True
  then obtain p bs where p: "sm_Publish m = Some p" "pub_Version p = v" "publishTopicOk p"
      "PublishPacket_Encode (p\<lparr>pub_Dup := True\<rparr>) [] = Inr bs" "length bs \<le> unat cap"
    using assms(1) by (auto simp: replaySound_def)
  have "publishTopicOk (p\<lparr>pub_Dup := True\<rparr>)" using p(3) by (simp add: publishTopicOk_def)
  from publish_frame[OF p(4) this p(5), of ys e] obtain f where
    "ReadFrame \<lparr>r_bytes = bs @ ys, r_err = e\<rparr> cap = Inr (f, \<lparr>r_bytes = ys, r_err = e\<rparr>)"
    "packetType (Header f) = Publish" "DecodePublish v (Header f) (Body f) = Inr (canonPublish (p\<lparr>pub_Dup := True\<rparr>))"
    using p(2) by auto
  then show ?thesis
    using True p(1,4) by (simp add: replayBytes_def replayEncoder_def resent_def)
next
  case False
  then have k: "sm_Kind m = StoredPubrel" using assms(2) by (simp add: outbound_def)
  then obtain bs where b: "EncodeAck (pubrelFor v m) [] = Inr bs" "length bs \<le> unat cap"
    using assms(1) by (auto simp: replaySound_def)
  from ack_frame[OF b, of ys e] obtain f where
    "ReadFrame \<lparr>r_bytes = bs @ ys, r_err = e\<rparr> cap = Inr (f, \<lparr>r_bytes = ys, r_err = e\<rparr>)"
    "packetType (Header f) = Pubrel" "DecodeAck v Pubrel (Body f) = Inr (canonAck (pubrelFor v m))"
    by (auto simp: pubrelFor_def)
  then show ?thesis
    using k b(1) by (simp add: replayBytes_def replayEncoder_def resent_def pubrelFor_def)
qed

lemma readReplay_all:
  assumes "\<forall>m \<in> set ms. replaySound v cap m"
  shows "readReplay (length (filter outbound ms)) v cap \<lparr>r_bytes = concat (map (replayBytes v) ms) @ ys, r_err = e\<rparr> =
    Some (map (resent v) (filter outbound ms), \<lparr>r_bytes = ys, r_err = e\<rparr>)"
  using assms
proof (induction ms)
  case (Cons m ms)
  then show ?case by (cases "outbound m") (simp_all add: readReplay_one replayBytes_inbound del: readReplay.simps(2))
qed simp

section \<open>What the client writes\<close>

lemma writeFrame_ok:
  assumes "enc [] = Inr bs" "l_outboundMax (c_links c l) = 0 \<or> length bs \<le> unat (l_outboundMax (c_links c l))"
  shows "writeFrame l enc None c = (None, updLink l (l_out_update (\<lambda>out. out @ bs)) c)"
proof -
  have "\<not> of_nat (length bs) > l_outboundMax (c_links c l)" if "length bs \<le> unat (l_outboundMax (c_links c l))"
    using that by (simp add: not_less word_le_nat_alt unat_of_nat order.trans[OF mod_less_eq_dividend])
  then show ?thesis using assms by (auto simp: writeFrame_def)
qed

lemma writeFrame_prefix:
  "\<exists>bs. l_out (c_links (snd (writeFrame l enc None c)) l) = l_out (c_links c l) @ bs"
  by (auto simp: writeFrame_def split: sum.split)

lemma replayMessages_out:
  assumes "\<forall>m \<in> set ms. replaySound (c_version c) cap m"
    and "l_outboundMax (c_links c l) = 0 \<or> l_outboundMax (c_links c l) = cap"
  shows "l_out (c_links (snd (replayMessages l ms [] c)) l) =
      l_out (c_links c l) @ concat (map (replayBytes (c_version c)) ms) \<and> fst (replayMessages l ms [] c) = []"
  using assms
proof (induction ms arbitrary: c)
  case (Cons m ms)
  show ?case
  proof (cases "replayEncoder (c_version c) m")
    case None
    then show ?thesis using Cons.IH[OF _ Cons.prems(2)] Cons.prems(1) by (simp add: replayBytes_def)
  next
    case (Some enc)
    then obtain bs where b: "enc [] = Inr bs" "length bs \<le> unat cap"
      using Cons.prems(1) by (auto simp: replayEncoder_def replaySound_def pubrelFor_def split: if_splits)
    let ?c = "updLink l (l_out_update (\<lambda>out. out @ bs)) c"
    have "writeFrame l enc None c = (None, ?c)" using b Cons.prems(2) by (intro writeFrame_ok) auto
    then show ?thesis using Cons.IH[of ?c] Cons.prems Some b by (simp add: replayBytes_def)
  qed
qed simp

lemma Acquire_other_links [simp]:
  "c_links (removeWaiter i ch c) = c_links c" "c_links (snd (registerWaiter i k c)) = c_links c"
  by (simp_all add: removeWaiter_def registerWaiter_def Let_def split: option.split)

lemma resubscribe_prefix: "\<exists>bs. l_out (c_links (snd (resubscribe l ss [] c)) l) = l_out (c_links c l) @ bs"
proof (induction ss arbitrary: c)
  case (Cons s ss)
  have trans: "\<exists>bs. l_out (c_links (snd (resubscribe l ss [] d)) l) = l_out (c_links c l) @ bs"
    if "\<exists>bs. l_out (c_links d l) = l_out (c_links c l) @ bs" for d
    using that Cons.IH[of d] by (metis append.assoc)
  obtain i g err ids where A: "Acquire (c_ids c) = ((i, g, err), ids)" by (metis prod.collapse)
  obtain ch c2 where r: "registerWaiter i ackClassSuback (c\<lparr>c_ids := ids\<rparr>) = (ch, c2)" by fastforce
  have l2: "c_links c2 = c_links c" using Acquire_other_links(2)[of i ackClassSuback "c\<lparr>c_ids := ids\<rparr>"] r by simp
  obtain werr c3 where w: "writeFrame l (SubscribePacket_Encode
      (subscribePacket c2 (sn_filter s) (sn_options s) (sn_subID s) i)) None c2 = (werr, c3)" by fastforce
  have l3: "\<exists>bs. l_out (c_links c3 l) = l_out (c_links c l) @ bs"
    using writeFrame_prefix[of l _ c2] w l2 by (metis snd_conv)
  then have l4: "\<exists>bs. l_out (c_links ((removeWaiter i ch c3)\<lparr>c_ids := x\<rparr>) l) = l_out (c_links c l) @ bs" for x by simp
  have l1: "\<exists>bs. l_out (c_links (c\<lparr>c_ids := ids\<rparr>) l) = l_out (c_links c l) @ bs" by simp
  show ?case
    using A r w trans[OF l1] trans[OF l3] trans[OF l4]
    by (auto simp: Let_def case_prod_beta split: option.split)
qed simp

section \<open>The replay\<close>

text \<open>
  C5: A resumed session is replayed first, completely and in order. When the connection comes up,
  the bytes on the new link are the CONNECT, then exactly the unacknowledged packets of the session
  store in the order in which they were first saved, then the rest. The broker reads from them
  every stored PUBLISH as the same packet with the DUP flag and every stored PUBREL with its
  identifier.
\<close>

theorem resumed_replay:
  assumes "establish out result [] c = ((None, ws), c')"
    and "ms = memStore_All (c_store (applySession result c))"
    and "\<forall>m \<in> set ms. replaySound (c_version c) cap m"
    and "cr_MaximumPacketSize result = 0 \<or> cr_MaximumPacketSize result = cap"
  shows "\<exists>rest ys. c_link c' = Some (c_nextLink c) \<and> l_out (c_links c' (c_nextLink c)) = out @ rest \<and>
    readReplay (length (filter outbound ms)) (c_version c) cap \<lparr>r_bytes = rest, r_err = e\<rparr> =
      Some (map (resent (c_version c)) (filter outbound ms), \<lparr>r_bytes = ys, r_err = e\<rparr>)"
proof -
  define l where "l = c_nextLink c"
  define c2 where "c2 = updLink l (\<lambda>_. newLink (c\<lparr>c_nextLink := Suc l\<rparr>) out result) (c\<lparr>c_nextLink := Suc l\<rparr>)"
  define c3 where "c3 = applySession result c2"
  define c4 where "c4 = updLink l (\<lambda>k. k\<lparr>l_quotaGen := quota_generation (c_quota c3),
    l_idGen := idAllocator_generation (c_ids c3)\<rparr>) c3"
  obtain ios1 c5 where r5: "replaySession l [] c4 = (ios1, c5)" by fastforce
  obtain ws1 c6 where r6: "replaySubscriptions l ios1 c5 = (ws1, c6)" by fastforce
  have c': "c' = c6\<lparr>c_result := Some result, c_link := Some l\<rparr>"
    using assms(1) r5 r6
    unfolding establish_def Let_def l_def[symmetric] c2_def[symmetric] c3_def[symmetric] c4_def[symmetric]
    by (simp split: if_splits)
  have 4: "c_store c4 = c_store (applySession result c)" "c_cfg c4 = c_cfg c"
      "l_out (c_links c4 l) = out" "l_outboundMax (c_links c4 l) = cr_MaximumPacketSize result"
    by (simp_all add: c4_def c3_def c2_def applySession_def updLink_def newLink_def Let_def)
  have o5: "l_out (c_links c5 l) = out @ concat (map (replayBytes (c_version c)) ms)" "ios1 = []"
    using replayMessages_out[of ms c4 cap l] r5 4 assms(2-4) by (simp_all add: replaySession_def)
  obtain ys where o6: "l_out (c_links c6 l) = l_out (c_links c5 l) @ ys"
    using resubscribe_prefix[of l "c_subs c5" c5] r6 o5(2) by (auto simp: replaySubscriptions_def)
  then have "l_out (c_links c' l) = out @ concat (map (replayBytes (c_version c)) ms) @ ys"
    using o5(1) by (simp add: c')
  then show ?thesis
    using readReplay_all[OF assms(3), of ys e] c' unfolding l_def[symmetric] by fastforce
qed

text \<open>A session with one unacknowledged PUBLISH that the broker resumes.\<close>

definition exampleUnacked :: PublishPacket where
  "exampleUnacked = \<lparr>pub_Version = V50, pub_Topic = str ''a'', pub_Payload = [7], pub_QoS = 2, pub_Retain = False,
     pub_Dup = False, pub_PacketID = 1, pub_Properties = None\<rparr>"

definition exampleStore :: memStore where
  "exampleStore = memStore_Save (storedPublish 1 exampleUnacked) newMemStore"

definition exampleOffline :: TCPClient where
  "exampleOffline = (NewTCPClient exampleConfig)\<lparr>c_store := exampleStore\<rparr>"

definition exampleResumed :: ConnectResult where
  "exampleResumed = \<lparr>cr_SessionPresent = True, cr_ReasonCode = 0, cr_AssignedClientID = [], cr_ServerKeepAlive = 0,
     cr_ServerKeepAliveSet = False, cr_ReceiveMaximum = 10, cr_MaximumQoS = QoS2, cr_RetainAvailable = True,
     cr_MaximumPacketSize = 0, cr_TopicAliasMaximum = 0, cr_UserProperties = []\<rparr>"

theorem resumed_replay_witness:
  "\<exists>rest ys. l_out (c_links (snd (establish [0x10] exampleResumed [] exampleOffline)) 0) = [0x10] @ rest \<and>
     readReplay 1 V50 100 \<lparr>r_bytes = rest, r_err = IoEOF\<rparr> =
       Some ([Inl (exampleUnacked\<lparr>pub_Dup := True\<rparr>)], \<lparr>r_bytes = ys, r_err = IoEOF\<rparr>)"
proof -
  have enc: "PublishPacket_Encode (exampleUnacked\<lparr>pub_Dup := True\<rparr>) [] =
      Inr [0x3C, 0x07, 0x00, 0x01, 0x61, 0x00, 0x01, 0x00, 0x07]" by code_simp
  have all: "memStore_All exampleStore = [(storedPublish 1 exampleUnacked)\<lparr>sm_Seq := 1\<rparr>]" by code_simp
  have off: "c_version exampleOffline = V50" "c_store exampleOffline = exampleStore" "c_subs exampleOffline = []"
    "c_nextLink exampleOffline = 0" "cfg_CleanStart (c_cfg exampleOffline) = False"
    "cfg_SessionExpirySeconds (c_cfg exampleOffline) = 60"
    by (simp_all add: exampleOffline_def NewTCPClient_def NewTCPClient_cfg_def exampleConfig_def Let_def)
  have st: "c_store (applySession exampleResumed exampleOffline) = exampleStore"
    by (simp add: applySession_def off exampleResumed_def Let_def)
  have "fst (establish [0x10] exampleResumed [] exampleOffline) = (None, [])"
    using enc
    by (simp add: establish_def Let_def replaySession_def replaySubscriptions_def applySession_def off all
        exampleResumed_def replayEncoder_def storedPublish_def writeFrame_def newLink_def noLink_def isStopping_def
        split: if_splits)
  then have est: "establish [0x10] exampleResumed [] exampleOffline =
      ((None, []), snd (establish [0x10] exampleResumed [] exampleOffline))" by (simp add: prod_eq_iff)
  have snd: "\<forall>m \<in> set [(storedPublish 1 exampleUnacked)\<lparr>sm_Seq := 1\<rparr>]. replaySound (c_version exampleOffline) 100 m"
    using enc off(1) by (simp add: replaySound_def storedPublish_def exampleUnacked_def publishTopicOk_def) code_simp
  have "canonPublish (exampleUnacked\<lparr>pub_Dup := True\<rparr>) = exampleUnacked\<lparr>pub_Dup := True\<rparr>" by code_simp
  then show ?thesis
    using resumed_replay[OF est, of "[(storedPublish 1 exampleUnacked)\<lparr>sm_Seq := 1\<rparr>]" 100 IoEOF] snd st all off
    by (simp add: outbound_def resent_def storedPublish_def exampleResumed_def)
qed

end
