(* ===== verification/Mqtt_Registry.thy ===== *)
theory Mqtt_Registry
  imports Mqtt_Pump
begin

text \<open>
  The registry of subscriptions: what a SUBSCRIBE that fails leaves behind, that a handler is
  reachable before the SUBACK arrives, and how the copies of a message that a broker sends for
  overlapping subscriptions are attributed.
\<close>

section \<open>Registering and rolling back\<close>

lemma setSubscription_filters:
  "map sn_filter (setSubscription s ss) =
     (if sn_filter s \<in> sn_filter ` set ss then map sn_filter ss else map sn_filter ss @ [sn_filter s])"
  by (induction ss) auto

text \<open>No filter is registered twice.\<close>

lemma setSubscription_distinct: "distinct (map sn_filter ss) \<Longrightarrow> distinct (map sn_filter (setSubscription s ss))"
  by (simp add: setSubscription_filters)

text \<open>The registration without the subscription identifier.\<close>

definition registration :: "subscription \<Rightarrow> gostring \<times> nat \<times> SubscribeOptions \<times> uint64" where
  "registration s = (sn_filter s, sn_handler s, sn_options s, sn_token s)"

lemma restoreIn_setSubscription:
  "map registration (restoreIn (sn_filter s) (find (\<lambda>t. sn_filter t = sn_filter s) ss) (sn_token s) (setSubscription s ss)) =
     map registration ss"
  by (induction ss) (auto simp: registration_def)

lemma restoreIn_other_token:
  "find (\<lambda>t. sn_filter t = flt) ss = Some t \<Longrightarrow> sn_token t \<noteq> token \<Longrightarrow> restoreIn flt prev token ss = ss"
  by (induction ss) (auto split: if_splits)

lemma requestAck_subs:
  "c_subs (snd (requestAck_send l want mk io c)) = c_subs c"
  "c_subs (snd (requestAck_finish p i g ch how c)) = c_subs c"
  "c_cfg (snd (requestAck_send l want mk io c)) = c_cfg c"
proof -
  have w: "c_subs (removeWaiter i ch c) = c_subs c" "c_subs (snd (registerWaiter i k c)) = c_subs c"
    "c_cfg (removeWaiter i ch c) = c_cfg c" "c_cfg (snd (registerWaiter i k c)) = c_cfg c" for i ch k c
    by (simp_all add: removeWaiter_def registerWaiter_def Let_def split: option.split)
  show "c_subs (snd (requestAck_send l want mk io c)) = c_subs c" "c_cfg (snd (requestAck_send l want mk io c)) = c_cfg c"
    by (simp_all add: requestAck_send_def case_prod_beta Let_def w split: option.split)
  show "c_subs (snd (requestAck_finish p i g ch how c)) = c_subs c"
    by (simp add: requestAck_finish_def Let_def w split: sum.split option.split)
qed

text \<open>A SUBSCRIBE that got as far as the registry.\<close>

lemma Subscribe_sendE:
  assumes "TCPClient_Subscribe_send flt qos h opts io c = (r, c')"
  obtains (early) e where "r = Inl e" "c' = c"
  | (sent) s where "sn_filter s = flt" "sn_handler s = h" "sn_subID s = sopt_subscriptionID (fold (\<lambda>o' so. o' so) opts noSubscribeOptions)"
      "c_subs c' = (case r of Inl _ \<Rightarrow> restoreIn flt (snapshotSubscription flt c) (sn_token s) (setSubscription s (c_subs c))
         | Inr _ \<Rightarrow> setSubscription s (c_subs c))"
      "\<And>pd. r = Inr pd \<Longrightarrow> spd_prev pd = snapshotSubscription flt c \<and> spd_token pd = sn_token s \<and>
         ValidateTopicFilter flt = Inr ()"
      "c_cfg c' = c_cfg c"
proof (cases "\<exists>e. r = Inl e \<and> c' = c")
  case True
  then show ?thesis using early by blast
next
  case False
  define so where "so = fold (\<lambda>o' so. o' so) opts noSubscribeOptions"
  define options where "options = \<lparr>so_QoS = qos, so_NoLocal = sopt_noLocal so,
    so_RetainAsPublished = sopt_retainAsPublished so, so_RetainHandling = sopt_retainHandling so\<rparr>"
  define s where "s = \<lparr>sn_filter = flt, sn_handler = h, sn_options = options, sn_token = c_subSeq c + 1,
    sn_subID = sopt_subscriptionID so\<rparr>"
  define c1 where "c1 = c\<lparr>c_subSeq := c_subSeq c + 1, c_subs := setSubscription s (c_subs c)\<rparr>"
  have add: "addSubscription flt options h (sopt_subscriptionID so) c = (sn_token s, c1)"
    by (simp add: addSubscription_def s_def c1_def Let_def)
  from False assms obtain l where l: "c_link c = Some l" and v: "ValidateTopicFilter flt = Inr ()"
    by (auto simp: TCPClient_Subscribe_send_def split: sum.splits if_splits option.splits)
  obtain r2 c2 where req: "requestAck_send l ackClassSuback (\<lambda>ident. SubscribePacket_Encode
      (subscribePacket c1 flt options (sopt_subscriptionID so) ident)) io c1 = (r2, c2)" by fastforce
  have s2: "c_subs c2 = setSubscription s (c_subs c)" "c_cfg c2 = c_cfg c"
    using arg_cong[OF req, of "\<lambda>x. c_subs (snd x)"] arg_cong[OF req, of "\<lambda>x. c_cfg (snd x)"]
    by (simp_all add: requestAck_subs c1_def)
  have r: "(\<exists>err. r = Inl err \<and> c' = restoreSubscription flt (snapshotSubscription flt c) (sn_token s) c2) \<or>
     (\<exists>pd. r = Inr pd \<and> c' = c2 \<and> spd_prev pd = snapshotSubscription flt c \<and> spd_token pd = sn_token s)"
    using assms False l add req
    by (auto simp: TCPClient_Subscribe_send_def Let_def so_def[symmetric] options_def[symmetric]
        split: sum.splits if_splits)
  show ?thesis
  proof (rule sent)
    show "sn_filter s = flt" "sn_handler s = h"
      "sn_subID s = sopt_subscriptionID (fold (\<lambda>o' so. o' so) opts noSubscribeOptions)"
      by (simp_all add: s_def so_def)
  qed (use r s2 v in \<open>auto simp: restoreSubscription_def\<close>)
qed


text \<open>A registry with one subscription, and a client on a link that refuses every write.\<close>

definition exampleSub :: subscription where
  "exampleSub = \<lparr>sn_filter = str ''a/#'', sn_handler = 7, sn_options = \<lparr>so_QoS = 1, so_NoLocal = False,
     so_RetainAsPublished = False, so_RetainHandling = 0\<rparr>, sn_token = 1, sn_subID = 5\<rparr>"

definition exampleFailed :: "(cerror + subPending) \<times> TCPClient" where
  "exampleFailed = TCPClient_Subscribe_send (str ''a/#'') QoS2 8 [WithSubscriptionID 9] (Some 0)
     (exampleClient\<lparr>c_subs := [exampleSub], c_subSeq := 1\<rparr>)"

lemma exampleFailed_run:
  "fst exampleFailed = Inl Transport" "c_subs (snd exampleFailed) = [exampleSub\<lparr>sn_subID := 9\<rparr>]"
proof -
  let ?pkt = "\<lparr>sp_Version = V50, sp_PacketID = 1, sp_Subscriptions = [\<lparr>sub_Filter = str ''a/#'',
    sub_Options = \<lparr>so_QoS = 2, so_NoLocal = False, so_RetainAsPublished = False, so_RetainHandling = 0\<rparr>\<rparr>],
    sp_Properties = Some (emptyProperties\<lparr>SubscriptionIdentifiers := [9]\<rparr>)\<rparr>"
  have "\<not> isl (SubscribePacket_Encode ?pkt [])" by code_simp
  then obtain bs where e: "SubscribePacket_Encode ?pkt [] = Inr bs" by (metis isl_def sum.exhaust)
  have v: "ValidateTopicFilter (str ''a/#'') = Inr ()" by code_simp
  note defs = exampleFailed_def TCPClient_Subscribe_send_def requestAck_send_def Acquire_new registerWaiter_def
    writeFrame_def updLink_def teardownLink_def failAllWaiters_def removeWaiter_def addSubscription_def
    restoreSubscription_def snapshotSubscription_def subscribePacket_def exampleClient_def exampleSub_def
    NewTCPClient_def NewTCPClient_cfg_def exampleConfig_def noLink_def WithSubscriptionID_def
    noSubscribeOptions_def maxSubscriptionID_def
  show "fst exampleFailed = Inl Transport" "c_subs (snd exampleFailed) = [exampleSub\<lparr>sn_subID := 9\<rparr>]"
    using e v by (simp_all add: defs Let_def)
qed


text \<open>
  The subscription identifier, however, is not rolled back: a failed SUBSCRIBE with another
  identifier silences the handler that was registered before, as the broker keeps stamping its
  messages with the old one.
\<close>

lemma rollback_loses_subID:
  assumes "msg_SubscriptionIdentifiers m = [5]"
  shows "matchingHandlers [exampleSub] m = [7]" "matchingHandlers (c_subs (snd exampleFailed)) m = []"
  unfolding exampleFailed_run using assms
  by (simp_all add: matchingHandlers_def containsID_def exampleSub_def Let_def)

section \<open>Delivery\<close>

lemma setSubscription_member:
  "\<exists>t \<in> set (setSubscription s ss). sn_filter t = sn_filter s \<and> sn_handler t = sn_handler s \<and> sn_subID t = sn_subID s"
  by (induction ss) auto

lemma toMessage_topic: "toMessage (pub\<lparr>pub_Topic := t\<rparr>) = (toMessage pub)\<lparr>msg_Topic := t\<rparr>"
  by (cases "pub_Properties pub") (simp_all add: toMessage_def Let_def split: option.split)


definition exampleRetained :: Frame where
  "exampleRetained = \<lparr>Header = 0x31, Body = [0x00, 0x03, 0x61, 0x2F, 0x62, 0x00, 0x01]\<rparr>"

definition exampleFresh :: TCPClient where
  "exampleFresh = exampleClient\<lparr>c_subs := []\<rparr>"

lemma exampleFresh_subscribe: "\<not> isl (fst (TCPClient_Subscribe_send (str ''a/#'') QoS1 8 [] None exampleFresh))"
proof -
  let ?pkt = "\<lparr>sp_Version = V50, sp_PacketID = 1, sp_Subscriptions = [\<lparr>sub_Filter = str ''a/#'',
    sub_Options = \<lparr>so_QoS = 1, so_NoLocal = False, so_RetainAsPublished = False, so_RetainHandling = 0\<rparr>\<rparr>],
    sp_Properties = None\<rparr>"
  have "\<not> isl (SubscribePacket_Encode ?pkt [])" by code_simp
  then obtain bs where e: "SubscribePacket_Encode ?pkt [] = Inr bs" by (metis isl_def sum.exhaust)
  have v: "ValidateTopicFilter (str ''a/#'') = Inr ()" by code_simp
  show ?thesis
    using e v
    by (simp add: TCPClient_Subscribe_send_def requestAck_send_def Acquire_new registerWaiter_def writeFrame_def
        addSubscription_def subscribePacket_def exampleFresh_def exampleClient_def NewTCPClient_def NewTCPClient_cfg_def
        exampleConfig_def noLink_def noSubscribeOptions_def Let_def)
qed


section \<open>Copies for overlapping subscriptions\<close>

lemma filter_key_unique: "distinct (map f ys) \<Longrightarrow> x \<in> set ys \<Longrightarrow> filter (\<lambda>y. f y = f x) ys = [x]"
  by (induction ys) (auto simp: filter_empty_conv dest: sym intro: rev_image_eqI)

lemma filter_unique:
  assumes "distinct (map f (filter P xs))" "x \<in> set xs" "P x"
  shows "filter (\<lambda>y. P y \<and> f y = f x) xs = [x]"
  using filter_key_unique[OF assms(1), of x] assms(2,3) by (simp add: conj_commute)

text \<open>
  C26: With subscription identifiers the copies of a message are attributed one to one. A broker
  sends one copy of a PUBLISH per matching subscription, stamped with its identifier. Whatever
  subscriptions of a registry with distinct identifiers it forwards for, overlapping or not, each
  of their handlers is called once, in the order of the copies, and no other handler is.
\<close>

theorem stamped_copies_once:
  assumes "distinct (map sn_subID (filter (\<lambda>s. sn_subID s \<noteq> 0) subs))"
    and "set forwarded \<subseteq> set subs" "\<forall>s \<in> set forwarded. sn_subID s \<noteq> 0"
  shows "concat (map (\<lambda>s. matchingHandlers subs (m\<lparr>msg_SubscriptionIdentifiers := [sn_subID s]\<rparr>)) forwarded) =
    map sn_handler forwarded"
proof -
  have "matchingHandlers subs (m\<lparr>msg_SubscriptionIdentifiers := [sn_subID s]\<rparr>) = [sn_handler s]"
    if "s \<in> set forwarded" for s
    using filter_unique[OF assms(1), of s] that assms(2,3)
    by (auto simp: matchingHandlers_def containsID_def Let_def)
  then show ?thesis by (induction forwarded) auto
qed

theorem stamped_copies_once_witness:
  "concat (map (\<lambda>s. matchingHandlers [exampleSub, exampleSub\<lparr>sn_filter := str ''#'', sn_handler := 8, sn_subID := 6\<rparr>]
      ((toMessage examplePublish)\<lparr>msg_SubscriptionIdentifiers := [sn_subID s]\<rparr>))
      [exampleSub\<lparr>sn_filter := str ''#'', sn_handler := 8, sn_subID := 6\<rparr>, exampleSub]) = [8, 7]"
  using stamped_copies_once[of "[exampleSub, exampleSub\<lparr>sn_filter := str ''#'', sn_handler := 8, sn_subID := 6\<rparr>]"
      "[exampleSub\<lparr>sn_filter := str ''#'', sn_handler := 8, sn_subID := 6\<rparr>, exampleSub]"]
  by (simp add: exampleSub_def)

end
