(* ===== verification/Mqtt_KeepAlive.thy ===== *)
theory Mqtt_KeepAlive
  imports Mqtt_Pump
begin

text \<open>
  The keep-alive loop (\<^verbatim>\<open>pump.go\<close>) over what happens to it: ticks, the stop of the link, and the
  activity of other goroutines in between, the read loop's PINGRESP handling among them.
\<close>

datatype kaEvent = KaTick "nat option" | KaStop | KaOther "TCPClient \<Rightarrow> TCPClient"

text \<open>The \<^verbatim>\<open>select\<close> takes the stop case only on a stopped link. The result says whether the loop still runs.\<close>

fun keepAlive_run :: "nat \<Rightarrow> kaEvent list \<Rightarrow> TCPClient \<Rightarrow> bool \<times> TCPClient" where
  "keepAlive_run l [] c = (True, c)"
| "keepAlive_run l (KaTick io # es) c =
     (case keepAlive_tick l io c of (True, c) \<Rightarrow> keepAlive_run l es c | (False, c) \<Rightarrow> (False, c))"
| "keepAlive_run l (KaStop # es) c = (if isStopping l c then (False, c) else keepAlive_run l es c)"
| "keepAlive_run l (KaOther f # es) c = keepAlive_run l es (f c)"

text \<open>A loop without an interval only waits for the stop; it has no ticker.\<close>

fun keepAlive_parked :: "nat \<Rightarrow> kaEvent list \<Rightarrow> TCPClient \<Rightarrow> bool \<times> TCPClient" where
  "keepAlive_parked l [] c = (True, c)"
| "keepAlive_parked l (KaTick io # es) c = keepAlive_parked l es c"
| "keepAlive_parked l (KaStop # es) c = (if isStopping l c then (False, c) else keepAlive_parked l es c)"
| "keepAlive_parked l (KaOther f # es) c = keepAlive_parked l es (f c)"

definition keepAliveLoop :: "nat \<Rightarrow> kaEvent list \<Rightarrow> TCPClient \<Rightarrow> bool \<times> TCPClient" where
  "keepAliveLoop l es c =
     (if l_pingInterval (c_links c l) \<le> 0 then keepAlive_parked l es c else keepAlive_run l es c)"

section \<open>The watchdog\<close>

definition pingBytes :: "byte list" where "pingBytes = [0xC0, 0x00]"

text \<open>A tick for every entry, with a PINGRESP handled before it where the entry is true.\<close>

definition pingRounds :: "nat \<Rightarrow> Frame \<Rightarrow> frameEnv \<Rightarrow> bool list \<Rightarrow> kaEvent list" where
  "pingRounds l pingresp env answered =
     concat (map (\<lambda>b. (if b then [KaOther (\<lambda>c. snd (handleFrame l pingresp env c))] else []) @ [KaTick None]) answered)"

text \<open>The counter of unanswered pings, and whether the loop survives.\<close>

fun watchdog :: "int \<Rightarrow> bool list \<Rightarrow> bool" where
  "watchdog n [] = True"
| "watchdog n (b # bs) = (let n = (if b then 0 else n) in n < 2 \<and> watchdog (n + 1) bs)"

lemma watchdog_two: "watchdog 2 bs \<longleftrightarrow> (bs \<noteq> [] \<longrightarrow> hd bs) \<and> watchdog 1 bs"
  by (cases bs) simp_all

lemma watchdog_one: "watchdog 1 bs \<longleftrightarrow> \<not> (\<exists>us vs. bs = us @ False # False # vs)"
proof (induction bs)
  case (Cons b bs)
  have "(\<exists>us vs. b # bs = us @ False # False # vs) \<longleftrightarrow>
      (\<not> b \<and> bs \<noteq> [] \<and> \<not> hd bs) \<or> (\<exists>us vs. bs = us @ False # False # vs)"
  proof -
    have "b # bs = us @ False # False # vs \<longleftrightarrow>
        (us = [] \<and> \<not> b \<and> bs = False # vs) \<or> (\<exists>us'. us = b # us' \<and> bs = us' @ False # False # vs)" for us vs
      by (cases us) auto
    then show ?thesis by (cases bs) auto
  qed
  then show ?case using Cons.IH by (auto simp: watchdog_two)
qed simp

lemma watchdog_zero: "watchdog 0 bs \<longleftrightarrow> \<not> (\<exists>us vs. tl bs = us @ False # False # vs)"
  by (cases bs) (simp_all add: watchdog_one)

lemma keepAlive_tick_ok:
  assumes "l_outstandingPings (c_links c l) < 2" "l_outboundMax (c_links c l) = 0 \<or> 2 \<le> l_outboundMax (c_links c l)"
  shows "keepAlive_tick l None c =
    (True, updLink l (\<lambda>k. l_out_update (\<lambda>out. out @ pingBytes) (l_outstandingPings_update (\<lambda>n. n + 1) k)) c)"
proof -
  have e: "EncodePingReq [] = Inr pingBytes" unfolding pingBytes_def by code_simp
  have "\<not> of_nat (length pingBytes) > l_outboundMax (c_links c l)" if "2 \<le> l_outboundMax (c_links c l)"
    using that by (simp add: pingBytes_def not_less)
  then show ?thesis
    using assms e by (auto simp: keepAlive_tick_def writeFrame_def updLink_def)
qed

lemma pingRounds_run:
  assumes "packetType (Header pingresp) = Pingresp"
    and "l_outboundMax (c_links c l) = 0 \<or> 2 \<le> l_outboundMax (c_links c l)"
  shows "case keepAlive_run l (pingRounds l pingresp env bs) c of
      (True, c') \<Rightarrow> watchdog (l_outstandingPings (c_links c l)) bs \<and>
        l_out (c_links c' l) = l_out (c_links c l) @ concat (replicate (length bs) pingBytes)
    | (False, c') \<Rightarrow> \<not> watchdog (l_outstandingPings (c_links c l)) bs \<and> l_stopped (c_links c' l)"
  using assms(2)
proof (induction bs arbitrary: c)
  case Nil
  then show ?case by (simp add: pingRounds_def)
next
  case (Cons b bs)
  define c1 where "c1 = (if b then updLink l (l_outstandingPings_update (\<lambda>_. 0)) c else c)"
  have run: "keepAlive_run l (pingRounds l pingresp env (b # bs)) c =
      keepAlive_run l (KaTick None # pingRounds l pingresp env bs) c1"
    using assms(1) by (simp add: pingRounds_def c1_def handleFrame_def)
  have 1: "l_outstandingPings (c_links c1 l) = (if b then 0 else l_outstandingPings (c_links c l))"
    "l_outboundMax (c_links c1 l) = l_outboundMax (c_links c l)" "l_out (c_links c1 l) = l_out (c_links c l)"
    by (simp_all add: c1_def updLink_def)
  show ?case
  proof (cases "l_outstandingPings (c_links c1 l) < 2")
    case True
    define c2 where "c2 = updLink l (\<lambda>k. l_out_update (\<lambda>out. out @ pingBytes) (l_outstandingPings_update (\<lambda>n. n + 1) k)) c1"
    have t: "keepAlive_tick l None c1 = (True, c2)"
      unfolding c2_def using True Cons.prems 1(2) by (intro keepAlive_tick_ok) simp_all
    have 2: "l_outstandingPings (c_links c2 l) = l_outstandingPings (c_links c1 l) + 1"
      "l_outboundMax (c_links c2 l) = l_outboundMax (c_links c l)" "l_out (c_links c2 l) = l_out (c_links c l) @ pingBytes"
      using 1 by (simp_all add: c2_def updLink_def)
    show ?thesis using Cons.IH[of c2] Cons.prems run t True 1 2 by (auto simp: Let_def split: prod.splits bool.splits)
  next
    case False
    then have "keepAlive_tick l None c1 = (False, teardownLink l (l_graceful (c_links c1 l)) c1)"
      by (simp add: keepAlive_tick_def)
    then show ?thesis using run False 1 by (simp add: Let_def)
  qed
qed

text \<open>
  C12: The watchdog declares a connection dead exactly when two pings in a row stay unanswered. On a
  fresh link with a positive interval and writes that succeed, consider any sequence of ticks, some
  of them with a PINGRESP since the tick before. The loop goes on, with one PINGREQ on the wire per
  tick, if and only if no two consecutive ticks after the first came without a PINGRESP; otherwise
  it has torn the link down. So a single lost PINGRESP never ends a connection, and a dead peer is
  detected at the third tick.
\<close>

theorem watchdog_exact:
  assumes "packetType (Header pingresp) = Pingresp" "l_pingInterval (c_links c l) > 0"
    and "l_outstandingPings (c_links c l) = 0" "l_outboundMax (c_links c l) = 0 \<or> 2 \<le> l_outboundMax (c_links c l)"
    and "keepAliveLoop l (pingRounds l pingresp env answered) c = (running, c')"
  shows "(running \<longleftrightarrow> \<not> (\<exists>us vs. tl answered = us @ False # False # vs)) \<and>
    (if running then l_out (c_links c' l) = l_out (c_links c l) @ concat (replicate (length answered) pingBytes)
     else l_stopped (c_links c' l))"
proof -
  have "keepAlive_run l (pingRounds l pingresp env answered) c = (running, c')"
    using assms(2,5) by (simp add: keepAliveLoop_def)
  with pingRounds_run[OF assms(1,4), where env = env and bs = answered] assms(3) show ?thesis
    by (auto simp: watchdog_zero split: bool.splits)
qed

theorem watchdog_exact_witness:
  "let c = exampleClient\<lparr>c_links := (\<lambda>_. noLink\<lparr>l_pingInterval := 15\<rparr>)\<rparr>;
       r = keepAliveLoop 0 (pingRounds 0 \<lparr>Header = 0xD0, Body = []\<rparr> quietEnv [False, False, True, False, False]) c
   in \<not> fst r \<and> l_stopped (c_links (snd r) 0)"
proof -
  let ?c = "exampleClient\<lparr>c_links := (\<lambda>_. noLink\<lparr>l_pingInterval := 15\<rparr>)\<rparr>"
  let ?f = "\<lparr>Header = 0xD0, Body = []\<rparr> :: Frame"
  obtain b c' where r: "keepAliveLoop 0 (pingRounds 0 ?f quietEnv [False, False, True, False, False]) ?c = (b, c')" by fastforce
  have t: "packetType (Header ?f) = Pingresp" by code_simp
  have "tl [False, False, True, False, False] = [False, True] @ False # False # []" by simp
  then have "\<exists>us vs. tl [False, False, True, False, False] = us @ False # False # vs" by blast
  then show ?thesis using watchdog_exact[OF t _ _ _ r] r by (simp add: noLink_def del: list.sel)
qed

end
