(* ===== verification/Mqtt_Connector.thy ===== *)
theory Mqtt_Connector
  imports Mqtt_Pump
begin

text \<open>
  The reconnect lifecycle (\<^verbatim>\<open>lifecycle.go\<close>) on top of what it drives: the interfaces \<^verbatim>\<open>Connector\<close> and
  \<^verbatim>\<open>ConnectionNotifier\<close> as a locale, what \<^verbatim>\<open>Start\<close>, \<^verbatim>\<open>Stop\<close> and the loop make of any connector that
  keeps their contract, and \<^verbatim>\<open>TCPClient\<close> as the connector.
\<close>

section \<open>Start, Stop and the loop\<close>

datatype startError = AlreadyStarted | ConnectFailed cerror | StoppedDuringStart

text \<open>
  \<^verbatim>\<open>Start\<close> with the connector's operations; \<open>during\<close> is what other calls do to the lifecycle while the
  first connect runs.
\<close>

definition Lifecycle_Start ::
  "('s \<Rightarrow> cerror option \<times> 's) \<Rightarrow> ('s \<Rightarrow> 's) \<Rightarrow> ('s \<Rightarrow> 's) \<Rightarrow> nat \<Rightarrow> (lifecycle \<Rightarrow> lifecycle) \<Rightarrow>
     lifecycle \<Rightarrow> 's \<Rightarrow> startError option \<times> lifecycle \<times> 's" where
  "Lifecycle_Start connect drain disconnect r during lc s =
     (case Start_enter r lc of
        (False, lc) \<Rightarrow> (Some AlreadyStarted, lc, s)
      | (True, lc) \<Rightarrow>
          let s = drain s;
              (err, s) = connect s;
              lc = during lc
          in case err of
               Some e \<Rightarrow> (Some (ConnectFailed e), Start_failed lc, s)
             | None \<Rightarrow>
                 (case Start_commit r lc of
                    (True, lc) \<Rightarrow> (None, lc, s)
                  | (False, lc) \<Rightarrow> (Some StoppedDuringStart, lc, disconnect s)))"

text \<open>\<^verbatim>\<open>Stop\<close>; the wait for the loop is bounded by the caller's context and changes nothing.\<close>

definition Lifecycle_Stop :: "('s \<Rightarrow> 's) \<Rightarrow> lifecycle \<Rightarrow> 's \<Rightarrow> lifecycle \<times> 's" where
  "Lifecycle_Stop disconnect lc s = (snd (Stop_enter lc), disconnect s)"

text \<open>
  One round of the loop: the \<^verbatim>\<open>select\<close>, which takes the lost case only if it receives the token, and
  the connect. \<^const>\<open>None\<close> when the loop returns or the case was not ready.
\<close>

definition loop_round ::
  "LifecycleConfig \<Rightarrow> ('s \<Rightarrow> cerror option \<times> 's) \<Rightarrow> ('s \<Rightarrow> bool) \<Rightarrow> ('s \<Rightarrow> 's) \<Rightarrow> wake \<Rightarrow> int \<Rightarrow>
     loopState \<times> 's \<Rightarrow> (loopState \<times> 's) option" where
  "loop_round cfg connect lost drain w now = (\<lambda>(ls, s).
     (let isLost = (case w of Lost _ _ _ \<Rightarrow> True | _ \<Rightarrow> False) in
      if isLost \<and> \<not> lost s then None
      else
        let s = (if isLost then drain s else s) in
        case loop_wait cfg w ls of
          None \<Rightarrow> None
        | Some (slept, ls) \<Rightarrow>
            let (err, s) = connect s in Some (loop_connected cfg err now ls, s)))"

section \<open>The contract of a connector\<close>

text \<open>
  \<open>ok\<close> is the connector's own invariant, which a connect establishes. Connecting a live session is the documented no-op, a
  connect that succeeds leaves a live session, one that fails leaves none, and neither they nor an
  orderly disconnect signal a lost connection.
\<close>

locale connector =
  fixes connect :: "'env \<Rightarrow> 's \<Rightarrow> cerror option \<times> 's"
    and disconnect :: "'d \<Rightarrow> 's \<Rightarrow> 's"
    and live :: "'s \<Rightarrow> bool"
    and lost :: "'s \<Rightarrow> bool"
    and drain :: "'s \<Rightarrow> 's"
    and ok :: "'s \<Rightarrow> bool"
  assumes connect_live: "live s \<Longrightarrow> connect env s = (Some ErrAlreadyConnected, s)"
    and connect_succeeds: "connect env s = (None, s') \<Longrightarrow> live s' \<and> ok s'"
    and connect_fails: "\<not> live s \<Longrightarrow> connect env s = (Some e, s') \<Longrightarrow> \<not> live s'"
    and connect_lost: "connect env s = (r, s') \<Longrightarrow> lost s' = lost s"
    and disconnect_live: "ok s \<Longrightarrow> \<not> live (disconnect d s)"
    and disconnect_lost: "lost (disconnect d s) = lost s"
    and drain_lost: "\<not> lost (drain s)"
    and drain_live: "live (drain s) = live s"
begin

lemma start_session:
  assumes "Lifecycle_Start (connect env) drain (disconnect d) r during lc s = (res, lc', s')"
  shows "case res of
      None \<Rightarrow> live s' \<and> \<not> lost s'
    | Some AlreadyStarted \<Rightarrow> s' = s
    | Some (ConnectFailed e) \<Rightarrow> live s' = live s \<and> \<not> lost s'
    | Some StoppedDuringStart \<Rightarrow> \<not> live s' \<and> \<not> lost s'"
proof -
  obtain b lc1 where e: "Start_enter r lc = (b, lc1)" by fastforce
  obtain err s1 where c: "connect env (drain s) = (err, s1)" by fastforce
  have l: "\<not> lost s1" using connect_lost[OF c] drain_lost by simp
  have f: "live s1 = live s" if "err = Some x" for x
    using connect_live[of "drain s" env] connect_fails[of "drain s" env] c that drain_live[of s] by auto
  show ?thesis
    using assms e c l f connect_succeeds disconnect_live disconnect_lost
    by (auto simp: Lifecycle_Start_def Let_def split: bool.splits option.splits prod.splits)
qed

lemma round_lost:
  assumes "lost s" "\<not> live s"
  obtains ls' s' where "loop_round cfg (connect env) lost drain (Lost t draw False) now (ls, s) = Some (ls', s')"
    "\<not> lost s'" "live s' \<longleftrightarrow> fst (connect env (drain s)) = None"
proof -
  obtain err s' where c: "connect env (drain s) = (err, s')" by fastforce
  obtain slept ls1 where w: "loop_wait cfg (Lost t draw False) ls = Some (slept, ls1)"
    by (fastforce simp: loop_wait_def Let_def)
  have "\<not> lost s'" using connect_lost[OF c] drain_lost by simp
  moreover have "live s' \<longleftrightarrow> err = None"
    using c connect_succeeds connect_fails[of "drain s" env] assms(2) drain_live by (cases err) auto
  moreover have "loop_round cfg (connect env) lost drain (Lost t draw False) now (ls, s) =
      Some (loop_connected cfg err now ls1, s')"
    using assms(1) c w by (simp add: loop_round_def)
  ultimately show ?thesis using that c by simp
qed

end

section \<open>The TCP client as a connector\<close>

definition tcpConnect :: "connectEnv \<Rightarrow> TCPClient \<Rightarrow> cerror option \<times> TCPClient" where
  "tcpConnect env c = (case TCPClient_Connect env c of ((err, _), c') \<Rightarrow> (err, c'))"

text \<open>A receive that takes the token of the connection-lost channel, if it is there.\<close>

definition drainLost :: "TCPClient \<Rightarrow> TCPClient" where
  "drainLost c = c\<lparr>c_lostCh := False\<rparr>"

text \<open>What a connect that is not over yet leaves alone: no link is current, token and last result stay.\<close>

definition offlineSame :: "TCPClient \<Rightarrow> TCPClient \<Rightarrow> bool" where
  "offlineSame c c' \<longleftrightarrow> c_link c' = None \<and> c_lostCh c' = c_lostCh c \<and> c_result c' = c_result c"

lemma offline_writeFrame: "c_link c = None \<Longrightarrow> offlineSame c (snd (writeFrame l e io c))"
  by (auto simp: offlineSame_def writeFrame_def teardownLink_def updLink_def Let_def split: sum.split option.split)

lemma offline_replay: "c_link c = None \<Longrightarrow> offlineSame c (snd (replayMessages l ms ios c))"
proof (induction l ms ios c rule: replayMessages.induct)
  case (2 l m ms ios c)
  then show ?case
    using offline_writeFrame[OF 2(3), of l] by (force simp: offlineSame_def Let_def split: option.split)
qed (simp add: offlineSame_def)

lemma offline_waiters:
  "c_link (removeWaiter i ch c) = c_link c" "c_lostCh (removeWaiter i ch c) = c_lostCh c" "c_result (removeWaiter i ch c) = c_result c"
  "c_link (snd (registerWaiter i k c)) = c_link c" "c_lostCh (snd (registerWaiter i k c)) = c_lostCh c"
  "c_result (snd (registerWaiter i k c)) = c_result c"
  by (simp_all add: removeWaiter_def registerWaiter_def Let_def split: option.split)

lemma offline_resubscribe: "c_link c = None \<Longrightarrow> offlineSame c (snd (resubscribe l ss ios c))"
proof (induction ss arbitrary: ios c)
  case (Cons s ss)
  have step: "offlineSame c (snd (resubscribe l ss ios' d))" if "offlineSame c d" for d ios'
    using that Cons.IH[of d ios'] by (auto simp: offlineSame_def)
  obtain i g err ids where A: "Acquire (c_ids c) = ((i, g, err), ids)" by (metis prod.collapse)
  obtain ch c2 where r: "registerWaiter i ackClassSuback (c\<lparr>c_ids := ids\<rparr>) = (ch, c2)" by fastforce
  have 2: "c_link c2 = None" "c_lostCh c2 = c_lostCh c" "c_result c2 = c_result c"
    using offline_waiters(4-6)[of i ackClassSuback "c\<lparr>c_ids := ids\<rparr>"] r Cons.prems by simp_all
  obtain werr c3 where w: "writeFrame l (SubscribePacket_Encode (subscribePacket c2 (sn_filter s) (sn_options s)
      (sn_subID s) i)) (case ios of [] \<Rightarrow> None | x # _ \<Rightarrow> x) c2 = (werr, c3)" by fastforce
  have "offlineSame c2 c3" using offline_writeFrame[OF 2(1)] w by (metis snd_conv)
  then have 3: "offlineSame c c3" "offlineSame c ((removeWaiter i ch c3)\<lparr>c_ids := x\<rparr>)" for x
    using 2 by (simp_all add: offlineSame_def offline_waiters)
  have 1: "offlineSame c (c\<lparr>c_ids := ids\<rparr>)" using Cons.prems by (simp add: offlineSame_def)
  show ?case
    using A r w step[OF 1] step[OF 3(1)] step[OF 3(2)]
    by (auto simp: Let_def case_prod_beta split: option.split)
qed (simp add: offlineSame_def)

text \<open>The current link has not been stopped.\<close>

definition linkUp :: "TCPClient \<Rightarrow> bool" where
  "linkUp c \<longleftrightarrow> (case c_link c of None \<Rightarrow> True | Some l \<Rightarrow> \<not> isStopping l c)"

lemma establish_link:
  assumes "c_link c = None" "establish out result ios c = ((err, ws), c')"
  shows "c_lostCh c' = c_lostCh c" "c_link c' \<noteq> None \<longleftrightarrow> err = None" "linkUp c'"
    "c_result c' = (if err = None then Some result else c_result c)"
proof -
  define l where "l = c_nextLink c"
  define c4 where "c4 = (let c2 = updLink l (\<lambda>_. newLink (c\<lparr>c_nextLink := Suc l\<rparr>) out result) (c\<lparr>c_nextLink := Suc l\<rparr>);
      c3 = applySession result c2 in updLink l (\<lambda>k. k\<lparr>l_quotaGen := quota_generation (c_quota c3),
      l_idGen := idAllocator_generation (c_ids c3)\<rparr>) c3)"
  obtain ios1 c5 where r5: "replaySession l ios c4 = (ios1, c5)" by fastforce
  obtain ws1 c6 where r6: "replaySubscriptions l ios1 c5 = (ws1, c6)" by fastforce
  have 4: "c_link c4 = None" "c_lostCh c4 = c_lostCh c" "c_result c4 = c_result c"
    using assms(1) by (simp_all add: c4_def applySession_def updLink_def Let_def)
  have 5: "offlineSame c4 c5"
    using offline_replay[OF 4(1), of l "memStore_All (c_store c4)" ios] r5 by (simp add: replaySession_def)
  then have "c_link c5 = None" by (simp add: offlineSame_def)
  from offline_resubscribe[OF this, of l "c_subs c5" ios1] have "offlineSame c5 c6"
    using r6 by (simp add: replaySubscriptions_def)
  then have 6: "c_link c6 = None" "c_lostCh c6 = c_lostCh c" "c_result c6 = c_result c" using 4 5 by (simp_all add: offlineSame_def)
  have "(err = Some ErrConnectionLost \<and> c' = c6) \<or> 
    (err = None \<and> \<not> isStopping l c6 \<and> c' = c6\<lparr>c_result := Some result, c_link := Some l\<rparr>)"
    using assms(2) r5 r6 by (auto simp: establish_def c4_def l_def Let_def split: if_splits)
  then show "c_lostCh c' = c_lostCh c" "c_link c' \<noteq> None \<longleftrightarrow> err = None" "linkUp c'"
    "c_result c' = (if err = None then Some result else c_result c)"
    using 6 by (auto simp: linkUp_def isStopping_def)
qed

lemma tcpConnect_cases:
  "(c_link c \<noteq> None \<and> tcpConnect env c = (Some ErrAlreadyConnected, c)) \<or>
   (c_link c = None \<and> (\<exists>e. tcpConnect env c = (Some e, c))) \<or>
   (c_link c = None \<and> (\<exists>out result err ws c'. establish out result (ce_ios env) c = ((err, ws), c') \<and>
      tcpConnect env c = (err, c')))"
  by (auto simp: tcpConnect_def TCPClient_Connect_def split: option.split sum.split prod.split)

lemma Disconnect_link:
  "linkUp c \<Longrightarrow> c_link (TCPClient_Disconnect io c) = None" "c_lostCh (TCPClient_Disconnect io c) = c_lostCh c"
  by (auto simp: linkUp_def isStopping_def TCPClient_Disconnect_def writeFrame_def teardownLink_def
      failAllWaiters_def updLink_def Let_def split: option.splits sum.splits)

interpretation tcp: connector tcpConnect TCPClient_Disconnect IsConnected c_lostCh drainLost linkUp
proof
  show "tcpConnect env s = (Some ErrAlreadyConnected, s)" if "IsConnected s" for env s
    using tcpConnect_cases[of s env] that by (auto simp: IsConnected_def)
  show "IsConnected s' \<and> linkUp s'" if "tcpConnect env s = (None, s')" for env s s'
    using tcpConnect_cases[of s env] that establish_link(2,3) by (fastforce simp: IsConnected_def)
  show "\<not> IsConnected s'" if "\<not> IsConnected s" "tcpConnect env s = (Some e, s')" for env s s' e
    using tcpConnect_cases[of s env] that establish_link(2) by (fastforce simp: IsConnected_def)
  show "c_lostCh s' = c_lostCh s" if "tcpConnect env s = (r, s')" for env s r s'
    using tcpConnect_cases[of s env] that establish_link(1) by fastforce
qed (simp_all add: Disconnect_link IsConnected_def drainLost_def)


text \<open>A client that holds a token of an earlier session, and a broker that accepts the connect.\<close>

definition exampleDial :: connectEnv where
  "exampleDial = \<lparr>ce_url = None, ce_dial = None, ce_flush = None,
     ce_reader = \<lparr>r_bytes = [0x20, 0x09] @ exampleConnack, r_err = IoEOF\<rparr>,
     ce_ctx = None, ce_aborted = None, ce_ios = []\<rparr>"

definition idleLifecycle :: lifecycle where
  "idleLifecycle = \<lparr>lf_started = False, lf_cancel = None, lf_loopDone = None\<rparr>"

lemma establish_fresh:
  "c_subs c = [] \<Longrightarrow> c_store c = newMemStore \<Longrightarrow> fst (fst (establish out result ios c)) = None"
proof -
  have "memStore_All newMemStore = []" "memStore_All (memStore_Reset newMemStore) = []" by code_simp+
  then show "c_subs c = [] \<Longrightarrow> c_store c = newMemStore \<Longrightarrow> ?thesis"
    by (simp add: establish_def applySession_def replaySession_def replaySubscriptions_def updLink_def
        isStopping_def newLink_def noLink_def Let_def)
qed

lemma exampleDial_accepted:
  assumes "c = (NewTCPClient exampleConfig)\<lparr>c_lostCh := b\<rparr>"
  shows "fst (tcpConnect exampleDial c) = None"
proof -
  have c: "c_cfg c = fst (NewTCPClient_cfg exampleConfig)" "c_inboundMax c = snd (NewTCPClient_cfg exampleConfig)"
    "c_link c = None" "c_subs c = []" "c_store c = newMemStore"
    by (simp_all add: assms NewTCPClient_def case_prod_beta)
  have "case snd (handshake (fst (NewTCPClient_cfg exampleConfig)) (snd (NewTCPClient_cfg exampleConfig)) exampleDial) of
      Inl _ \<Rightarrow> False | Inr _ \<Rightarrow> True"
    by code_simp
  then obtain out ack rd where h: "handshake (c_cfg c) (c_inboundMax c) exampleDial = (out, Inr (ack, rd))"
    unfolding c by (cases "handshake (fst (NewTCPClient_cfg exampleConfig)) (snd (NewTCPClient_cfg exampleConfig)) exampleDial")
      (auto split: sum.splits)
  have "willCheck (c_cfg c) = Inr ()"
    by (simp add: c willCheck_def NewTCPClient_cfg_def exampleConfig_def Let_def)
  then have "TCPClient_Connect exampleDial c = establish out (buildConnectResult ack) [] c"
    using h c(3) by (simp add: TCPClient_Connect_def exampleDial_def)
  then show ?thesis using establish_fresh[OF c(4,5)] by (simp add: tcpConnect_def case_prod_beta)
qed


text \<open>
  C13: The loop is woken by every lost connection and by nothing else. Losing the current link, other
  than by an orderly disconnect, leaves the client disconnected with the token in the channel; the
  loop's next receive takes it and, whatever its backoff state, makes exactly one attempt, after
  which the token is gone and the client is connected if and only if the attempt succeeded. \<^verbatim>\<open>Stop\<close>
  closes the session without waking anything.
\<close>

theorem lifecycle_recovers:
  assumes "c_link c = Some l" "linkUp c"
  shows "let c1 = teardownLink l False c in
      \<not> IsConnected c1 \<and> c_lostCh c1 \<and>
      (\<exists>ls' c2. loop_round cfg (tcpConnect env) c_lostCh drainLost (Lost t draw False) now (ls, c1) = Some (ls', c2) \<and>
         \<not> c_lostCh c2 \<and> (IsConnected c2 \<longleftrightarrow> fst (tcpConnect env (drainLost c1)) = None)) \<and>
      (let c3 = snd (Lifecycle_Stop (TCPClient_Disconnect io) lc c) in
         \<not> IsConnected c3 \<and> c_lostCh c3 = c_lostCh c)"
proof -
  define c1 where "c1 = teardownLink l False c"
  have c1: "\<not> IsConnected c1" "c_lostCh c1"
    using assms by (simp_all add: c1_def linkUp_def isStopping_def teardownLink_def IsConnected_def
        failAllWaiters_def updLink_def Let_def)
  obtain ls' c2 where "loop_round cfg (tcpConnect env) c_lostCh drainLost (Lost t draw False) now (ls, c1) = Some (ls', c2)"
    "\<not> c_lostCh c2" "IsConnected c2 \<longleftrightarrow> fst (tcpConnect env (drainLost c1)) = None"
    using tcp.round_lost[OF c1(2,1)] by metis
  then show ?thesis
    using c1 tcp.disconnect_live[OF assms(2)] tcp.disconnect_lost
    unfolding c1_def[symmetric] by (auto simp: Let_def Lifecycle_Stop_def)
qed

text \<open>The connected client of the example loses its link and the broker accepts the reconnect.\<close>

theorem lifecycle_recovers_witness:
  "let c1 = teardownLink 0 False exampleClient in
   \<not> IsConnected c1 \<and> c_lostCh c1 \<and>
   (\<exists>ls c2. loop_round DefaultLifecycle (tcpConnect exampleDial) c_lostCh drainLost (Lost 0 0 False) 0
       (loop_init DefaultLifecycle 0, c1) = Some (ls, c2))"
proof -
  have e: "c_link exampleClient = Some 0" "linkUp exampleClient"
    by (simp_all add: exampleClient_def linkUp_def isStopping_def NewTCPClient_def noLink_def case_prod_beta)
  show ?thesis
    using lifecycle_recovers[OF e, of DefaultLifecycle exampleDial 0 0 0 "loop_init DefaultLifecycle 0" None idleLifecycle]
    by (auto simp: Let_def)
qed

section \<open>The result of the last connect\<close>

text \<open>\<^verbatim>\<open>ConnectResult\<close>: the negotiated limits and whether there are any.\<close>

definition TCPClient_ConnectResult :: "TCPClient \<Rightarrow> ConnectResult option" where
  "TCPClient_ConnectResult c = c_result c"

text \<open>
  The result describes the last session that was live: a failed connect, also one that dies while
  the session is replayed, a loss and a disconnect leave it in place.
\<close>

lemma ConnectResult_kept:
  "tcpConnect env c = (Some e, c') \<Longrightarrow> TCPClient_ConnectResult c' = TCPClient_ConnectResult c"
  "TCPClient_ConnectResult (teardownLink l g c) = TCPClient_ConnectResult c"
  "TCPClient_ConnectResult (TCPClient_Disconnect io c) = TCPClient_ConnectResult c"
proof -
  show "tcpConnect env c = (Some e, c') \<Longrightarrow> TCPClient_ConnectResult c' = TCPClient_ConnectResult c"
    using tcpConnect_cases[of c env] unfolding TCPClient_ConnectResult_def by (elim disjE) (auto dest: establish_link(4))
qed (auto simp: TCPClient_ConnectResult_def TCPClient_Disconnect_def writeFrame_def teardownLink_def
    failAllWaiters_def updLink_def Let_def split: option.split sum.split)

lemma ConnectResult_new: "tcpConnect env c = (None, c') \<Longrightarrow> TCPClient_ConnectResult c' \<noteq> None"
  using tcpConnect_cases[of c env] unfolding TCPClient_ConnectResult_def by (elim disjE) (auto dest: establish_link(4))

section \<open>A live session is not adopted\<close>

text \<open>
  \<^verbatim>\<open>Connect\<close> documents its answer on a live link as one \<^verbatim>\<open>Lifecycle\<close> treats as idempotent. The loop does;
  \<^verbatim>\<open>Start\<close> reports it as a failure and leaves no loop behind.
\<close>

lemma start_refuses_live:
  assumes "IsConnected c" "\<not> lf_started lc"
  shows "fst (Lifecycle_Start (tcpConnect env) drainLost (TCPClient_Disconnect io) r during lc c) =
    Some (ConnectFailed ErrAlreadyConnected)"
  using assms tcp.connect_live[of "drainLost c" env] tcp.drain_live[of c]
  by (simp add: Lifecycle_Start_def Start_enter_def)

end
