(* ===== verification/Mqtt_TLS.thy ===== *)
theory Mqtt_TLS
  imports Mqtt_Options
begin

text \<open>
  TLS: the client configurations of \<^verbatim>\<open>tls_config.go\<close> and the transport \<^verbatim>\<open>TCPClient.dial\<close>
  (\<^verbatim>\<open>adapter_tcp.go\<close>) opens with them. Reading a file, the PEM and certificate parsers, the socket and
  the handshake are arguments.
\<close>

section \<open>Configurations\<close>

record 'cert tlsConfig =
  tls_ServerName :: gostring
  tls_MinVersion :: uint16
  tls_InsecureSkipVerify :: bool
  tls_RootCAs :: "'cert list option"

definition VersionTLS12 :: uint16 where
  "VersionTLS12 = 0x0303"

definition NewClientTLSConfig :: "gostring \<Rightarrow> bool \<Rightarrow> 'cert tlsConfig" where
  "NewClientTLSConfig serverName insecureSkipVerify =
     \<lparr>tls_ServerName = serverName, tls_MinVersion = VersionTLS12,
      tls_InsecureSkipVerify = insecureSkipVerify, tls_RootCAs = None\<rparr>"

record pemBlock =
  pem_Type :: gostring
  pem_Bytes :: "byte list"

datatype 'e tlsError =
    ErrInsecureWithCA
  | CAFileUnreadable 'e
  | WrongBlock nat gostring
  | BadCertificate nat 'e
  | NoCertificate

text \<open>\<^verbatim>\<open>AddCert\<close>: a pool holds a certificate once.\<close>

definition AddCert :: "'cert \<Rightarrow> 'cert list \<Rightarrow> 'cert list" where
  "AddCert cert pool = (if cert \<in> set pool then pool else pool @ [cert])"

text \<open>The loop of \<^verbatim>\<open>readCABundle\<close>, which ends only if \<^verbatim>\<open>pem.Decode\<close> runs out of blocks.\<close>

partial_function (option) bundleLoop ::
  "(byte list \<Rightarrow> (pemBlock \<times> byte list) option) \<Rightarrow> (byte list \<Rightarrow> 'e + 'cert) \<Rightarrow> byte list \<Rightarrow> nat \<Rightarrow> 'cert list \<Rightarrow>
     ('e tlsError + nat \<times> 'cert list) option" where
  "bundleLoop decode parse left n roots =
     (case decode left of
        None \<Rightarrow> Some (Inr (n, roots))
      | Some (block, left) \<Rightarrow>
          if pem_Type block \<noteq> str ''CERTIFICATE'' then Some (Inl (WrongBlock (Suc n) (pem_Type block)))
          else
            (case parse (pem_Bytes block) of
               Inl e \<Rightarrow> Some (Inl (BadCertificate (Suc n) e))
             | Inr cert \<Rightarrow> bundleLoop decode parse left (Suc n) (AddCert cert roots)))"

definition readCABundle ::
  "(gostring \<Rightarrow> 'e + byte list) \<Rightarrow> (byte list \<Rightarrow> (pemBlock \<times> byte list) option) \<Rightarrow> (byte list \<Rightarrow> 'e + 'cert) \<Rightarrow>
     gostring \<Rightarrow> ('e tlsError + 'cert list) option" where
  "readCABundle readFile decode parse path =
     (case readFile path of
        Inl e \<Rightarrow> Some (Inl (CAFileUnreadable e))
      | Inr data \<Rightarrow>
          (case bundleLoop decode parse data 0 [] of
             None \<Rightarrow> None
           | Some (Inl e) \<Rightarrow> Some (Inl e)
           | Some (Inr (n, roots)) \<Rightarrow> if n = 0 then Some (Inl NoCertificate) else Some (Inr roots)))"

definition NewClientTLSConfigWithCA ::
  "(gostring \<Rightarrow> 'e + byte list) \<Rightarrow> (byte list \<Rightarrow> (pemBlock \<times> byte list) option) \<Rightarrow> (byte list \<Rightarrow> 'e + 'cert) \<Rightarrow>
     gostring \<Rightarrow> gostring \<Rightarrow> bool \<Rightarrow> ('e tlsError + 'cert tlsConfig) option" where
  "NewClientTLSConfigWithCA readFile decode parse serverName caFile insecureSkipVerify =
     (if caFile = [] then Some (Inr (NewClientTLSConfig serverName insecureSkipVerify))
      else if insecureSkipVerify then Some (Inl ErrInsecureWithCA)
      else
        (case readCABundle readFile decode parse caFile of
           None \<Rightarrow> None
         | Some (Inl e) \<Rightarrow> Some (Inl e)
         | Some (Inr roots) \<Rightarrow> Some (Inr ((NewClientTLSConfig serverName False)\<lparr>tls_RootCAs := Some roots\<rparr>))))"

section \<open>The transport\<close>

datatype 'cert transport = Plain gostring | Secure gostring "'cert tlsConfig"

datatype 'e dialError = UnsupportedScheme | DialFailed 'e | HandshakeFailed 'e

text \<open>The configuration of one connection: a copy of the caller's, or the default, with a server name.\<close>

definition connTLSConfig :: "gostring \<Rightarrow> 'cert tlsConfig option \<Rightarrow> 'cert tlsConfig" where
  "connTLSConfig hostname cfg =
     (let tlsCfg = (case cfg of
            Some t \<Rightarrow> t
          | None \<Rightarrow> \<lparr>tls_ServerName = [], tls_MinVersion = VersionTLS12, tls_InsecureSkipVerify = False,
              tls_RootCAs = None\<rparr>)
      in if tls_ServerName tlsCfg = [] then tlsCfg\<lparr>tls_ServerName := hostname\<rparr> else tlsCfg)"

text \<open>\<open>connect\<close> opens the TCP connection and \<open>handshake\<close> runs the TLS handshake; both say how they failed.\<close>

definition TCPClient_dial ::
  "(gostring \<Rightarrow> 'e option) \<Rightarrow> ('cert tlsConfig \<Rightarrow> 'e option) \<Rightarrow> 'cert tlsConfig option \<Rightarrow> brokerURL \<Rightarrow>
     'e dialError + 'cert transport" where
  "TCPClient_dial connect handshake cfg u =
     (case dialTarget u of
        None \<Rightarrow> Inl UnsupportedScheme
      | Some (tlsScheme, host) \<Rightarrow>
          (case connect host of
             Some e \<Rightarrow> Inl (DialFailed e)
           | None \<Rightarrow>
               if \<not> tlsScheme then Inr (Plain host)
               else
                 let tlsCfg = connTLSConfig (url_Hostname u) cfg in
                 (case handshake tlsCfg of
                    Some e \<Rightarrow> Inl (HandshakeFailed e)
                  | None \<Rightarrow> Inr (Secure host tlsCfg))))"

section \<open>What a CA bundle yields\<close>

text \<open>
  The documented behaviour of \<^verbatim>\<open>pem.Decode\<close> the loop relies on: the rest it returns is shorter than its
  input. The blocks of a file are what it returns until it finds no more.
\<close>

definition pemConsumes :: "(byte list \<Rightarrow> (pemBlock \<times> byte list) option) \<Rightarrow> bool" where
  "pemConsumes decode \<longleftrightarrow> (\<forall>d b left. decode d = Some (b, left) \<longrightarrow> length left < length d)"

inductive pemBlocks :: "(byte list \<Rightarrow> (pemBlock \<times> byte list) option) \<Rightarrow> byte list \<Rightarrow> pemBlock list \<Rightarrow> bool"
  for decode where
  last: "decode d = None \<Longrightarrow> pemBlocks decode d []"
| more: "decode d = Some (b, left) \<Longrightarrow> pemBlocks decode left bs \<Longrightarrow> pemBlocks decode d (b # bs)"

lemma pemBlocks_exist:
  assumes "pemConsumes decode"
  shows "\<exists>bs. pemBlocks decode d bs"
proof (induction d rule: length_induct)
  case (1 d)
  show ?case
  proof (cases "decode d")
    case None
    then show ?thesis by (blast intro: pemBlocks.last)
  next
    case (Some p)
    then obtain b left where d: "decode d = Some (b, left)" by (cases p) auto
    then have "length left < length d" using assms by (simp add: pemConsumes_def)
    with 1 d show ?thesis by (blast intro: pemBlocks.more)
  qed
qed

text \<open>The loop over the list of blocks.\<close>

fun bundleOf :: "(byte list \<Rightarrow> 'e + 'cert) \<Rightarrow> pemBlock list \<Rightarrow> nat \<Rightarrow> 'cert list \<Rightarrow> 'e tlsError + nat \<times> 'cert list" where
  "bundleOf parse [] n roots = Inr (n, roots)"
| "bundleOf parse (b # bs) n roots =
     (if pem_Type b \<noteq> str ''CERTIFICATE'' then Inl (WrongBlock (Suc n) (pem_Type b))
      else case parse (pem_Bytes b) of
        Inl e \<Rightarrow> Inl (BadCertificate (Suc n) e)
      | Inr cert \<Rightarrow> bundleOf parse bs (Suc n) (AddCert cert roots))"

lemma bundleLoop_blocks:
  "pemBlocks decode d bs \<Longrightarrow> bundleLoop decode parse d n roots = Some (bundleOf parse bs n roots)"
proof (induction d bs arbitrary: n roots rule: pemBlocks.induct)
  case (last d)
  then show ?case by (subst bundleLoop.simps) simp
next
  case (more d b left bs)
  then show ?case by (subst bundleLoop.simps) (auto split: sum.split)
qed

definition certBlock :: "(byte list \<Rightarrow> 'e + 'cert) \<Rightarrow> pemBlock \<Rightarrow> 'cert \<Rightarrow> bool" where
  "certBlock parse b cert \<longleftrightarrow> pem_Type b = str ''CERTIFICATE'' \<and> parse (pem_Bytes b) = Inr cert"

text \<open>The bundle is refused at the first block that is not a certificate, with its number and kind.\<close>

definition refusedAt :: "(byte list \<Rightarrow> 'e + 'cert) \<Rightarrow> pemBlock list \<Rightarrow> nat \<Rightarrow> bool" where
  "refusedAt parse bs k \<longleftrightarrow> k < length bs \<and> (\<forall>i < k. \<exists>cert. certBlock parse (bs ! i) cert)"

lemma refusedAt_Suc: "certBlock parse b cert \<Longrightarrow> refusedAt parse (b # bs) (Suc k) \<longleftrightarrow> refusedAt parse bs k"
  by (auto simp: refusedAt_def less_Suc_eq_0_disj nth_Cons split: nat.split)

lemma bundleOf_cases:
  "case bundleOf parse bs n roots of
     Inr (m, pool) \<Rightarrow> m = n + length bs \<and>
       (\<exists>certs. list_all2 (certBlock parse) bs certs \<and> set pool = set roots \<union> set certs)
   | Inl (WrongBlock k t) \<Rightarrow> n < k \<and> refusedAt parse bs (k - n - 1) \<and> pem_Type (bs ! (k - n - 1)) = t \<and>
       t \<noteq> str ''CERTIFICATE''
   | Inl (BadCertificate k e) \<Rightarrow> n < k \<and> refusedAt parse bs (k - n - 1) \<and>
       pem_Type (bs ! (k - n - 1)) = str ''CERTIFICATE'' \<and> parse (pem_Bytes (bs ! (k - n - 1))) = Inl e
   | Inl _ \<Rightarrow> False"
proof (induction bs arbitrary: n roots)
  case Nil
  then show ?case by simp
next
  case (Cons b bs)
  show ?case
  proof (cases "\<exists>cert. certBlock parse b cert")
    case False
    then show ?thesis by (auto simp: certBlock_def refusedAt_def split: sum.split)
  next
    case True
    then obtain cert where c: "certBlock parse b cert" ..
    have k: "n < k" "k - n - 1 = Suc (k - Suc n - 1)" if "Suc n < k" for k using that by arith+
    have l: "\<exists>certs'. list_all2 (certBlock parse) (b # bs) certs' \<and> insert cert (A \<union> set certs) = A \<union> set certs'"
      if "list_all2 (certBlock parse) bs certs" for certs A
      using that c by (intro exI[of _ "cert # certs"]) simp
    have s: "set (AddCert cert roots) = insert cert (set roots)" by (auto simp: AddCert_def)
    have e: "bundleOf parse (b # bs) n roots = bundleOf parse bs (Suc n) (AddCert cert roots)"
      using c by (simp add: certBlock_def)
    show ?thesis
      unfolding e using Cons.IH[of "Suc n" "AddCert cert roots"] c k s l
      by (auto simp: refusedAt_Suc[OF c] split: sum.splits tlsError.splits)
  qed
qed

text \<open>
  C27: A CA bundle is read completely or refused with the reason. Given a PEM decoder that consumes
  its input, \<^verbatim>\<open>readCABundle\<close> always returns. It succeeds only if the file has at least one block and
  every block is a certificate that parses, and the pool then holds exactly those certificates.
  Otherwise the error tells that the file could not be read, that it holds no block, or the number
  of the first block that is of another kind or does not parse. It never returns part of a bundle.
\<close>

theorem ca_bundle_exact:
  assumes "pemConsumes decode"
  shows "\<exists>r. readCABundle readFile decode parse path = Some r \<and>
    (case readFile path of
       Inl e \<Rightarrow> r = Inl (CAFileUnreadable e)
     | Inr data \<Rightarrow> \<exists>bs. pemBlocks decode data bs \<and>
         (case r of
            Inr pool \<Rightarrow> bs \<noteq> [] \<and> (\<exists>certs. list_all2 (certBlock parse) bs certs \<and> set pool = set certs)
          | Inl NoCertificate \<Rightarrow> bs = []
          | Inl (WrongBlock k t) \<Rightarrow> 0 < k \<and> refusedAt parse bs (k - 1) \<and> pem_Type (bs ! (k - 1)) = t \<and>
              t \<noteq> str ''CERTIFICATE''
          | Inl (BadCertificate k e) \<Rightarrow> 0 < k \<and> refusedAt parse bs (k - 1) \<and>
              pem_Type (bs ! (k - 1)) = str ''CERTIFICATE'' \<and> parse (pem_Bytes (bs ! (k - 1))) = Inl e
          | Inl _ \<Rightarrow> False))"
proof (cases "readFile path")
  case (Inl e)
  then show ?thesis by (simp add: readCABundle_def)
next
  case (Inr data)
  obtain bs where bs: "pemBlocks decode data bs" using pemBlocks_exist[OF assms] by blast
  show ?thesis
    using bundleOf_cases[where parse = parse and bs = bs and n = 0 and roots = "[]"] bs Inr bundleLoop_blocks[OF bs, where parse = parse and n = 0 and roots = "[]"]
    by (cases "bundleOf parse bs 0 []")
       (auto simp: readCABundle_def intro!: exI[of _ bs] split: tlsError.splits)
qed

lemma readCABundle_pool:
  assumes "pemConsumes decode" "readCABundle readFile decode parse path = Some (Inr pool)"
  obtains data bs certs where "readFile path = Inr data" "pemBlocks decode data bs" "bs \<noteq> []"
    "list_all2 (certBlock parse) bs certs" "set pool = set certs"
proof -
  obtain data where d: "readFile path = Inr data"
    using assms(2) by (cases "readFile path") (auto simp: readCABundle_def)
  obtain bs where bs: "pemBlocks decode data bs" using pemBlocks_exist[OF assms(1)] by blast
  show ?thesis
    using that[OF d bs] bundleOf_cases[where parse = parse and bs = bs and n = 0 and roots = "[]"] assms(2) d bundleLoop_blocks[OF bs, where parse = parse and n = 0 and roots = "[]"]
    by (cases "bundleOf parse bs 0 []") (auto simp: readCABundle_def split: if_splits)
qed

text \<open>A decoder for blocks of a kind byte and one byte of contents; a bundle of two certificates.\<close>

definition exampleDecode :: "byte list \<Rightarrow> (pemBlock \<times> byte list) option" where
  "exampleDecode d =
     (case d of
        k # b # ds \<Rightarrow>
          Some (\<lparr>pem_Type = (if k = 1 then str ''CERTIFICATE'' else str ''PRIVATE KEY''), pem_Bytes = [b]\<rparr>, ds)
      | _ \<Rightarrow> None)"

lemma exampleDecode_consumes: "pemConsumes exampleDecode"
  by (auto simp: pemConsumes_def exampleDecode_def split: list.splits)

definition exampleFiles :: "gostring \<Rightarrow> unit + byte list" where
  "exampleFiles path = (if path = str ''ca'' then Inr [1, 7, 1, 9] else if path = str ''key'' then Inr [1, 7, 2, 9] else Inl ())"

definition exampleParse :: "byte list \<Rightarrow> unit + byte" where
  "exampleParse bs = (case bs of [b] \<Rightarrow> Inr b | _ \<Rightarrow> Inl ())"

lemma exampleBundle:
  "readCABundle exampleFiles exampleDecode exampleParse (str ''ca'') = Some (Inr [7, 9])"
  "readCABundle exampleFiles exampleDecode exampleParse (str ''key'') = Some (Inl (WrongBlock 2 (str ''PRIVATE KEY'')))"
proof -
  have f: "exampleFiles (str ''ca'') = Inr [1, 7, 1, 9]" "exampleFiles (str ''key'') = Inr [1, 7, 2, 9]"
    "str ''PRIVATE KEY'' \<noteq> str ''CERTIFICATE''" by code_simp+
  then have "bundleLoop exampleDecode exampleParse [1, 7, 1, 9] 0 [] = Some (Inr (2, [7, 9]))"
    "bundleLoop exampleDecode exampleParse [1, 7, 2, 9] 0 [] = Some (Inl (WrongBlock 2 (str ''PRIVATE KEY'')))"
    by (simp_all add: bundleLoop.simps exampleDecode_def exampleParse_def AddCert_def numeral_2_eq_2)
  with f show "readCABundle exampleFiles exampleDecode exampleParse (str ''ca'') = Some (Inr [7, 9])"
    "readCABundle exampleFiles exampleDecode exampleParse (str ''key'') = Some (Inl (WrongBlock 2 (str ''PRIVATE KEY'')))"
    by (simp_all add: readCABundle_def)
qed

theorem ca_bundle_exact_witness:
  "\<exists>bs. pemBlocks exampleDecode [1, 7, 2, 9] bs \<and> refusedAt exampleParse bs 1 \<and>
     pem_Type (bs ! 1) = str ''PRIVATE KEY''"
proof -
  have "exampleFiles (str ''key'') = Inr [1, 7, 2, 9]" by code_simp
  then show ?thesis
    using ca_bundle_exact[OF exampleDecode_consumes, of exampleFiles exampleParse "str ''key''"]
    by (auto simp: exampleBundle)
qed

section \<open>What a connection trusts\<close>

text \<open>
  C15: A connection with a pinned CA is a verified one. Let a configuration be built with a CA file
  and let \<^verbatim>\<open>dial\<close> return a connection for a URL whose scheme asks for TLS. Then the connection is a
  TLS connection whose handshake succeeded under a configuration that verifies the broker, against
  exactly the certificates of the file and for the configured server name (or the host of the URL
  when none was given), with TLS 1.2 or newer. No error of the file and no request to skip
  verification gets that far.
\<close>

theorem tls_pinned:
  assumes "pemConsumes decode" "caFile \<noteq> []"
    and "NewClientTLSConfigWithCA readFile decode parse serverName caFile skip = Some (Inr cfg)"
    and "url_Scheme u \<in> {str ''tls'', str ''ssl'', str ''mqtts''}"
    and "TCPClient_dial connect handshake (Some cfg) u = Inr conn"
  shows "\<exists>host cfg' pool data bs certs. conn = Secure host cfg' \<and> connect host = None \<and> handshake cfg' = None \<and>
    \<not> tls_InsecureSkipVerify cfg' \<and> tls_MinVersion cfg' = VersionTLS12 \<and>
    tls_ServerName cfg' = (if serverName = [] then url_Hostname u else serverName) \<and>
    tls_RootCAs cfg' = Some pool \<and> readFile caFile = Inr data \<and> pemBlocks decode data bs \<and> bs \<noteq> [] \<and>
    list_all2 (certBlock parse) bs certs \<and> set pool = set certs"
proof -
  obtain pool where p: "readCABundle readFile decode parse caFile = Some (Inr pool)"
    and cfg: "cfg = (NewClientTLSConfig serverName False)\<lparr>tls_RootCAs := Some pool\<rparr>"
    using assms(2,3) by (auto simp: NewClientTLSConfigWithCA_def split: if_splits option.splits sum.splits)
  obtain data bs certs where f: "readFile caFile = Inr data" "pemBlocks decode data bs" "bs \<noteq> []"
    "list_all2 (certBlock parse) bs certs" "set pool = set certs"
    by (rule readCABundle_pool[OF assms(1) p])
  define cfg' where "cfg' = connTLSConfig (url_Hostname u) (Some cfg)"
  obtain host where c: "conn = Secure host cfg'" "connect host = None" "handshake cfg' = None"
    using assms(4,5) by (auto simp: TCPClient_dial_def dialTarget_def cfg'_def Let_def split: option.splits if_splits)
  have "\<not> tls_InsecureSkipVerify cfg'" "tls_MinVersion cfg' = VersionTLS12" "tls_RootCAs cfg' = Some pool"
    "tls_ServerName cfg' = (if serverName = [] then url_Hostname u else serverName)"
    by (simp_all add: cfg'_def cfg connTLSConfig_def NewClientTLSConfig_def Let_def)
  with c f show ?thesis by blast
qed

text \<open>The example bundle, and a broker whose certificate verifies against one of its certificates.\<close>

definition exampleURL :: brokerURL where
  "exampleURL = \<lparr>url_Scheme = str ''tls'', url_Host = str ''b'', url_Hostname = str ''b'', url_Port = []\<rparr>"

definition exampleVerify :: "byte tlsConfig \<Rightarrow> unit option" where
  "exampleVerify cfg =
     (case tls_RootCAs cfg of
        Some roots \<Rightarrow> if 9 \<in> set roots \<and> tls_ServerName cfg = str ''b'' then None else Some ()
      | None \<Rightarrow> Some ())"

theorem tls_pinned_witness:
  "\<exists>host cfg' pool data bs certs. TCPClient_dial (\<lambda>_. None) exampleVerify
      (Some ((NewClientTLSConfig [] False)\<lparr>tls_RootCAs := Some [7, 9]\<rparr>)) exampleURL = Inr (Secure host cfg') \<and>
    \<not> tls_InsecureSkipVerify cfg' \<and> tls_ServerName cfg' = str ''b'' \<and> tls_RootCAs cfg' = Some pool \<and>
    exampleFiles (str ''ca'') = Inr data \<and> pemBlocks exampleDecode data bs \<and>
    list_all2 (certBlock exampleParse) bs certs \<and> set pool = set certs"
proof -
  define cfg :: "byte tlsConfig" where "cfg = (NewClientTLSConfig [] False)\<lparr>tls_RootCAs := Some [7, 9]\<rparr>"
  have n: "str ''ca'' \<noteq> []" and h: "url_Hostname exampleURL = str ''b''"
    and s: "url_Scheme exampleURL \<in> {str ''tls'', str ''ssl'', str ''mqtts''}" by code_simp+
  have c: "NewClientTLSConfigWithCA exampleFiles exampleDecode exampleParse [] (str ''ca'') False = Some (Inr cfg)"
    using n by (simp add: NewClientTLSConfigWithCA_def exampleBundle cfg_def)
  obtain conn where d: "TCPClient_dial (\<lambda>_. None :: unit option) exampleVerify (Some cfg) exampleURL = Inr conn"
    using s h by (auto simp: TCPClient_dial_def dialTarget_def connTLSConfig_def cfg_def NewClientTLSConfig_def
        exampleVerify_def exampleURL_def Let_def)
  show ?thesis
    using tls_pinned[OF exampleDecode_consumes n c s d] d unfolding cfg_def h by clarsimp blast
qed

end
