(* ===== verification/Mqtt_Facade.thy ===== *)
theory Mqtt_Facade
  imports Mqtt_Breaker Mqtt_Pump
begin

text \<open>
  The client as an application holds it (\<^verbatim>\<open>client.go\<close>): a publisher and a subscriber joined by
  \<^verbatim>\<open>SplitClient\<close>, the publisher being a circuit breaker (\<^verbatim>\<open>breaker.go\<close>) in front of the TCP client
  (\<^verbatim>\<open>publish.go\<close>). Here a whole call of \<^verbatim>\<open>Publish\<close> is composed from its halves, the breaker calls it,
  and the accessors of the TCP client say what the last session was.
\<close>

section \<open>Whole calls\<close>

text \<open>
  What surrounds one call: the outcome of its write, what other goroutines do each time it waits for
  a permit and while it waits for the acknowledgement, how that wait ends, and the error of its
  context, which ends the wait for a permit.
\<close>

record publishArgs =
  pa_topic :: gostring
  pa_payload :: "byte list"
  pa_qos :: QoS
  pa_retain :: bool
  pa_opts :: "PublishOption list"

record callEnv =
  en_io :: "nat option"
  en_parks :: "(TCPClient \<Rightarrow> TCPClient) list"
  en_during :: "TCPClient \<Rightarrow> TCPClient"
  en_how :: ackWait
  en_ctx :: cerror

text \<open>\<^verbatim>\<open>publishAcked\<close>, tried again after every wait for a permit.\<close>

fun publishAcked ::
  "nat \<Rightarrow> PublishPacket \<Rightarrow> callEnv \<Rightarrow> (TCPClient \<Rightarrow> TCPClient) list \<Rightarrow> sendResult \<times> TCPClient \<Rightarrow>
     cerror option \<times> TCPClient" where
  "publishAcked l pkt env parks (SendFailed err, c) = (Some err, c)"
| "publishAcked l pkt env parks (SendWaiting ident ch, c) = publishAcked_finish ident ch (en_how env) (en_during env c)"
| "publishAcked l pkt env [] (SendParked w, c) = (Some (en_ctx env), c)"
| "publishAcked l pkt env (f # fs) (SendParked w, c) =
     publishAcked l pkt env fs (publishAcked_send l pkt (en_io env) (f c))"

definition publishPacket :: "Version \<Rightarrow> publishArgs \<Rightarrow> PublishPacket" where
  "publishPacket v a =
     \<lparr>pub_Version = v, pub_Topic = pa_topic a, pub_Payload = pa_payload a, pub_QoS = pa_qos a,
      pub_Retain = pa_retain a, pub_Dup = False, pub_PacketID = 0,
      pub_Properties = buildPublishProps v (fold (\<lambda>o' po. o' po) (pa_opts a) noPublishOptions)\<rparr>"

definition clientPublish :: "publishArgs \<Rightarrow> callEnv \<Rightarrow> TCPClient \<Rightarrow> cerror option \<times> TCPClient" where
  "clientPublish a env c =
     (case TCPClient_Publish (pa_topic a) (pa_payload a) (pa_qos a) (pa_retain a) (pa_opts a) (en_io env) c of
        (PublishDone err, c') \<Rightarrow> (err, c')
      | (PublishSent r, c') \<Rightarrow>
          publishAcked (the (c_link c)) (publishPacket (c_version c) a) env (en_parks env) (r, c'))"

section \<open>The joined client\<close>

record ('p, 's, 'u) Client =
  cl_Publish :: 'p
  cl_Subscribe :: 's
  cl_Unsubscribe :: 'u

definition SplitClient :: "'p \<Rightarrow> 's \<times> 'u \<Rightarrow> ('p, 's, 'u) Client" where
  "SplitClient p s = \<lparr>cl_Publish = p, cl_Subscribe = fst s, cl_Unsubscribe = snd s\<rparr>"

text \<open>\<^verbatim>\<open>Breaker.Publish\<close> around any publisher with a state of its own.\<close>

definition guard ::
  "('a \<Rightarrow> 's \<Rightarrow> cerror option \<times> 's) \<Rightarrow> int \<Rightarrow> int \<Rightarrow> cerror option \<Rightarrow> 'a \<Rightarrow> Breaker \<times> 's \<Rightarrow>
     (cerror option \<times> stateChange list) \<times> Breaker \<times> 's" where
  "guard publish now later ctx a = (\<lambda>(b, c).
     (let ((adm, admitted, transition), b) = admit now b in
      if \<not> admitted then ((Some ErrCircuitOpen, []), b, c)
      else
        let (cs1, b) = (if transition then fireStateChanges b else ([], b));
            (err, c) = publish a c;
            (fire, b) = record_outcome later ctx adm err b;
            (cs2, b) = (if fire then fireStateChanges b else ([], b))
        in ((err, cs1 @ cs2), b, c)))"

definition Breaker_State :: "Breaker \<Rightarrow> BreakerState" where
  "Breaker_State b = br_state b"

text \<open>
  The client an application builds, \<^verbatim>\<open>SplitClient(NewBreaker(client, cfg), client)\<close>. A call has the
  clock at both ends, the error of its context, its arguments and its surroundings.
\<close>

type_synonym guardedCall = "int \<times> int \<times> cerror option \<times> publishArgs \<times> callEnv"

definition guardedClient where
  "guardedClient =
     SplitClient (\<lambda>(now, later, ctx, a :: publishArgs \<times> callEnv). guard (\<lambda>(a, env). clientPublish a env) now later ctx a)
       (TCPClient_Subscribe_send, TCPClient_Unsubscribe_send)"

fun runCalls :: "('call \<Rightarrow> 'g \<Rightarrow> (cerror option \<times> 'x) \<times> 'g) \<Rightarrow> 'call list \<Rightarrow> 'g \<Rightarrow> cerror option list \<times> 'g" where
  "runCalls publish [] g = ([], g)"
| "runCalls publish (call # calls) g =
     (let ((r, cs), g) = publish call g; (rs, g) = runCalls publish calls g in (r # rs, g))"

section \<open>The breaker in front of a publisher\<close>

lemma guard_eq:
  "guard publish now later ctx a (b, c) =
     (let (r, b') = Breaker_Publish now later ctx (fst (publish a c)) b in
      (r, b', if fst (snd (fst (admit now b))) then snd (publish a c) else c))"
  by (auto simp: guard_def Breaker_Publish_def Let_def case_prod_beta)

text \<open>A rejected call does not reach the publisher.\<close>

lemma guard_rejected:
  assumes "idle b" "abs_circuit b = Tripped t" "now - t < bc_RecoveryTimeout (br_cfg b)"
  shows "guard publish now later ctx a (b, c) = ((Some ErrCircuitOpen, []), b, c)"
  using assms by (auto simp: guard_def admit_def abs_circuit_def idle_def Let_def split: if_splits)

section \<open>An outage\<close>

text \<open>The machine of the breaker's contract under one failure after another.\<close>

definition offlineCall :: "int \<times> int \<times> cerror option \<times> 'a \<Rightarrow> publishCall" where
  "offlineCall = (\<lambda>(now, later, ctx, a). (now, later, ctx, Some ErrNotConnected))"

lemma offlineCall_simp [simp]: "offlineCall (now, later, ctx, a) = (now, later, ctx, Some ErrNotConnected)"
  by (simp add: offlineCall_def)

lemma circuit_tripped:
  "\<forall>call \<in> set calls. fst call - t < bc_RecoveryTimeout cfg \<Longrightarrow>
   runCircuit cfg (map offlineCall calls) (Tripped t) = (replicate (length calls) (Some ErrCircuitOpen), Tripped t)"
proof (induction calls)
  case (Cons call calls)
  then show ?case
    by (cases call) (simp add: circuit_publish_def)
qed simp

lemma circuit_outage:
  assumes "0 \<le> k" "k < bc_FailureThreshold cfg" "n = nat (bc_FailureThreshold cfg - k)"
    and "\<forall>call \<in> set (drop n calls). fst call - fst (snd (calls ! (n - 1))) < bc_RecoveryTimeout cfg"
  shows "fst (runCircuit cfg (map offlineCall calls) (Healthy k)) =
    replicate (min n (length calls)) (Some ErrNotConnected) @ replicate (length calls - n) (Some ErrCircuitOpen)"
  using assms
proof (induction calls arbitrary: k n)
  case (Cons call calls)
  obtain now later ctx a where call: "call = (now, later, ctx, a)" by (cases call)
  have f: "failed ctx (Some ErrNotConnected)" by (simp add: failed_def countableFailure_def)
  have "0 < n" using Cons.prems(2,3) by simp
  then obtain m where n: "n = Suc m" using gr0_implies_Suc by blast
  show ?case
  proof (cases m)
    case 0
    then have "k + 1 \<ge> bc_FailureThreshold cfg" using Cons.prems(3) n by simp
    moreover have "\<forall>call \<in> set calls. fst call - later < bc_RecoveryTimeout cfg"
      using Cons.prems(4) by (simp add: n 0 call)
    ultimately show ?thesis
      using circuit_tripped[of calls later cfg] f by (simp add: call circuit_publish_def n 0)
  next
    case (Suc m')
    then have "k + 1 < bc_FailureThreshold cfg" "m = nat (bc_FailureThreshold cfg - (k + 1))"
      using Cons.prems(1-3) n by auto
    moreover from this have "fst (runCircuit cfg (map offlineCall calls) (Healthy (k + 1))) =
        replicate (min m (length calls)) (Some ErrNotConnected) @ replicate (length calls - m) (Some ErrCircuitOpen)"
      using Cons.prems(1,4) by (intro Cons.IH) (auto simp: n Suc)
    ultimately show ?thesis
      using f by (simp add: call circuit_publish_def n case_prod_beta)
  qed
qed simp

text \<open>
  The contract of a \<^verbatim>\<open>Publisher\<close> the breaker protects: without a connection a valid publish fails at once
  with \<^verbatim>\<open>ErrNotConnected\<close> and changes nothing.
\<close>

locale publisher =
  fixes publish :: "'a \<Rightarrow> 's \<Rightarrow> cerror option \<times> 's"
    and offline :: "'s \<Rightarrow> bool"
    and valid :: "'s \<Rightarrow> 'a \<Rightarrow> bool"
  assumes offline_fails: "offline c \<Longrightarrow> valid c a \<Longrightarrow> publish a c = (Some ErrNotConnected, c)"
begin

lemma run_offline:
  assumes "offline c" "\<forall>(now, later, ctx, a) \<in> set calls. valid c a"
  shows "runCalls (\<lambda>(now, later, ctx, a). guard publish now later ctx a) calls (b, c) =
    (fst (runBreaker (map offlineCall calls) b), snd (runBreaker (map offlineCall calls) b), c)"
  using assms(2)
proof (induction calls arbitrary: b)
  case (Cons call calls)
  obtain now later ctx a where call: "call = (now, later, ctx, a)" by (cases call)
  have "publish a c = (Some ErrNotConnected, c)"
    using Cons.prems by (intro offline_fails[OF assms(1)]) (simp add: call)
  then have "guard publish now later ctx a (b, c) =
      (let (r, b') = Breaker_Publish now later ctx (Some ErrNotConnected) b in (r, b', c))"
    by (simp add: guard_eq case_prod_beta Let_def)
  then show ?case
    using Cons by (simp add: call case_prod_beta Let_def)
qed simp

lemma outage:
  assumes "offline c" "\<forall>(now, later, ctx, a) \<in> set calls. valid c a"
    and "n = nat (bc_FailureThreshold (br_cfg (NewBreaker cfg)))"
    and "\<forall>call \<in> set (drop n calls).
      fst call - fst (snd (calls ! (n - 1))) < bc_RecoveryTimeout (br_cfg (NewBreaker cfg))"
  defines "r \<equiv> runCalls (\<lambda>(now, later, ctx, a). guard publish now later ctx a) calls (NewBreaker cfg, c)"
  shows "fst r = replicate (min n (length calls)) (Some ErrNotConnected) @ replicate (length calls - n) (Some ErrCircuitOpen)"
    "snd (snd r) = c"
proof -
  have "0 < bc_FailureThreshold (br_cfg (NewBreaker cfg))" "abs_circuit (NewBreaker cfg) = Healthy 0"
    by (simp_all add: NewBreaker_def abs_circuit_def Let_def)
  then have "fst (runBreaker (map offlineCall calls) (NewBreaker cfg)) =
      replicate (min n (length calls)) (Some ErrNotConnected) @ replicate (length calls - n) (Some ErrCircuitOpen)"
    using circuit_outage[of 0 "br_cfg (NewBreaker cfg)" n calls] assms(3,4)
      arg_cong[OF runBreaker_refines[OF idle_new, of "map offlineCall calls" cfg], of fst] by simp
  then show "fst r = replicate (min n (length calls)) (Some ErrNotConnected) @ replicate (length calls - n) (Some ErrCircuitOpen)"
    "snd (snd r) = c"
    unfolding r_def run_offline[OF assms(1,2)] by simp_all
qed

end

text \<open>The TCP client is such a publisher.\<close>

definition argsOk :: "Version \<Rightarrow> publishArgs \<Rightarrow> bool" where
  "argsOk v a \<longleftrightarrow> ValidateTopicName (pa_topic a) = Inr () \<and> pa_qos a \<le> QoS2 \<and>
     (let po = fold (\<lambda>o' po. o' po) (pa_opts a) noPublishOptions in
      v = V50 \<and> po_responseTopic po \<noteq> [] \<longrightarrow> ValidateTopicName (po_responseTopic po) = Inr ())"

lemma clientPublish_offline:
  assumes "c_link c = None" "argsOk (c_version c) a"
  shows "clientPublish a env c = (Some ErrNotConnected, c)"
  using assms by (auto simp: clientPublish_def TCPClient_Publish_def argsOk_def Let_def)

interpretation tcp_pub: publisher "\<lambda>(a, env). clientPublish a env" "\<lambda>c. c_link c = None"
  "\<lambda>c (a, env). argsOk (c_version c) a"
  by unfold_locales (auto simp: clientPublish_offline)

text \<open>
  C14: During an outage publishing fails fast and touches nothing. Take a fresh breaker in front of a
  disconnected client and any number of valid publishes, whatever happens around them. The first
  \<^verbatim>\<open>FailureThreshold\<close> of them report \<^verbatim>\<open>ErrNotConnected\<close>; all later ones, as long as the recovery timeout
  has not passed since the circuit opened, report \<^verbatim>\<open>ErrCircuitOpen\<close>. No packet identifier, no permit
  of the quota, no stored message and no byte is spent on any of them.
\<close>

theorem outage_fails_fast:
  assumes "c_link c = None" "\<forall>(now, later, ctx, a, env) \<in> set calls. argsOk (c_version c) a"
    and "n = nat (bc_FailureThreshold (br_cfg (NewBreaker cfg)))"
    and "\<forall>call \<in> set (drop n calls).
      fst call - fst (snd (calls ! (n - 1))) < bc_RecoveryTimeout (br_cfg (NewBreaker cfg))"
  shows "fst (runCalls (cl_Publish guardedClient) calls (NewBreaker cfg, c)) =
      replicate (min n (length calls)) (Some ErrNotConnected) @ replicate (length calls - n) (Some ErrCircuitOpen) \<and>
    snd (snd (runCalls (cl_Publish guardedClient) calls (NewBreaker cfg, c))) = c"
  using tcp_pub.outage[OF assms(1) _ assms(3,4)] assms(2) by (simp add: guardedClient_def SplitClient_def)

text \<open>Seven publishes, a second apart, with the default configuration of the breaker.\<close>

definition exampleArgs :: publishArgs where
  "exampleArgs = \<lparr>pa_topic = str ''a'', pa_payload = [1], pa_qos = QoS1, pa_retain = False, pa_opts = []\<rparr>"

definition exampleCall :: "int \<Rightarrow> guardedCall" where
  "exampleCall t = (t, t, None, exampleArgs,
     \<lparr>en_io = None, en_parks = [], en_during = id, en_how = TimedOut, en_ctx = CtxCanceled\<rparr>)"

definition exampleDefaults :: BreakerConfig where
  "exampleDefaults = \<lparr>bc_FailureThreshold = 0, bc_RecoveryTimeout = 0, bc_HalfOpenMax = 0, bc_OnStateChange = False\<rparr>"

theorem outage_fails_fast_witness:
  "fst (runCalls (cl_Publish guardedClient) (map (\<lambda>i. exampleCall (int i * 1000000000)) [0..<7])
       (NewBreaker exampleDefaults, NewTCPClient exampleConfig)) =
     replicate 5 (Some ErrNotConnected) @ replicate 2 (Some ErrCircuitOpen)"
proof -
  have c: "c_link (NewTCPClient exampleConfig) = None" by (simp add: NewTCPClient_def case_prod_beta)
  have "ValidateTopicName (str ''a'') = Inr ()" by code_simp
  then have a: "argsOk v exampleArgs" for v
    by (simp add: argsOk_def exampleArgs_def noPublishOptions_def)
  have n: "5 = nat (bc_FailureThreshold (br_cfg (NewBreaker exampleDefaults)))"
    by (simp add: NewBreaker_def exampleDefaults_def Let_def)
  define calls where "calls = map (\<lambda>i. exampleCall (int i * 1000000000)) [0..<7]"
  have len: "length calls = 7" by (simp add: calls_def)
  have args: "\<forall>(now, later, ctx, a, env) \<in> set calls. argsOk v a" for v
    using a by (simp add: calls_def exampleCall_def)
  have late: "\<forall>call \<in> set (drop 5 calls). fst call - fst (snd (calls ! (5 - 1))) <
      bc_RecoveryTimeout (br_cfg (NewBreaker exampleDefaults))"
    by (simp add: calls_def exampleCall_def upt_rec NewBreaker_def exampleDefaults_def Let_def)
  show ?thesis
    using conjunct1[OF outage_fails_fast[OF c args n late]] unfolding calls_def[symmetric] len by simp
qed

end
