(* ===== verification/Mqtt_Outbound.thy ===== *)
theory Mqtt_Outbound
  imports Mqtt_Session Mqtt_Connector
begin

text \<open>
  What the broker reads. Everything the client writes to a link goes through \<^verbatim>\<open>writeFrame\<close>
  (\<^verbatim>\<open>adapter_tcp.go\<close>) and one of the encoders of the package \<^verbatim>\<open>protocol\<close>; here the two meet. In every
  state of a session the bytes on a link in use are a CONNECT and then complete packets, each
  legal for a client to send and within the size the broker accepts.
\<close>

section \<open>Packets a client sends\<close>

definition clientTypes :: "PacketType set" where
  "clientTypes = {Publish, Puback, Pubrec, Pubrel, Pubcomp, Subscribe, Unsubscribe, Pingreq, Disconnect}"

definition clientFrame :: "Frame \<Rightarrow> bool" where
  "clientFrame f \<longleftrightarrow> packetType (Header f) \<in> clientTypes \<and> ValidateFlags f = Inr ()"

definition written :: "Frame \<Rightarrow> byte list \<Rightarrow> bool" where
  "written f pkt \<longleftrightarrow> writePacket [] (Header f) (Body f) = Inr pkt"

text \<open>An encoder whose packets are client packets.\<close>

definition sendable :: "(byte list \<Rightarrow> gerror + byte list) \<Rightarrow> bool" where
  "sendable e \<longleftrightarrow> (\<forall>pkt. e [] = Inr pkt \<longrightarrow> (\<exists>f. written f pkt \<and> clientFrame f))"

lemma sendableI:
  assumes "\<And>pkt. e [] = Inr pkt \<Longrightarrow> \<exists>h body. writePacket [] h body = Inr pkt \<and> clientFrame \<lparr>Header = h, Body = body\<rparr>"
  shows "sendable e"
  using assms unfolding sendable_def written_def by (metis Frame.select_convs(1,2))

lemma sendable_publish [simp]: "sendable (PublishPacket_Encode p)"
proof (rule sendableI)
  fix pkt assume "PublishPacket_Encode p [] = Inr pkt"
  then obtain body where q: "pub_QoS p \<le> 2" "pub_Dup p \<Longrightarrow> pub_QoS p \<noteq> 0"
    and w: "writePacket [] (publishHeader (pub_Dup p) (pub_QoS p) (pub_Retain p)) body = Inr pkt"
    by (rule PublishPacket_EncodeE) blast
  have "pub_QoS p \<noteq> 3" using q(1) by auto
  then have "clientFrame \<lparr>Header = publishHeader (pub_Dup p) (pub_QoS p) (pub_Retain p), Body = body\<rparr>"
    using publishHeader_flags[OF q(1), of "pub_Dup p" "pub_Retain p"] q(2)
    by (auto simp: clientFrame_def clientTypes_def packetType_def ValidateFlags_def Let_def)
  with w show "\<exists>h body. writePacket [] h body = Inr pkt \<and> clientFrame \<lparr>Header = h, Body = body\<rparr>" by blast
qed

lemma sendable_ack [simp]: "sendable (EncodeAck p)"
proof (rule sendableI)
  fix pkt assume "EncodeAck p [] = Inr pkt"
  then obtain target body where t: "ackTarget (ack_Type p) = Some target"
    and w: "writePacket [] (ackHeader (ack_Type p)) body = Inr pkt" by (rule EncodeAckE) blast
  from t have "ack_Type p \<in> clientTypes" by (auto simp: ackTarget_def clientTypes_def split: if_splits)
  then have "clientFrame \<lparr>Header = ackHeader (ack_Type p), Body = body\<rparr>"
    using ackHeader_frame[OF t] by (simp add: clientFrame_def)
  with w show "\<exists>h body. writePacket [] h body = Inr pkt \<and> clientFrame \<lparr>Header = h, Body = body\<rparr>" by blast
qed

lemma sendable_control [simp]: "sendable (DisconnectPacket_Encode d)" "sendable EncodePingReq"
proof -
  have f: "clientFrame \<lparr>Header = push_bit 4 Disconnect, Body = b\<rparr>" "clientFrame \<lparr>Header = push_bit 4 Pingreq, Body = b\<rparr>" for b
    by (simp_all add: clientFrame_def clientTypes_def packetType_def ValidateFlags_def Let_def)
  show "sendable (DisconnectPacket_Encode d)"
    by (rule sendableI) (blast elim: DisconnectPacket_EncodeE intro: f)
  show "sendable EncodePingReq" using f(2) by (intro sendableI) (auto simp: EncodePingReq_def)
qed

lemma sendable_request [simp]: "sendable (SubscribePacket_Encode sp)" "sendable (UnsubscribePacket_Encode up)"
proof -
  have f: "clientFrame \<lparr>Header = push_bit 4 Subscribe OR 2, Body = b\<rparr>"
    "clientFrame \<lparr>Header = push_bit 4 Unsubscribe OR 2, Body = b\<rparr>" for b
    by (simp_all add: clientFrame_def clientTypes_def packetType_def ValidateFlags_def Let_def)
  show "sendable (SubscribePacket_Encode sp)" using f(1)
    by (intro sendableI) (fastforce simp: SubscribePacket_Encode_def andthen_Inr_iff Let_def split: if_splits)
  show "sendable (UnsubscribePacket_Encode up)" using f(2)
    by (intro sendableI) (fastforce simp: UnsubscribePacket_Encode_def andthen_Inr_iff Let_def split: if_splits)
qed

lemma sendable_replay: "replayEncoder v m = Some e \<Longrightarrow> sendable e"
  by (auto simp: replayEncoder_def split: if_splits)

section \<open>Operations append packets\<close>

text \<open>A packet on a link whose broker accepts packets up to \<open>lim\<close> bytes (zero for any size).\<close>

definition sent :: "uint32 \<Rightarrow> Frame \<Rightarrow> byte list \<Rightarrow> bool" where
  "sent lim f pkt \<longleftrightarrow> written f pkt \<and> clientFrame f \<and> (lim \<noteq> 0 \<longrightarrow> length pkt \<le> unat lim)"

definition sentBytes :: "uint32 \<Rightarrow> Frame list \<Rightarrow> byte list \<Rightarrow> bool" where
  "sentBytes lim fs bs \<longleftrightarrow> (\<exists>pkts. list_all2 (sent lim) fs pkts \<and> bs = concat pkts)"

lemma sentBytes_Nil [simp]: "sentBytes lim [] []"
  by (simp add: sentBytes_def)

lemma sentBytes_append: "sentBytes lim fs bs \<Longrightarrow> sentBytes lim gs cs \<Longrightarrow> sentBytes lim (fs @ gs) (bs @ cs)"
  unfolding sentBytes_def by (metis concat_append list_all2_appendI)

definition appends :: "TCPClient \<Rightarrow> TCPClient \<Rightarrow> bool" where
  "appends c c' \<longleftrightarrow> c_nextLink c' = c_nextLink c \<and>
     (\<forall>l. \<not> l_stopped (c_links c' l) \<longrightarrow>
        \<not> l_stopped (c_links c l) \<and> l_outboundMax (c_links c' l) = l_outboundMax (c_links c l) \<and>
        (\<exists>fs bs. sentBytes (l_outboundMax (c_links c l)) fs bs \<and> l_out (c_links c' l) = l_out (c_links c l) @ bs))"

lemma appends_same: "c_nextLink c' = c_nextLink c \<Longrightarrow> c_links c' = c_links c \<Longrightarrow> appends c c'"
  unfolding appends_def by (metis append_Nil2 sentBytes_Nil)

lemma appends_refl [simp]: "appends c c"
  by (simp add: appends_same)

lemma appends_trans: "appends a b \<Longrightarrow> appends b c \<Longrightarrow> appends a c"
  unfolding appends_def by (metis append_assoc sentBytes_append)

lemma appends_updLink:
  assumes "\<And>k. l_out (f k) = l_out k \<and> l_outboundMax (f k) = l_outboundMax k \<and> (l_stopped k \<longrightarrow> l_stopped (f k))"
  shows "appends c (updLink l f c)"
proof -
  have "\<not> l_stopped (c_links c l)" if "\<not> l_stopped (f (c_links c l))" using assms that by blast
  then show ?thesis
    using assms unfolding appends_def updLink_def by (auto intro!: exI[of _ "[]"])
qed

lemma appends_teardownLink: "appends c (teardownLink l g c)"
proof -
  have "appends c (updLink l (l_stopped_update (\<lambda>_. True)) c)" by (rule appends_updLink) simp
  then show ?thesis
    by (auto simp: teardownLink_def failAllWaiters_def Let_def intro: appends_trans[OF _ appends_same])
qed

lemma written_length: "written f pkt \<Longrightarrow> length pkt < 2 ^ 32"
proof -
  assume w: "written f pkt"
  let ?v = "of_nat (length (Body f)) :: uint32"
  have n: "length (Body f) \<le> unat maxVarint" and p: "pkt = Header f # varint ?v @ Body f"
    using w by (auto simp: written_def writePacket_eq split: if_splits)
  have "?v \<le> maxVarint" using n unat_of_nat_le_maxVarint[OF n] by (simp add: word_le_nat_alt)
  then have "length (varint ?v) \<le> 4" by (simp add: length_varint varintLen_def)
  with n show ?thesis by (simp add: p maxVarint_def)
qed

lemma teardown_links:
  "c_links (teardownLink l g c) = (c_links c)(l := (c_links c l)\<lparr>l_stopped := True\<rparr>)"
  "c_nextLink (teardownLink l g c) = c_nextLink c"
  by (auto simp: teardownLink_def failAllWaiters_def updLink_def Let_def fun_eq_iff)

lemma appends_writeFrame:
  assumes "sendable e"
  shows "appends c (snd (writeFrame l e io c))"
proof (cases "e []")
  case (Inl x)
  then show ?thesis by (simp add: writeFrame_def)
next
  case (Inr pkt)
  let ?lim = "l_outboundMax (c_links c l)"
  obtain f where f: "written f pkt" "clientFrame f" using assms Inr by (auto simp: sendable_def)
  have fits: "sentBytes ?lim [f] pkt" if "\<not> (?lim \<noteq> 0 \<and> of_nat (length pkt) > ?lim)"
  proof -
    have "length pkt \<le> unat ?lim" if "?lim \<noteq> 0" "of_nat (length pkt) \<le> ?lim"
      using that written_length[OF f(1)] by (simp add: word_le_nat_alt unat_of_nat)
    with that f have "sent ?lim f pkt" by (auto simp: sent_def not_less)
    then show ?thesis by (auto simp: sentBytes_def intro!: exI[of _ "[pkt]"])
  qed
  have torn: "appends c (teardownLink l g (updLink l (l_out_update h) c))" for g h
    by (auto simp: appends_def teardown_links updLink_def intro!: exI[of _ "[]"])
  have "appends c (updLink l (l_out_update (\<lambda>out. out @ pkt)) c)" if "sentBytes ?lim [f] pkt"
    using that by (auto simp: appends_def updLink_def intro: exI[of _ "[]"])
  then show ?thesis using Inr fits torn by (auto simp: writeFrame_def Let_def split: option.split)
qed

lemmas appends_after = appends_trans[OF _ appends_teardownLink] appends_trans[OF _ appends_writeFrame]

lemma appends_sends:
  "appends c (sendAckReason l t i rc io c)" "appends c (sendAck l t i io c)" "appends c (protocolError l rc io c)"
  by (simp_all add: sendAckReason_def sendAck_def protocolError_def Let_def
      appends_writeFrame appends_trans[OF appends_writeFrame appends_teardownLink] appends_teardownLink)

lemma links_simps [simp]:
  "c_links (removeWaiter i ch c) = c_links c" "c_nextLink (removeWaiter i ch c) = c_nextLink c"
  "c_links (snd (registerWaiter i want c)) = c_links c" "c_nextLink (snd (registerWaiter i want c)) = c_nextLink c"
  "c_links (snd (signalWaiter i k r c)) = c_links c" "c_nextLink (snd (signalWaiter i k r c)) = c_nextLink c"
  "c_links (releaseExchange l i k c) = c_links c" "c_nextLink (releaseExchange l i k c) = c_nextLink c"
  "c_links (publishAcked_abort i g q c) = c_links c" "c_nextLink (publishAcked_abort i g q c) = c_nextLink c"
  by (simp_all add: removeWaiter_def registerWaiter_def signalWaiter_def releaseExchange_def publishAcked_abort_def
      Let_def split: option.split)

text \<open>A step that leaves the links alone, before or after one that appends.\<close>

lemma appends_from: "appends d c' \<Longrightarrow> c_links d = c_links c \<Longrightarrow> c_nextLink d = c_nextLink c \<Longrightarrow> appends c c'"
  by (simp add: appends_def)

lemma appends_to: "appends c d \<Longrightarrow> c_links c' = c_links d \<Longrightarrow> c_nextLink c' = c_nextLink d \<Longrightarrow> appends c c'"
  by (simp add: appends_def)

lemma appends_write_at:
  assumes "sendable e" "c_links d = c_links c" "c_nextLink d = c_nextLink c" "writeFrame l e io d = (err, c')"
  shows "appends c c'"
  using appends_from[OF appends_writeFrame[OF assms(1)] assms(2,3), of l io] assms(4) by simp

subsection \<open>Application calls\<close>

lemma appends_publishAcked_send: "appends c (snd (publishAcked_send l pkt io c))"
proof -
  obtain p q where a: "acquire_try (c_quota c) = (p, q)" by fastforce
  obtain i ig err ids where A: "Acquire (c_ids c) = ((i, ig, err), ids)" by (metis prod.collapse)
  define c1 where "c1 = c\<lparr>c_quota := q, c_ids := ids,
    c_store := memStore_Save (storedPublish i (pkt\<lparr>pub_PacketID := i\<rparr>)) (c_store c)\<rparr>"
  obtain ch c2 where r: "registerWaiter i ackClassPublish c1 = (ch, c2)" by fastforce
  obtain werr c3 where w: "writeFrame l (PublishPacket_Encode (pkt\<lparr>pub_PacketID := i\<rparr>)) io c2 = (werr, c3)" by fastforce
  have "c_links c2 = c_links c" "c_nextLink c2 = c_nextLink c"
    using arg_cong[OF r, of "\<lambda>x. c_links (snd x)"] arg_cong[OF r, of "\<lambda>x. c_nextLink (snd x)"]
    by (simp_all add: c1_def)
  then have c3: "appends c c3" using appends_write_at[OF _ _ _ w] by simp
  then have "appends c (publishAcked_abort i ig g (removeWaiter i ch c3))" for g by (rule appends_to) simp_all
  with c3 show ?thesis using a A r w
    by (auto simp: publishAcked_send_def c1_def Let_def appends_same split: acquirer.split option.split)
qed

lemma appends_Publish: "appends c (snd (TCPClient_Publish topic payload qos retain opts io c))"
  by (simp add: TCPClient_Publish_def Let_def case_prod_beta appends_writeFrame appends_publishAcked_send
      split: sum.split option.split)

lemma appends_requestAck_send:
  assumes "\<And>i. sendable (mk i)"
  shows "appends c (snd (requestAck_send l want mk io c))"
proof -
  obtain i g err ids where A: "Acquire (c_ids c) = ((i, g, err), ids)" by (metis prod.collapse)
  obtain ch c2 where r: "registerWaiter i want (c\<lparr>c_ids := ids\<rparr>) = (ch, c2)" by fastforce
  obtain werr c3 where w: "writeFrame l (mk i) io c2 = (werr, c3)" by fastforce
  have "c_links c2 = c_links c" "c_nextLink c2 = c_nextLink c"
    using arg_cong[OF r, of "\<lambda>x. c_links (snd x)"] arg_cong[OF r, of "\<lambda>x. c_nextLink (snd x)"] by simp_all
  then have c3: "appends c c3" using appends_write_at[OF assms _ _ w] by simp
  then have "appends c ((removeWaiter i ch c3)\<lparr>c_ids := x\<rparr>)" for x by (rule appends_to) simp_all
  with c3 show ?thesis using A r w
    by (auto simp: requestAck_send_def Let_def appends_same split: option.split)
qed

lemma addSubscription_links:
  "c_links (snd (addSubscription flt options h sid c)) = c_links c"
  "c_nextLink (snd (addSubscription flt options h sid c)) = c_nextLink c"
  by (simp_all add: addSubscription_def Let_def)

lemma appends_requests:
  "appends c (snd (TCPClient_Subscribe_send flt qos h opts io c))"
  "appends c (snd (TCPClient_Unsubscribe_send flt io c))"
proof -
  note R = appends_requestAck_send[OF sendable_request(1)] appends_requestAck_send[OF sendable_request(2)]
  have "appends c (snd (requestAck_send l want (\<lambda>i. SubscribePacket_Encode (mk i)) io (snd (addSubscription flt o' h sid c))))"
    "appends c (restoreSubscription flt prev token
      (snd (requestAck_send l want (\<lambda>i. SubscribePacket_Encode (mk i)) io (snd (addSubscription flt o' h sid c)))))"
    for l want mk o' sid prev token
    by (rule appends_to[OF appends_from[OF R(1) addSubscription_links]]; simp add: restoreSubscription_def)+
  then show "appends c (snd (TCPClient_Subscribe_send flt qos h opts io c))"
    by (simp add: TCPClient_Subscribe_send_def Let_def case_prod_beta split: sum.split option.split)
  show "appends c (snd (TCPClient_Unsubscribe_send flt io c))"
    using R(2) by (simp add: TCPClient_Unsubscribe_send_def Let_def case_prod_beta split: sum.split option.split)
qed

lemma appends_finishes:
  "appends c (snd (publishAcked_finish ident ch how c))" "appends c (awaitResubscribe ident gen ch res c)"
  "appends c (snd (TCPClient_Subscribe_finish flt pd how c))" "appends c (snd (TCPClient_Unsubscribe_finish flt pd how c))"
  by (rule appends_same; simp add: publishAcked_finish_def awaitResubscribe_def requestAck_finish_def
      TCPClient_Subscribe_finish_def TCPClient_Unsubscribe_finish_def restoreSubscription_def
      removeSubscriptionIfCurrent_def Let_def case_prod_beta split: sum.split option.split)+

subsection \<open>The loops\<close>

lemma appends_link_fields:
  "appends c (updLink l (l_graceful_update f) c)" "appends c (updLink l (l_outstandingPings_update f') c)"
  "appends c (updLink l (l_aliases_update f'') c)"
  by (rule appends_updLink; simp)+

lemma appends_Disconnect: "appends c (TCPClient_Disconnect io c)"
  by (auto simp: TCPClient_Disconnect_def Let_def split: option.split
      intro!: appends_trans[OF appends_link_fields(1) appends_trans[OF appends_writeFrame appends_teardownLink]])

lemma appends_tick: "appends c (snd (keepAlive_tick l io c))"
  by (auto simp: keepAlive_tick_def Let_def case_prod_beta appends_teardownLink split: option.split
      intro!: appends_trans[OF appends_link_fields(2) appends_writeFrame]
        appends_trans[OF appends_link_fields(2) appends_trans[OF appends_writeFrame appends_teardownLink]])

lemma appends_handleAck: "appends c (snd (handleAck l frame t io c))"
proof -
  have "appends c (completeOutbound l i k res c)" for i k res
    by (rule appends_same) (simp_all add: completeOutbound_def)
  moreover have "appends c (handlePubrec l ack reason io c)" for ack reason
    by (auto simp: handlePubrec_def Let_def intro: appends_sends appends_same appends_from[OF appends_sends(2)])
  ultimately show ?thesis
    by (simp add: handleAck_def Let_def appends_sends split: sum.split)
qed

lemma appends_handleFrame:
  assumes "packetType (Header frame) \<noteq> Publish"
  shows "appends c (snd (handleFrame l frame env c))"
proof -
  have "appends c (snd (handleInboundPubrel l frame io c))" for io
    by (auto simp: handleInboundPubrel_def Let_def split: sum.split intro: appends_sends appends_from[OF appends_sends(2)])
  moreover have "appends c (snd (handleSuback l frame io c))" "appends c (snd (handleUnsuback l frame io c))" for io
    by (auto simp: handleSuback_def handleUnsuback_def Let_def split: sum.split intro: appends_sends appends_same)
  ultimately show ?thesis
    using assms by (simp add: handleFrame_def Let_def handleServerDisconnect_def appends_handleAck appends_sends
        appends_teardownLink appends_link_fields)
qed

lemma appends_publishEnter:
  "publishEnter l frame io c = Inl (b, c') \<Longrightarrow> appends c c'"
  "publishEnter l frame io c = Inr (pub, hs, c') \<Longrightarrow> appends c c'"
proof -
  have alias': "appends c d" if "resolveTopicAlias l p c = (t, d)" for p t d
    using that by (auto simp: resolveTopicAlias_def appends_link_fields split: option.splits if_splits)
  have calls: "appends x (x\<lparr>c_calls := cs\<rparr>)" for x cs by (rule appends_same) simp_all
  note k = appends_trans[OF alias']
  show "publishEnter l frame io c = Inl (b, c') \<Longrightarrow> appends c c'"
    "publishEnter l frame io c = Inr (pub, hs, c') \<Longrightarrow> appends c c'"
    by (auto simp: publishEnter_def Let_def split: sum.splits prod.splits option.splits if_splits
        intro: appends_sends k[OF _ appends_refl] k[OF _ calls] k[OF _ appends_sends(2)] k[OF _ appends_sends(3)])
qed

lemma appends_publishLeave: "appends c (snd (publishLeave l pub io c))"
  by (auto simp: publishLeave_def intro: appends_sends appends_from[OF appends_sends(2)])

subsection \<open>Connecting\<close>

lemma appends_replayMessages: "appends c (snd (replayMessages l ms ios c))"
proof (induction l ms ios c rule: replayMessages.induct)
  case (2 l m ms ios c)
  show ?case
  proof (cases "replayEncoder (c_version c) m")
    case (Some e)
    then show ?thesis
      using 2(2)[OF Some refl refl] appends_trans[OF appends_writeFrame[OF sendable_replay[OF Some]]] by (simp add: Let_def)
  qed (use 2(1) in simp)
qed simp

lemma appends_resubscribe: "appends c (snd (resubscribe l ss ios c))"
proof (induction ss arbitrary: ios c)
  case (Cons s ss)
  have step: "appends c (snd (resubscribe l ss ios' d))" if "appends c d" for d ios'
    using that Cons.IH[of d ios'] by (rule appends_trans)
  obtain i g err ids where A: "Acquire (c_ids c) = ((i, g, err), ids)" by (metis prod.collapse)
  obtain ch c2 where r: "registerWaiter i ackClassSuback (c\<lparr>c_ids := ids\<rparr>) = (ch, c2)" by fastforce
  have 2: "c_links c2 = c_links c" "c_nextLink c2 = c_nextLink c"
    using arg_cong[OF r, of "\<lambda>x. c_links (snd x)"] arg_cong[OF r, of "\<lambda>x. c_nextLink (snd x)"] by simp_all
  obtain werr c3 where w: "writeFrame l (SubscribePacket_Encode (subscribePacket c2 (sn_filter s) (sn_options s)
      (sn_subID s) i)) (case ios of [] \<Rightarrow> None | x # _ \<Rightarrow> x) c2 = (werr, c3)" by fastforce
  have 3: "appends c c3" using appends_write_at[OF _ 2 w] by simp
  then have 4: "appends c ((removeWaiter i ch c3)\<lparr>c_ids := x\<rparr>)" for x by (rule appends_to) simp_all
  have 1: "appends c (c\<lparr>c_ids := ids\<rparr>)" by (rule appends_same) simp_all
  show ?case
    using A r w step[OF 1] step[OF 3] step[OF 4]
    by (auto simp: Let_def case_prod_beta split: option.split)
qed simp

definition connecting :: "Frame \<Rightarrow> byte list \<Rightarrow> bool" where
  "connecting f pkt \<longleftrightarrow> written f pkt \<and> packetType (Header f) = Connect \<and> ValidateFlags f = Inr ()"

lemma handshake_connects:
  assumes "handshake cfg m env = (out, Inr r)"
  shows "\<exists>f. connecting f out"
proof -
  have "ConnectPacket_Encode (buildConnectPacket cfg m) [] = Inr out"
    using assms by (auto simp: handshake_def Let_def split: sum.splits option.splits prod.splits if_splits)
  then obtain body where "writePacket [] (push_bit 4 Connect) body = Inr out" by (rule ConnectPacket_EncodeE) blast
  then show ?thesis
    by (intro exI[of _ "\<lparr>Header = push_bit 4 Connect, Body = body\<rparr>"])
       (simp add: connecting_def written_def packetType_def ValidateFlags_def Let_def)
qed

section \<open>The bytes of a link\<close>

definition framed :: "link \<Rightarrow> bool" where
  "framed k \<longleftrightarrow> (\<exists>f pkt fs bs. connecting f pkt \<and> sentBytes (l_outboundMax k) fs bs \<and> l_out k = pkt @ bs)"

definition linksFramed :: "TCPClient \<Rightarrow> bool" where
  "linksFramed c \<longleftrightarrow> (\<forall>l < c_nextLink c. \<not> l_stopped (c_links c l) \<longrightarrow> framed (c_links c l))"

lemma framed_new: "connecting f (l_out k) \<Longrightarrow> framed k"
  unfolding framed_def by (metis append_Nil2 sentBytes_Nil)

lemma framed_more:
  assumes "framed k" "l_outboundMax k' = l_outboundMax k" "sentBytes (l_outboundMax k) fs bs" "l_out k' = l_out k @ bs"
  shows "framed k'"
proof -
  obtain f pkt gs cs where "connecting f pkt" "sentBytes (l_outboundMax k) gs cs" "l_out k = pkt @ cs"
    using assms(1) by (auto simp: framed_def)
  with assms(2-4) show ?thesis
    unfolding framed_def by (metis append.assoc sentBytes_append)
qed

lemma linksFramed_appends:
  assumes "linksFramed c" "appends c c'"
  shows "linksFramed c'"
  unfolding linksFramed_def
proof (intro allI impI)
  fix l assume "l < c_nextLink c'" "\<not> l_stopped (c_links c' l)"
  with assms have "framed (c_links c l)" "l_outboundMax (c_links c' l) = l_outboundMax (c_links c l)"
    "\<exists>fs bs. sentBytes (l_outboundMax (c_links c l)) fs bs \<and> l_out (c_links c' l) = l_out (c_links c l) @ bs"
    by (auto simp: linksFramed_def appends_def)
  then show "framed (c_links c' l)" using framed_more by blast
qed

lemma establish_framed:
  assumes "linksFramed c" "connecting f out" "establish out result ios c = ((err, ws), c')"
  shows "linksFramed c'" "err = None \<Longrightarrow> c_link c' = Some (c_nextLink c) \<and> c_nextLink c' = Suc (c_nextLink c)"
proof -
  define l where "l = c_nextLink c"
  define c4 where "c4 = (let c2 = updLink l (\<lambda>_. newLink (c\<lparr>c_nextLink := Suc l\<rparr>) out result) (c\<lparr>c_nextLink := Suc l\<rparr>);
      c3 = applySession result c2 in updLink l (\<lambda>k. k\<lparr>l_quotaGen := quota_generation (c_quota c3),
      l_idGen := idAllocator_generation (c_ids c3)\<rparr>) c3)"
  obtain ios1 c5 where r5: "replaySession l ios c4 = (ios1, c5)" by fastforce
  obtain ws1 c6 where r6: "replaySubscriptions l ios1 c5 = (ws1, c6)" by fastforce
  have new: "framed (c_links c4 l)"
    using assms(2) by (intro framed_new[of f]) (simp add: c4_def updLink_def newLink_def Let_def)
  have "c_links c4 k = c_links c k" if "k < l" for k using that by (simp add: c4_def updLink_def Let_def)
  with new assms(1) have 4: "linksFramed c4" "c_nextLink c4 = Suc l"
    by (auto simp: linksFramed_def c4_def l_def updLink_def Let_def less_Suc_eq)
  have 5: "appends c4 c5"
    using appends_replayMessages[of c4 l "memStore_All (c_store c4)" ios] r5 by (simp add: replaySession_def)
  have 6: "appends c5 c6" using appends_resubscribe[of c5 l "c_subs c5" ios1] r6 by (simp add: replaySubscriptions_def)
  note A = appends_trans[OF 5 6]
  have c': "err \<noteq> None \<and> c' = c6 \<or> err = None \<and> c' = c6\<lparr>c_result := Some result, c_link := Some l\<rparr>"
    using assms(3) r5 r6 by (auto simp: establish_def c4_def l_def Let_def split: if_splits)
  have "linksFramed c6" by (rule linksFramed_appends[OF 4(1) A])
  with c' show "linksFramed c'" by (auto simp: linksFramed_def)
  have "c_nextLink c6 = Suc l" using A 4(2) by (simp add: appends_def)
  with c' show "err = None \<Longrightarrow> c_link c' = Some (c_nextLink c) \<and> c_nextLink c' = Suc (c_nextLink c)"
    by (auto simp: l_def)
qed

lemma Connect_framed:
  assumes "linksFramed c" "TCPClient_Connect env c = ((err, ws), c')"
  shows "linksFramed c'" "err = None \<Longrightarrow> c_link c' = Some (c_nextLink c) \<and> c_nextLink c' = Suc (c_nextLink c)"
proof -
  from assms(2) consider e where "c' = c" "err = Some e" | out r result where
    "handshake (c_cfg c) (c_inboundMax c) env = (out, Inr r)" "establish out result (ce_ios env) c = ((err, ws), c')"
    by (auto simp: TCPClient_Connect_def split: if_splits option.splits sum.splits prod.splits) metis+
  then show "linksFramed c'" "err = None \<Longrightarrow> c_link c' = Some (c_nextLink c) \<and> c_nextLink c' = Suc (c_nextLink c)"
    using assms(1) handshake_connects establish_framed[OF assms(1)] by (metis, metis option.distinct(1))
qed

lemma linksFramed_quiet:
  assumes "quiet_step s s'" "linksFramed (ss_c s)"
  shows "linksFramed (ss_c s')"
proof -
  note K = linksFramed_appends[OF assms(2)]
  from assms(1) show ?thesis
  proof cases
    case (publish topic payload qos retain opts io pr c')
    then show ?thesis using K[OF appends_Publish[of _ topic payload qos retain opts io]] by simp
  next
    case (resume l pkt io sr c')
    then show ?thesis using K[OF appends_publishAcked_send[of _ l pkt io]] by simp
  next
    case (published ident ch how err c')
    then show ?thesis using K[OF appends_finishes(1)[of _ ident ch how]] by simp
  next
    case (subscribe flt qos h sopts io r c')
    then show ?thesis using K[OF appends_requests(1)[of _ flt qos h sopts io]] by simp
  next
    case (unsubscribe flt io r c')
    then show ?thesis using K[OF appends_requests(2)[of _ flt io]] by simp
  next
    case (subscribed pd flt how r' c')
    then show ?thesis using K[OF appends_finishes(3)[of _ flt pd how]] by simp
  next
    case (unsubscribed pd flt how err c')
    then show ?thesis using K[OF appends_finishes(4)[of _ flt pd how]] by simp
  next
    case (answer l f io b c')
    then show ?thesis using K[OF appends_publishEnter(1)] by simp
  next
    case (deliver l f io pub hs c')
    then show ?thesis using K[OF appends_publishEnter(2)] by simp
  next
    case (delivered l pub io b c')
    then show ?thesis using K[OF appends_publishLeave[of _ l pub io]] by simp
  next
    case (tick l io b c')
    then show ?thesis using K[OF appends_tick[of _ l io]] by simp
  next
    case (connect cenv err ws c' limit')
    then show ?thesis using Connect_framed(1)[OF assms(2)] by simp
  qed (simp_all add: K appends_finishes appends_sends appends_teardownLink appends_Disconnect)
qed

lemma linksFramed_step:
  assumes "session_step s s'" "linksFramed (ss_c s)"
  shows "linksFramed (ss_c s')"
  using assms(1)
proof cases
  case quiet
  then show ?thesis using linksFramed_quiet assms(2) by blast
next
  case (frame l f env b c')
  then show ?thesis using linksFramed_appends[OF assms(2) appends_handleFrame[of f _ l env]] by simp
qed

lemma linksFramed_reachable: "session_step\<^sup>*\<^sup>* s s' \<Longrightarrow> linksFramed (ss_c s) \<Longrightarrow> linksFramed (ss_c s')"
  by (induction rule: rtranclp_induct) (auto intro: linksFramed_step)

text \<open>A broker that reads frame by frame to the end of the bytes.\<close>

fun readsAs :: "byte list \<Rightarrow> Frame list \<Rightarrow> bool" where
  "readsAs bs [] \<longleftrightarrow> bs = []"
| "readsAs bs (f # fs) \<longleftrightarrow>
     (case ReadFrame \<lparr>r_bytes = bs, r_err = IoEOF\<rparr> 0xFFFFFFFF of
        Inr (f', r) \<Rightarrow> f' = f \<and> readsAs (r_bytes r) fs
      | Inl _ \<Rightarrow> False)"

lemma readsAs_written:
  assumes "written f pkt"
  shows "readsAs (pkt @ bs) (f # fs) \<longleftrightarrow> readsAs bs fs"
proof -
  have "length pkt \<le> unat (0xFFFFFFFF :: uint32)" using written_length[OF assms] by simp
  from ReadFrame_written[OF assms[unfolded written_def] this] show ?thesis by simp
qed

lemma readsAs_sent: "sentBytes lim fs bs \<Longrightarrow> readsAs bs fs \<and> (\<forall>g \<in> set fs. \<exists>pkt. sent lim g pkt)"
proof (induction fs arbitrary: bs)
  case (Cons f fs)
  from Cons.prems obtain pkt pkts where "sent lim f pkt" "list_all2 (sent lim) fs pkts" "bs = pkt @ concat pkts"
    by (auto simp: sentBytes_def list_all2_Cons1)
  then obtain cs where f: "sent lim f pkt" "sentBytes lim fs cs" "bs = pkt @ cs"
    unfolding sentBytes_def by blast
  then have "written f pkt" by (simp add: sent_def)
  then show ?case using Cons.IH[OF f(2)] f by (auto simp del: readsAs.simps simp: readsAs_written)
qed (simp add: sentBytes_def)

text \<open>
  C4: What the client writes is always a legal conversation. Take any state a session can reach, by
  any interleaving of application calls, inbound frames, write failures, losses and reconnects, and
  any link that is in use. A broker that reads the link from the start finds first a CONNECT with
  valid flags and then, up to the last byte, complete packets of the kinds a client may send, again
  with valid flags, and none is larger than the Maximum Packet Size the broker announced in its
  CONNACK. No packet is torn or interleaved with another.
\<close>

theorem outbound_framed:
  assumes "session_step\<^sup>*\<^sup>* (newSession cfg) s" "l < c_nextLink (ss_c s)" "\<not> isStopping l (ss_c s)"
  shows "\<exists>f fs. readsAs (l_out (c_links (ss_c s) l)) (f # fs) \<and>
    packetType (Header f) = Connect \<and> ValidateFlags f = Inr () \<and>
    (\<forall>g \<in> set fs. \<exists>pkt. sent (l_outboundMax (c_links (ss_c s) l)) g pkt)"
proof -
  have "linksFramed (ss_c (newSession cfg))"
    by (simp add: linksFramed_def newSession_def NewTCPClient_def case_prod_beta)
  then have "framed (c_links (ss_c s) l)"
    using linksFramed_reachable[OF assms(1)] assms(2,3) by (simp add: linksFramed_def isStopping_def)
  then obtain f pkt fs bs where f: "written f pkt" "packetType (Header f) = Connect" "ValidateFlags f = Inr ()"
    and b: "sentBytes (l_outboundMax (c_links (ss_c s) l)) fs bs" "l_out (c_links (ss_c s) l) = pkt @ bs"
    by (auto simp: framed_def connecting_def)
  then show ?thesis
    using readsAs_sent[OF b(1)] readsAs_written[OF f(1)] by (intro exI[of _ f] exI[of _ fs]) simp
qed

text \<open>The link of a first connect.\<close>

theorem outbound_framed_witness:
  "let c = snd (TCPClient_Connect exampleDial (NewTCPClient exampleConfig)) in
   \<exists>f fs. readsAs (l_out (c_links c 0)) (f # fs) \<and> packetType (Header f) = Connect"
proof -
  let ?c0 = "NewTCPClient exampleConfig"
  obtain err ws c where e: "TCPClient_Connect exampleDial ?c0 = ((err, ws), c)" by (metis prod.collapse)
  have z: "c_nextLink ?c0 = 0" "?c0\<lparr>c_lostCh := False\<rparr> = ?c0"
    by (simp_all add: NewTCPClient_def case_prod_beta)
  have "fst (tcpConnect exampleDial ?c0) = None" using exampleDial_accepted[of _ False, OF refl] z(2) by simp
  then have t: "tcpConnect exampleDial ?c0 = (None, c)" "err = None" using e by (simp_all add: tcpConnect_def)
  have "linksFramed ?c0" using z(1) by (simp add: linksFramed_def)
  from Connect_framed(2)[OF this e t(2)] have l: "c_link c = Some 0" "c_nextLink c = 1" using z(1) by simp_all
  have up: "\<not> isStopping 0 c" using tcp.connect_succeeds[OF t(1)] l(1) by (simp add: linkUp_def)
  let ?s0 = "newSession exampleConfig"
  define limit where "limit = (case accepted exampleDial (ss_c ?s0) of None \<Rightarrow> ss_limit ?s0
    | Some r \<Rightarrow> sessionLimit r (ss_c ?s0))"
  define s where "s = ?s0\<lparr>ss_c := c, ss_limit := limit, ss_reqs := ss_reqs ?s0 \<union> (\<lambda>(i, g, _). (i, g)) ` set ws\<rparr>"
  have "session_step ?s0 s"
    unfolding s_def by (rule session_step.quiet, rule quiet_step.connect[OF _ _ limit_def]) (use e in \<open>simp_all add: newSession_def\<close>)
  then have "session_step\<^sup>*\<^sup>* (newSession exampleConfig) s" by simp
  from outbound_framed[OF this, of 0] l up e show ?thesis by (auto simp: s_def)
qed

end
