(* ===== verification/Mqtt_Stall.thy ===== *)
theory Mqtt_Stall
  imports Mqtt_Session
begin

text \<open>
  A publish that stalls. \<^verbatim>\<open>publishAcked\<close> (\<^verbatim>\<open>publish.go\<close>) takes a permit and an identifier, stores the message
  and then writes it; the write may hang while the connection is lost and another one is
  established, and only then fail. Here the first half of \<^verbatim>\<open>publishAcked\<close> is cut at the write, and the
  pieces interleave with everything else the client does.
\<close>

section \<open>The pieces\<close>

text \<open>Up to the write: the result if there is nothing to write, else what the rest needs.\<close>

definition publishBegin ::
  "PublishPacket \<Rightarrow> TCPClient \<Rightarrow> (sendResult + uint16 \<times> uint64 \<times> uint64 \<times> nat) \<times> TCPClient" where
  "publishBegin pkt c =
     (case acquire_try (c_quota c) of
        (Parked w, q) \<Rightarrow> (Inl (SendParked w), c\<lparr>c_quota := q\<rparr>)
      | (Trying, q) \<Rightarrow> (Inl (SendParked 0), c)
      | (Returned quotaGen (Some err), q) \<Rightarrow> (Inl (SendFailed err), c\<lparr>c_quota := q\<rparr>)
      | (Returned quotaGen None, q) \<Rightarrow>
          let c = c\<lparr>c_quota := q\<rparr>;
              ((ident, idGen, err), ids) = Acquire (c_ids c);
              c = c\<lparr>c_ids := ids\<rparr>
          in case err of
               Some e \<Rightarrow> (Inl (SendFailed e), c\<lparr>c_quota := releaseAt quotaGen (c_quota c)\<rparr>)
             | None \<Rightarrow>
                 let pkt = pkt\<lparr>pub_PacketID := ident\<rparr>;
                     c = c\<lparr>c_store := memStore_Save (storedPublish ident pkt) (c_store c)\<rparr>;
                     (ch, c) = registerWaiter ident ackClassPublish c
                 in (Inr (ident, idGen, quotaGen, ch), c))"

text \<open>After a write that failed.\<close>

definition publishFailed :: "uint16 \<Rightarrow> uint64 \<Rightarrow> uint64 \<Rightarrow> nat \<Rightarrow> TCPClient \<Rightarrow> TCPClient" where
  "publishFailed ident idGen quotaGen ch c = publishAcked_abort ident idGen quotaGen (removeWaiter ident ch c)"

lemma publishAcked_send_pieces:
  "publishAcked_send l pkt io c =
     (case publishBegin pkt c of
        (Inl r, c) \<Rightarrow> (r, c)
      | (Inr (ident, idGen, quotaGen, ch), c) \<Rightarrow>
          (case writeFrame l (PublishPacket_Encode (pkt\<lparr>pub_PacketID := ident\<rparr>)) io c of
             (None, c) \<Rightarrow> (SendWaiting ident ch, c)
           | (Some e, c) \<Rightarrow> (SendFailed e, publishFailed ident idGen quotaGen ch c)))"
  by (auto simp: publishAcked_send_def publishBegin_def publishFailed_def Let_def
      split: prod.split acquirer.split option.split)

section \<open>The system\<close>

text \<open>\<open>st_sends\<close> are the sends between their first piece and the end of their write.\<close>

record stallSys =
  st_s :: sessionSys
  st_sends :: "(uint16 \<times> uint64 \<times> uint64) set"

abbreviation stClient :: "stallSys \<Rightarrow> TCPClient" where
  "stClient s \<equiv> ss_c (st_s s)"

text \<open>A frame acknowledges a message of this session that has not been written completely.\<close>

definition premature :: "stallSys \<Rightarrow> Frame \<Rightarrow> bool" where
  "premature s f \<longleftrightarrow>
     (case DecodeAck (c_version (stClient s)) (packetType (Header f)) (Body f) of
        Inl _ \<Rightarrow> False
      | Inr ack \<Rightarrow> \<exists>ig. (ack_PacketID ack, ig, qu_gen (c_quota (stClient s))) \<in> st_sends s)"

text \<open>
  Every step of the session as before, but the broker does not acknowledge what it cannot have
  read, and a reconnect does not come round to the 64-bit generation of a stalled send. In between,
  sends begin, write on any link, and end.
\<close>

inductive stall_step :: "stallSys \<Rightarrow> stallSys \<Rightarrow> bool" where
  quiet: "quiet_step (st_s s) s1 \<Longrightarrow> \<forall>(i, ig, qg) \<in> st_sends s. qg \<noteq> qu_gen (c_quota (stClient s)) + 1 \<Longrightarrow>
    stall_step s (s\<lparr>st_s := s1\<rparr>)"
| frame: "l < c_nextLink (stClient s) \<Longrightarrow> \<not> isStopping l (stClient s) \<Longrightarrow> packetType (Header f) \<noteq> Publish \<Longrightarrow>
    \<not> premature s f \<Longrightarrow> handleFrame l f env (stClient s) = (b, c') \<Longrightarrow>
    stall_step s (s\<lparr>st_s := (st_s s)\<lparr>ss_c := c'\<rparr>\<rparr>)"
| begins: "publishBegin pkt (stClient s) = (Inr (i, ig, qg, ch), c') \<Longrightarrow>
    stall_step s (s\<lparr>st_s := (st_s s)\<lparr>ss_c := c'\<rparr>, st_sends := insert (i, ig, qg) (st_sends s)\<rparr>)"
| writes: "writeFrame l (PublishPacket_Encode pkt) io (stClient s) = (err, c') \<Longrightarrow>
    stall_step s (s\<lparr>st_s := (st_s s)\<lparr>ss_c := c'\<rparr>\<rparr>)"
| written: "stall_step s (s\<lparr>st_sends := st_sends s - {(i, ig, qg)}\<rparr>)"
| fails: "(i, ig, qg) \<in> st_sends s \<Longrightarrow>
    stall_step s (s\<lparr>st_s := (st_s s)\<lparr>ss_c := publishFailed i ig qg ch (stClient s)\<rparr>,
      st_sends := st_sends s - {(i, ig, qg)}\<rparr>)"

text \<open>The sends of the current session still own their entry.\<close>

definition sends_inv :: "stallSys \<Rightarrow> bool" where
  "sends_inv s \<longleftrightarrow> (\<forall>(i, ig, qg) \<in> st_sends s. qg = qu_gen (c_quota (stClient s)) \<longrightarrow>
     (i, StoredPublish) \<in> outKeys (c_store (stClient s)) \<and> ig = ia_gen (c_ids (stClient s)))"

section \<open>Stored exchanges stay\<close>

definition grows :: "TCPClient \<Rightarrow> TCPClient \<Rightarrow> bool" where
  "grows c c' \<longleftrightarrow> qu_gen (c_quota c') = qu_gen (c_quota c) \<and> ia_gen (c_ids c') = ia_gen (c_ids c) \<and>
     outKeys (c_store c) \<subseteq> outKeys (c_store c')"

lemma keeps_grows: "keeps c c' \<Longrightarrow> grows c c'"
  by (auto simp: keeps_def grows_def accounts_def)

lemma grows_trans: "grows a b \<Longrightarrow> grows b c \<Longrightarrow> grows a c"
  by (auto simp: grows_def)

lemma grows_refl [simp]: "grows c c"
  by (simp add: grows_def)

text \<open>What begins has an identifier no stored exchange has.\<close>

lemma publishBegin_inv:
  assumes "session_inv c limit reqs" "publishBegin pkt c = (Inr (i, ig, qg, ch), c')"
  shows "session_inv c' limit reqs" "grows c c'" "(i, StoredPublish) \<in> outKeys (c_store c')"
    "qg = qu_gen (c_quota c')" "ig = ia_gen (c_ids c')" "i \<notin> fst ` outKeys (c_store c)"
proof -
  have acc: "accounts_inv c limit reqs" using assms(1) by (simp add: session_inv_def)
  obtain q ids where a: "acquire_try (c_quota c) = (Returned qg None, q)"
    and A: "Acquire (c_ids c) = ((i, ig, None), ids)"
    using assms(2) by (auto simp: publishBegin_def Let_def split: prod.splits acquirer.splits option.splits)
  define c1 where "c1 = c\<lparr>c_quota := q, c_ids := ids,
    c_store := memStore_Save (storedPublish i (pkt\<lparr>pub_PacketID := i\<rparr>)) (c_store c)\<rparr>"
  note B = begin_exchange[OF acc a A, of "pkt\<lparr>pub_PacketID := i\<rparr>", folded c1_def]
  have "registerWaiter i ackClassPublish c1 = (ch, c')"
    using assms(2) a A by (auto simp: publishBegin_def c1_def Let_def split: prod.splits)
  then have k: "keeps c1 c'" using keeps_waiters(2)[of c1 i ackClassPublish] by simp
  show "session_inv c' limit reqs" by (rule session_inv_keeps[OF session_inv_step[OF assms(1) B(1,2)] k])
  have "grows c c1" using B(2) by (auto simp: grows_def linksKept_def c1_def storedPublish_def)
  then show "grows c c'" by (rule grows_trans[OF _ keeps_grows[OF k]])
  show "(i, StoredPublish) \<in> outKeys (c_store c')" "qg = qu_gen (c_quota c')" "ig = ia_gen (c_ids c')"
    using B(3-5) k by (auto simp: keeps_def accounts_def)
  have "alloc_ok (c_ids c)" using accounts_invD(1)[OF acc] by (simp add: client_wf_def)
  then have "i \<notin> usedIDs (c_ids c)" using Acquire_cases[OF _ A] by auto
  then show "i \<notin> fst ` outKeys (c_store c)" using accounts_invD(4)[OF acc] by blast
qed

lemma publishBegin_nothing:
  assumes "publishBegin pkt c = (Inl r, c1)"
  shows "grows c c1"
proof -
  obtain p q where a: "acquire_try (c_quota c) = (p, q)" by fastforce
  obtain i ig err ids where A: "Acquire (c_ids c) = ((i, ig, err), ids)" by (metis prod.collapse)
  have g: "qu_gen q = qu_gen (c_quota c)" using a by (auto simp: acquire_try_def split: if_splits)
  have "ia_gen ids = ia_gen (c_ids c)" using Acquire_gen[of "c_ids c"] A by simp
  with g show ?thesis using assms a A
    by (cases p) (auto simp: publishBegin_def grows_def quota_defs Let_def split: option.splits prod.splits)
qed

text \<open>A failed send takes away nothing but its own entry.\<close>

lemma grows_publishFailed:
  assumes "grows c c2" "(i, StoredPublish) \<notin> outKeys (c_store c)"
  shows "grows c (publishFailed i ig qg ch c2)"
proof -
  define d where "d = removeWaiter i ch c2"
  have "grows c d" using grows_trans[OF assms(1) keeps_grows[OF keeps_waiters(1)]] by (simp add: d_def)
  then show ?thesis
    using assms(2) unfolding publishFailed_def d_def[symmetric]
    by (auto simp: grows_def publishAcked_abort_def quota_defs Let_def)
qed

lemma grows_publishAcked_send:
  assumes "session_inv c limit reqs"
  shows "grows c (snd (publishAcked_send l pkt io c))"
proof (cases "publishBegin pkt c")
  case (Pair r c1)
  show ?thesis
  proof (cases r)
    case (Inl x)
    then show ?thesis using publishBegin_nothing[of pkt c x c1] Pair by (simp add: publishAcked_send_pieces)
  next
    case (Inr y)
    obtain i ig qg ch where y: "y = (i, ig, qg, ch)" by (cases y)
    note B = publishBegin_inv[OF assms Pair[unfolded Inr y]]
    obtain err c2 where w: "writeFrame l (PublishPacket_Encode (pkt\<lparr>pub_PacketID := i\<rparr>)) io c1 = (err, c2)" by fastforce
    have "keeps c1 c2" using keeps_writeFrame[of c1 l] w by (metis snd_conv)
    then have g: "grows c c2" by (rule grows_trans[OF B(2) keeps_grows])
    have "(i, StoredPublish) \<notin> outKeys (c_store c)" using B(6) by force
    with g have "grows c (publishFailed i ig qg ch c2)" by (rule grows_publishFailed)
    with g show ?thesis using w Pair Inr y by (simp add: publishAcked_send_pieces split: option.split)
  qed
qed

lemma grows_requestAck_send: "grows c (snd (requestAck_send l want mk io c))"
proof -
  obtain i g err ids where A: "Acquire (c_ids c) = ((i, g, err), ids)" by (metis prod.collapse)
  have 1: "grows c (c\<lparr>c_ids := ids\<rparr>)" using Acquire_gen[of "c_ids c"] A by (simp add: grows_def)
  obtain ch c2 where r: "registerWaiter i want (c\<lparr>c_ids := ids\<rparr>) = (ch, c2)" by fastforce
  obtain werr c3 where w: "writeFrame l (mk i) io c2 = (werr, c3)" by fastforce
  have "keeps (c\<lparr>c_ids := ids\<rparr>) c2" "keeps c2 c3"
    using keeps_waiters(2)[of "c\<lparr>c_ids := ids\<rparr>" i want] keeps_writeFrame[of c2 l "mk i" io] r w by simp_all
  then have 3: "grows c c3" using 1 keeps_grows grows_trans by blast
  then have "grows c (removeWaiter i ch c3)" using grows_trans[OF 3 keeps_grows[OF keeps_waiters(1)]] by blast
  then have "grows c ((removeWaiter i ch c3)\<lparr>c_ids := ReleaseAt i g (c_ids (removeWaiter i ch c3))\<rparr>)"
    by (simp add: grows_def)
  with 1 3 show ?thesis using A r w by (auto simp: requestAck_send_def Let_def split: option.split)
qed

lemma grows_registry: "grows c d \<Longrightarrow> grows c (d\<lparr>c_subs := ss\<rparr>)" "grows (c\<lparr>c_subSeq := n, c_subs := ss\<rparr>) d \<Longrightarrow> grows c d"
  by (simp_all add: grows_def)

lemma grows_requests:
  "grows c (snd (TCPClient_Subscribe_send flt qos h opts io c))"
  "grows c (snd (TCPClient_Unsubscribe_send flt io c))"
proof -
  have "grows c (snd (requestAck_send l want mk io (snd (addSubscription flt o' h sid c))))" for l want mk o' sid
    using grows_registry(2)[OF grows_requestAck_send] by (simp add: addSubscription_def Let_def)
  then show "grows c (snd (TCPClient_Subscribe_send flt qos h opts io c))"
    by (auto simp: TCPClient_Subscribe_send_def restoreSubscription_def Let_def case_prod_beta
        split: sum.split option.split intro: grows_registry(1))
  show "grows c (snd (TCPClient_Unsubscribe_send flt io c))"
    using grows_requestAck_send
    by (auto simp: TCPClient_Unsubscribe_send_def Let_def case_prod_beta split: sum.split option.split)
qed

lemma grows_finishes:
  "grows c (awaitResubscribe ident gen ch res c)"
  "grows c (snd (TCPClient_Subscribe_finish flt pd how c))" "grows c (snd (TCPClient_Unsubscribe_finish flt pd how c))"
proof -
  have f: "grows c (d\<lparr>c_ids := ReleaseAt i g (c_ids d)\<rparr>)" if "keeps c d" for d i g
    using keeps_grows[OF that] by (simp add: grows_def)
  have "grows c (snd (requestAck_finish p i g ch how c))" for p i g ch
    using f[OF keeps_refl] f[OF keeps_waiters(1)]
    by (auto simp: requestAck_finish_def Let_def split: sum.split option.split)
  then show "grows c (awaitResubscribe ident gen ch res c)"
    "grows c (snd (TCPClient_Subscribe_finish flt pd how c))" "grows c (snd (TCPClient_Unsubscribe_finish flt pd how c))"
    using f[OF keeps_refl] f[OF keeps_waiters(1)]
    by (auto simp: awaitResubscribe_def TCPClient_Subscribe_finish_def TCPClient_Unsubscribe_finish_def
        restoreSubscription_def removeSubscriptionIfCurrent_def Let_def case_prod_beta
        split: sum.split option.split intro: grows_registry(1))
qed

lemma grows_Publish:
  assumes "session_inv c limit reqs"
  shows "grows c (snd (TCPClient_Publish topic payload qos retain opts io c))"
  using grows_publishAcked_send[OF assms] keeps_grows[OF keeps_writeFrame]
  by (simp add: TCPClient_Publish_def Let_def case_prod_beta split: sum.split option.split)

text \<open>Only a reconnect moves the generation of the quota; no other step but a frame ends an exchange.\<close>

lemma quiet_grows:
  assumes "quiet_step s s'" "sys_inv s"
  shows "grows (ss_c s) (ss_c s') \<or> qu_gen (c_quota (ss_c s')) = qu_gen (c_quota (ss_c s)) + 1"
proof -
  have I: "session_inv (ss_c s) (ss_limit s) (ss_reqs s)" using assms(2) by (simp add: sys_inv_def)
  from assms(1) show ?thesis
  proof cases
    case (publish topic payload qos retain opts io pr c')
    then show ?thesis using grows_Publish[OF I, of topic payload qos retain opts io] by simp
  next
    case (resume l pkt io sr c')
    then show ?thesis using grows_publishAcked_send[OF I, of l pkt io] by simp
  next
    case (published ident ch how err c')
    then show ?thesis using keeps_grows[OF keeps_published, of "ss_c s" ident ch how] by simp
  next
    case (subscribe flt qos h sopts io r c')
    then show ?thesis using grows_requests(1)[of "ss_c s" flt qos h sopts io] by simp
  next
    case (unsubscribe flt io r c')
    then show ?thesis using grows_requests(2)[of "ss_c s" flt io] by simp
  next
    case (subscribed pd flt how r' c')
    then show ?thesis using grows_finishes(2)[of "ss_c s" flt pd how] by simp
  next
    case (unsubscribed pd flt how err c')
    then show ?thesis using grows_finishes(3)[of "ss_c s" flt pd how] by simp
  next
    case (answer l f io b c')
    then show ?thesis using keeps_grows[OF keeps_publishEnter(1)] by simp
  next
    case (deliver l f io pub hs c')
    then show ?thesis using keeps_grows[OF keeps_publishEnter(2)] by simp
  next
    case (delivered l pub io b c')
    then show ?thesis using keeps_grows[OF keeps_publishLeave, of "ss_c s" l pub io] by simp
  next
    case (tick l io b c')
    then show ?thesis using keeps_grows[OF keeps_tick, of "ss_c s" l io] by simp
  next
    case (connect cenv err ws c' limit')
    then show ?thesis using Connect_inv(2)[OF I] by fastforce
  qed (simp_all add: keeps_grows keeps_sends keeps_teardownLink keeps_Disconnect grows_finishes)
qed

text \<open>A frame ends at most the exchange it acknowledges.\<close>

definition spares :: "uint16 \<Rightarrow> TCPClient \<Rightarrow> TCPClient \<Rightarrow> bool" where
  "spares i c c' \<longleftrightarrow> qu_gen (c_quota c') = qu_gen (c_quota c) \<and> ia_gen (c_ids c') = ia_gen (c_ids c) \<and>
     outKeys (c_store c) - {(i, StoredPublish), (i, StoredPubrel)} \<subseteq> outKeys (c_store c')"

lemma grows_spares: "grows c c' \<Longrightarrow> spares i c c'"
  by (auto simp: grows_def spares_def)

lemma spares_keeps: "spares i c d \<Longrightarrow> keeps d c' \<Longrightarrow> spares i c c'"
  by (auto simp: spares_def keeps_def accounts_def)

lemma spares_handleAck:
  assumes "DecodeAck (c_version c) t (Body f) = Inr ack"
  shows "spares (ack_PacketID ack) c (snd (handleAck l f t io c))"
proof -
  let ?i = "ack_PacketID ack"
  have k: "spares ?i c c'" if "keeps c c'" for c' by (rule grows_spares[OF keeps_grows[OF that]])
  have r: "spares ?i c (releaseExchange l ?i k c)" if "k \<in> {StoredPublish, StoredPubrel}" for k
    using that by (auto simp: spares_def releaseExchange_def quota_defs Let_def)
  note e = spares_keeps[OF r keeps_waiters(3)]
  have "spares ?i c (completeOutbound l ?i k res c)" if "k \<in> {StoredPublish, StoredPubrel}" for k res
    using e[OF that] k[OF keeps_refl] by (simp add: completeOutbound_def)
  moreover have "spares ?i c (c\<lparr>c_store := memStore_Delete ?i StoredPublish
      (memStore_Save (idOnly ?i StoredPubrel) (c_store c))\<rparr>)"
    by (auto simp: spares_def)
  then have "spares ?i c (handlePubrec l ack reason io c)" for reason
    using e[of StoredPublish] k[OF keeps_sends(1)] k[OF keeps_sends(2)] spares_keeps[OF _ keeps_sends(2)]
    by (simp add: handlePubrec_def Let_def)
  ultimately show ?thesis using assms k[OF keeps_refl] by (simp add: handleAck_def Let_def)
qed

lemma handleFrame_entries:
  assumes "packetType (Header f) \<noteq> Publish" "handleFrame l f env c = (b, c')"
  shows "case DecodeAck (c_version c) (packetType (Header f)) (Body f) of
      Inl _ \<Rightarrow> grows c c'
    | Inr ack \<Rightarrow> spares (ack_PacketID ack) c c'"
proof -
  have u: "keeps c (updLink l (l_outstandingPings_update g) c)" for g
    by (rule keeps_updLink) (simp add: linkGens_def)
  have "keeps c (snd (handleInboundPubrel l f io c))" for io
    by (auto simp: handleInboundPubrel_def Let_def split: sum.split
        intro!: keeps_sends keeps_trans[OF keeps_inbound(2) keeps_sends(2)])
  moreover have "keeps c (snd (handleSuback l f io c))" "keeps c (snd (handleUnsuback l f io c))" for io
    by (auto simp: handleSuback_def handleUnsuback_def Let_def split: sum.split intro!: keeps_sends keeps_waiters)
  ultimately consider "keeps c c'" | t where "t = packetType (Header f)" "c' = snd (handleAck l f t (fe_io env) c)"
    using assms u keeps_sends(3)[of c l] keeps_teardownLink[of c l]
    by (auto simp: handleFrame_def Let_def handleServerDisconnect_def split: if_splits)
      (metis snd_conv)+
  then show ?thesis
  proof cases
    case 1
    then show ?thesis using keeps_grows grows_spares by (auto split: sum.split)
  next
    case 2
    have "grows c (snd (handleAck l f t io c))" if "DecodeAck (c_version c) t (Body f) = Inl e" for e io
      using that keeps_grows[OF keeps_sends(3)] by (simp add: handleAck_def)
    then show ?thesis using 2 spares_handleAck[of c t f] by (auto split: sum.split)
  qed
qed

section \<open>Every step keeps the invariants\<close>

lemma sends_inv_grows:
  assumes "sends_inv s" "grows (stClient s) (ss_c s1)"
  shows "sends_inv (s\<lparr>st_s := s1\<rparr>)"
  using assms unfolding sends_inv_def grows_def by fastforce

lemma publishFailed_inv:
  assumes "session_inv c limit reqs" "qg = qu_gen (c_quota c) \<Longrightarrow> (i, StoredPublish) \<in> outKeys (c_store c) \<and> ig = ia_gen (c_ids c)"
  shows "session_inv (publishFailed i ig qg ch c) limit reqs"
proof -
  define d where "d = removeWaiter i ch c"
  have k: "keeps c d" using keeps_waiters(1) by (simp add: d_def)
  then have d: "outKeys (c_store d) = outKeys (c_store c)" "qu_gen (c_quota d) = qu_gen (c_quota c)" "ia_gen (c_ids d) = ia_gen (c_ids c)"
    by (simp_all add: keeps_def accounts_def)
  note S = session_inv_keeps[OF assms(1) k]
  show ?thesis
  proof (cases "qg = qu_gen (c_quota c)")
    case True
    then show ?thesis
      using session_inv_end[OF S, of i StoredPublish qg ig] assms(2) d
      by (simp add: publishFailed_def d_def[symmetric] publishAcked_abort_def quota_generation_def)
  next
    case False
    then show ?thesis using S d by (simp add: publishFailed_def d_def[symmetric] publishAcked_abort_def quota_generation_def)
  qed
qed

lemma sends_inv_failed:
  assumes "sends_inv s" "(i, ig, qg) \<in> st_sends s"
  shows "sends_inv (s\<lparr>st_s := (st_s s)\<lparr>ss_c := publishFailed i ig qg ch (stClient s)\<rparr>, st_sends := st_sends s - {(i, ig, qg)}\<rparr>)"
proof -
  let ?c = "stClient s" and ?d = "publishFailed i ig qg ch (stClient s)"
  have k: "keeps ?c (removeWaiter i ch ?c)" by (rule keeps_waiters(1))
  then have g: "qu_gen (c_quota ?d) = qu_gen (c_quota ?c)" "ia_gen (c_ids ?d) = ia_gen (c_ids ?c)"
    and e: "outKeys (c_store ?c) - (if qg = qu_gen (c_quota ?c) then {(i, StoredPublish)} else {}) \<subseteq> outKeys (c_store ?d)"
    by (auto simp: publishFailed_def publishAcked_abort_def keeps_def accounts_def quota_defs quota_generation_def Let_def)
  have "(j, StoredPublish) \<in> outKeys (c_store ?d) \<and> jg = ia_gen (c_ids ?d)"
    if "(j, jg, rg) \<in> st_sends s" "(j, jg, rg) \<noteq> (i, ig, qg)" "rg = qu_gen (c_quota ?d)" for j jg rg
  proof -
    have j: "(j, StoredPublish) \<in> outKeys (c_store ?c)" "jg = ia_gen (c_ids ?c)" "rg = qu_gen (c_quota ?c)"
      using assms(1) that(1,3) g by (auto simp: sends_inv_def)
    have "qg = qu_gen (c_quota ?c) \<Longrightarrow> ig = ia_gen (c_ids ?c)" using assms by (auto simp: sends_inv_def)
    with j that(2) have "qg = qu_gen (c_quota ?c) \<Longrightarrow> j \<noteq> i" by auto
    with j e g show ?thesis by (auto split: if_splits)
  qed
  then show ?thesis by (auto simp: sends_inv_def)
qed

definition stall_inv :: "stallSys \<Rightarrow> bool" where
  "stall_inv s \<longleftrightarrow> sys_inv (st_s s) \<and> sends_inv s"

lemma stall_inv_step:
  assumes "stall_step s s'" "stall_inv s"
  shows "stall_inv s'"
proof -
  have S: "sys_inv (st_s s)" and P: "sends_inv s" using assms(2) by (simp_all add: stall_inv_def)
  have I: "session_inv (stClient s) (ss_limit (st_s s)) (ss_reqs (st_s s))" using S by (simp add: sys_inv_def)
  from assms(1) show ?thesis
  proof cases
    case (quiet s1)
    have "sends_inv (s\<lparr>st_s := s1\<rparr>)"
      using quiet_grows[OF quiet(2) S]
    proof
      assume "qu_gen (c_quota (ss_c s1)) = qu_gen (c_quota (stClient s)) + 1"
      then show ?thesis using quiet(3) by (auto simp: sends_inv_def)
    qed (rule sends_inv_grows[OF P])
    then show ?thesis using sys_inv_quiet[OF quiet(2) S] quiet(1) by (simp add: stall_inv_def)
  next
    case (frame l f env b c')
    note F = handleFrame_entries[OF frame(4,6)]
    have "sends_inv s'"
    proof (cases "DecodeAck (c_version (stClient s)) (packetType (Header f)) (Body f)")
      case (Inl e)
      then show ?thesis using F sends_inv_grows[OF P] frame(1) by simp
    next
      case (Inr ack)
      then have "spares (ack_PacketID ack) (stClient s) c'" using F by simp
      then show ?thesis using P frame(1,5) Inr unfolding sends_inv_def premature_def spares_def by fastforce
    qed
    then show ?thesis using handleFrame_inv[OF I frame(2-4), of env] frame(1,6) by (simp add: stall_inv_def sys_inv_def)
  next
    case (begins pkt i ig qg ch c')
    note B = publishBegin_inv[OF I begins(2)]
    have "sends_inv (s\<lparr>st_s := (st_s s)\<lparr>ss_c := c'\<rparr>\<rparr>)" using B(2) by (intro sends_inv_grows[OF P]) simp
    then show ?thesis using B begins(1) by (auto simp: stall_inv_def sys_inv_def sends_inv_def)
  next
    case (writes l pkt io err c')
    then have "keeps (stClient s) c'" using keeps_writeFrame[of "stClient s" l "PublishPacket_Encode pkt" io] by simp
    then show ?thesis
      using session_inv_keeps[OF I] sends_inv_grows[OF P] keeps_grows writes(1) by (simp add: stall_inv_def sys_inv_def)
  next
    case (written i ig qg)
    then show ?thesis using S P by (auto simp: stall_inv_def sends_inv_def)
  next
    case (fails i ig qg ch)
    have "qg = qu_gen (c_quota (stClient s)) \<Longrightarrow>
        (i, StoredPublish) \<in> outKeys (c_store (stClient s)) \<and> ig = ia_gen (c_ids (stClient s))"
      using P fails(2) by (auto simp: sends_inv_def)
    from publishFailed_inv[OF I this] sends_inv_failed[OF P fails(2), of ch] fails(1) show ?thesis
      by (simp add: stall_inv_def sys_inv_def)
  qed
qed

lemma stall_inv_reachable: "stall_step\<^sup>*\<^sup>* s s' \<Longrightarrow> stall_inv s \<Longrightarrow> stall_inv s'"
  by (induction rule: rtranclp_induct) (auto intro: stall_inv_step)

definition newStall :: "TCPConfig \<Rightarrow> stallSys" where
  "newStall cfg = \<lparr>st_s = newSession cfg, st_sends = {}\<rparr>"

lemma stall_inv_new: "stall_inv (newStall cfg)"
  by (simp add: stall_inv_def newStall_def sends_inv_def sys_inv_new)


text \<open>
  A QoS 1 publish takes identifier and permit, its connection is lost while it stalls, and then its
  write fails.
\<close>

definition exampleStalled :: PublishPacket where
  "exampleStalled = \<lparr>pub_Version = V50, pub_Topic = str ''a'', pub_Payload = [1], pub_QoS = 1, pub_Retain = False,
     pub_Dup = False, pub_PacketID = 0, pub_Properties = None\<rparr>"

lemma Acquire_none_used:
  assumes "usedIDs a = {}" "Acquire a = ((i, g, err), a')"
  shows "err = None"
proof (cases "find (candidate a) [0..<packetIDSpace]")
  case None
  then have "(1 :: uint16) \<in> {0}" using Acquire_None(2)[OF None] assms(1) by (metis Un_empty_left UNIV_I)
  then show ?thesis by simp
next
  case (Some k)
  then show ?thesis using assms(2) Acquire_Some(1)[OF Some] by simp
qed

lemma example_begins:
  obtains i ig qg ch c where "publishBegin pkt exampleConnected = (Inr (i, ig, qg, ch), c)"
proof -
  let ?c0 = "NewTCPClient exampleConfig"
  obtain r where r: "accepted exampleEnv ?c0 = Some r" "quotaSize (fst (NewTCPClient_cfg exampleConfig)) r = 10"
    by (rule exampleEnv_accepted)
  then obtain out where e: "exampleConnected = snd (establish out r (ce_ios exampleEnv) ?c0)"
    using Connect_accepted[of exampleEnv ?c0] by (auto simp: exampleConnected_def)
  have m: "memStore_All newMemStore = []" "memStore_All (memStore_Reset newMemStore) = []"
    "inflightPermits newMemStore = 0" "inflightPermits (memStore_Reset newMemStore) = 0" by code_simp+
  have n: "c_subs ?c0 = []" "c_ids ?c0 = newIdAllocator" by (simp_all add: NewTCPClient_def case_prod_beta)
  have "usedIDs (c_ids exampleConnected) = {}" "\<not> qu_failed (c_quota exampleConnected)" "qu_avail (c_quota exampleConnected) = 10"
    using m n r(2) by (simp_all add: e establish_def applySession_def replaySession_def replaySubscriptions_def updLink_def
        quota_defs Let_def idAllocator_Reset_def newIdAllocator_def usedIDs_new)
  then show ?thesis
    using that Acquire_none_used[of "c_ids exampleConnected"]
    by (auto simp: publishBegin_def acquire_try_def Let_def case_prod_beta prod_eq_iff split: option.split prod.split)
qed


section \<open>The race that remains\<close>

text \<open>
  The failure path reads the quota's generation first and cleans up afterwards. A reconnect that
  resumes the session can come in between; the send then runs its three clean-up calls on the new
  session.
\<close>

definition publishDrop :: "uint16 \<Rightarrow> uint64 \<Rightarrow> uint64 \<Rightarrow> TCPClient \<Rightarrow> TCPClient" where
  "publishDrop ident idGen quotaGen c =
     (let c = c\<lparr>c_store := memStore_Delete ident StoredPublish (c_store c)\<rparr>;
          c = c\<lparr>c_ids := ReleaseAt ident idGen (c_ids c)\<rparr>
      in c\<lparr>c_quota := releaseAt quotaGen (c_quota c)\<rparr>)"

lemma publishAcked_abort_drop:
  "publishAcked_abort ident idGen quotaGen c =
     (if quota_generation (c_quota c) = quotaGen then publishDrop ident idGen quotaGen c else c)"
  by (simp add: publishAcked_abort_def publishDrop_def)

text \<open>
  The damage is one permit, as the code says. It is also the identifier: the reconnect kept the
  allocator's generation, so the identifier becomes free although the new link may have replayed the
  message under it.
\<close>

lemma late_drop:
  assumes "session_inv c limit reqs" "(i, StoredPublish) \<in> outKeys (c_store c)" "ig = ia_gen (c_ids c)" "qg \<noteq> qu_gen (c_quota c)"
  defines "c' \<equiv> publishDrop i ig qg c"
  shows "qu_avail (c_quota c') + inflightPermits (c_store c') = limit - 1 \<and> i \<in> usedIDs (c_ids c) \<and> i \<notin> usedIDs (c_ids c')"
proof -
  have a: "accounts_inv c limit reqs" using assms(1) by (simp add: session_inv_def)
  note I = accounts_invD[OF a]
  have wf: "store_wf (c_store c)" "alloc_ok (c_ids c)" using I(1) by (simp_all add: client_wf_def)
  have "card (outKeys (c_store c)) = Suc (card (outKeys (c_store c) - {(i, StoredPublish)}))"
    using card.remove[OF outKeys_finite assms(2)] by simp
  moreover have "c_quota c' = c_quota c" using assms(4) by (simp add: c'_def publishDrop_def quota_defs Let_def)
  moreover have "inflightPermits (c_store c') = int (card (outKeys (c_store c) - {(i, StoredPublish)}))"
    using wf(1) by (simp add: c'_def publishDrop_def Let_def inflightPermits_card store_wf_Delete)
  moreover have "usedIDs (c_ids c') = usedIDs (c_ids c) - {i}"
    using wf(2) I(5) assms(3) by (simp add: c'_def publishDrop_def Let_def)
  ultimately show ?thesis using I(4,6) assms(2) by force
qed

end
