(* ===== verification/Spec2Isabelle.thy ===== *)
theory Spec2Isabelle
  imports Mqtt_Prelude Mqtt_Wire Mqtt_Properties Mqtt_Reason Mqtt_Publish Mqtt_Connect
    Mqtt_Control Mqtt_Subscribe Mqtt_Topic Mqtt_Store Mqtt_Errors Mqtt_Alloc Mqtt_Quota
    Mqtt_Breaker Mqtt_Lifecycle Mqtt_Options Mqtt_Client Mqtt_Pump
    Mqtt_Session Mqtt_Exchange Mqtt_Resume Mqtt_Registry Mqtt_KeepAlive Mqtt_Connector
    Mqtt_TLS Mqtt_Facade Mqtt_Outbound Mqtt_Stall
begin

text \<open>
  A verification of go-mqtt, an MQTT 3.1.1 and 5.0 client library in Go.

  \<^bold>\<open>The program.\<close> The package \<^verbatim>\<open>protocol\<close> is the wire codec: framing, property blocks, the encoders of the
  packets a client sends and the decoders of those it receives, topic validation and matching. On
  top of it \<^verbatim>\<open>TCPClient\<close> owns one connection at a time, called a link: \<^verbatim>\<open>Connect\<close> dials, negotiates a
  session and replays what an earlier one left; \<^verbatim>\<open>Publish\<close>, \<^verbatim>\<open>Subscribe\<close> and \<^verbatim>\<open>Unsubscribe\<close> write packets and
  wait for their acknowledgements; a read loop and a keep-alive loop run per link. The session state
  they share is a store of unacknowledged packets, an allocator of packet identifiers and a send
  quota. Two layers make it resilient: \<^verbatim>\<open>Lifecycle\<close> reconnects, \<^verbatim>\<open>Breaker\<close> cuts publishing off during an
  outage.

  \<^bold>\<open>How code becomes definitions.\<close> Go integers are words of their width, \<^verbatim>\<open>int\<close> and durations are \<^typ>\<open>int\<close> with the
  wrap-around of 64 bits written out where the code can reach it (\<open>wrap64\<close>); byte slices and strings
  are lists of bytes; a nil pointer or a missing value is \<^const>\<open>None\<close>; a Go map is an association list; a
  call that can fail returns a sum whose left side is the error, sequenced by \<open>andthen\<close>; an index
  out of range is an error of its own, so that absence of panics is a theorem. A method that runs
  under a mutex is one function on the state. Operations of the client that wait are split at the
  wait (\<open>_send\<close> and \<open>_finish\<close>, \<open>publishEnter\<close> and \<open>publishLeave\<close>), and what other goroutines do meanwhile
  is arbitrary. Concurrency is a step relation over these halves. The outcome of a socket write is an
  argument (\<^const>\<open>None\<close>: written; \<^term>\<open>Some n\<close>: failed after \<open>n\<close> bytes), as are the clock, random numbers,
  the bytes a peer sends and the calls of message handlers, which are recorded in \<open>c_calls\<close>.

  \<^bold>\<open>The theories.\<close>
  \<^item> \<open>Mqtt_Prelude\<close>: types, errors, \<open>andthen\<close>, collections, facts on lists and words.
  \<^item> \<open>Mqtt_Wire\<close> (\<^verbatim>\<open>protocol/wire.go\<close>, \<^verbatim>\<open>version.go\<close>, \<^verbatim>\<open>errors.go\<close>): fixed header, varints, strings, the cursor,
    \<open>ReadFrame\<close> and \<open>writePacket\<close>. The locale \<open>field_codec\<close> is the contract of a field's writer and
    reader, interpreted for each of them. Framing is exact in both directions.
  \<^item> \<open>Mqtt_Properties\<close> (\<^verbatim>\<open>properties.go\<close>), \<open>Mqtt_Reason\<close> (\<^verbatim>\<open>reason.go\<close>), \<open>Mqtt_Publish\<close> (\<^verbatim>\<open>publish.go\<close>),
    \<open>Mqtt_Connect\<close> (\<^verbatim>\<open>connect.go\<close>), \<open>Mqtt_Control\<close> (\<^verbatim>\<open>control.go\<close>), \<open>Mqtt_Subscribe\<close> (\<^verbatim>\<open>subscribe.go\<close>): encoders
    and decoders. What one side writes the other reads back, through \<open>ReadFrame\<close>, as the same packet;
    packets only the broker decodes are read with a parser written from the layout of the
    specification; decoders accept exactly the legal inputs and never panic.
  \<^item> \<open>Mqtt_Topic\<close> (\<^verbatim>\<open>topic.go\<close>): validation and matching against the level-wise rules.
  \<^item> \<open>Mqtt_Store\<close>, \<open>Mqtt_Alloc\<close>, \<open>Mqtt_Quota\<close> (\<^verbatim>\<open>session.go\<close>) and \<open>Mqtt_Errors\<close> (\<^verbatim>\<open>errors.go\<close>). The store refines a
    list in first-save order (locale \<open>session_store\<close>, the interface \<^verbatim>\<open>SessionStore\<close>). The locale
    \<open>generational\<close> is the guard allocator and quota share: a release from before a reset is ignored.
    Identifiers are unique, permits add up, no waiter of the quota is forgotten.
  \<^item> \<open>Mqtt_Breaker\<close> (\<^verbatim>\<open>breaker.go\<close>): admission and outcome under every interleaving, refinement of the
    documented three-state contract, order of the callbacks.
  \<^item> \<open>Mqtt_Lifecycle\<close> (\<^verbatim>\<open>lifecycle.go\<close>): backoff, jitter and flap damping, \<^verbatim>\<open>ConnectWithRetry\<close>, the critical
    sections of \<^verbatim>\<open>Start\<close> and \<^verbatim>\<open>Stop\<close>. \<open>Mqtt_Connector\<close>: \<^verbatim>\<open>Start\<close>, \<^verbatim>\<open>Stop\<close> and a round of the loop over the
    interfaces \<^verbatim>\<open>Connector\<close> and \<^verbatim>\<open>ConnectionNotifier\<close> (locale \<open>connector\<close>, interpreted for the TCP client).
  \<^item> \<open>Mqtt_Options\<close> (\<^verbatim>\<open>client.go\<close>, \<^verbatim>\<open>options.go\<close>, parts of \<^verbatim>\<open>adapter_tcp.go\<close>): options, messages, configuration,
    negotiation. \<open>Mqtt_TLS\<close> (\<^verbatim>\<open>tls_config.go\<close>, \<^verbatim>\<open>TCPClient.dial\<close>): CA bundles and what a connection trusts.
  \<^item> \<open>Mqtt_Client\<close> (\<^verbatim>\<open>adapter_tcp.go\<close>, \<^verbatim>\<open>publish.go\<close>) and \<open>Mqtt_Pump\<close> (\<^verbatim>\<open>pump.go\<close>): the record \<open>TCPClient\<close> and
    every operation on it. \<open>Mqtt_KeepAlive\<close>: the keep-alive loop as a whole.
  \<^item> Compositions: \<open>Mqtt_Session\<close> (all operations as the steps of one system, with its invariant),
    \<open>Mqtt_Stall\<close> (the same with publishes that stall at their write, and what every run conserves), \<open>Mqtt_Exchange\<close> (a publish returns the broker's verdict), \<open>Mqtt_Resume\<close> (what a new
    link replays), \<open>Mqtt_Registry\<close> (subscriptions), \<open>Mqtt_Outbound\<close> (what the broker reads from a
    link), \<open>Mqtt_Facade\<close> (\<^verbatim>\<open>SplitClient\<close>, the breaker in front of the client; locale \<open>publisher\<close>).

  \<^bold>\<open>Bounds.\<close> Loops of the code are structural or have a termination proof by a measure (the unread
  bytes, the attempts left). Only a parser of the specification takes fuel, \<open>parseItems\<close> of
  \<open>Mqtt_Subscribe\<close>: the number of bytes left, which is enough because every item has at least one.
  Some loops may run for ever and are partial functions or runs over a list of events:
  \<^verbatim>\<open>ConnectWithRetry\<close> without a limit of attempts, \<^verbatim>\<open>readCABundle\<close> with a PEM decoder that does not consume
  its input, and the reconnect and keep-alive loops. Where a theorem says that
  they return, it says so under the condition that makes them. Backoffs are assumed below \<open>2\<^sup>6\<^sup>2\<close>
  nanoseconds, where doubling does not overflow (\<open>retry_overflow\<close> shows what happens beyond). The store
  numbers its entries with 64 bits and its contract holds until they are used up; a reconnect in
  \<open>session_step\<close> and \<open>stall_step\<close> assumes that the 64-bit generation does not come round to one still in use.

  \<^bold>\<open>Not modelled.\<close>
  \<^item> Sockets, the TLS handshake, \<^verbatim>\<open>pem.Decode\<close> and \<^verbatim>\<open>x509.ParseCertificate\<close>: outside the sources; arguments.
  \<^item> Interleavings inside one half of an operation. A half between two waits is atomic here; the code
    also releases locks in between. \<open>Mqtt_Stall\<close> splits \<^verbatim>\<open>publishAcked\<close> at its write, the one place in a
    half that can block. The race that remains in its failure path, a reconnect between the check of
    the generation and the clean-up, is not a step of the system; \<open>late_drop\<close> states what it costs.
  \<^item> A \<^verbatim>\<open>SessionStore\<close> of the application and the errors it may return: the client is modelled with the
    store of the package, which has none.
  \<^item> Logging, \<^verbatim>\<open>LastConnectedAt\<close> (a time stamp nothing depends on), and the waits of \<^verbatim>\<open>Disconnect\<close> and \<^verbatim>\<open>Stop\<close>
    for the loops, which are bounded by the context and change no state.
  \<^item> \<^verbatim>\<open>protocol/doc.go\<close>, the mock broker, the certificate generator and the tests.
\<close>

end
